(* ===== verification/Prelude.thy ===== *)
theory Prelude
  imports Main "HOL-Library.Word"
begin

unbundle bit_operations_syntax

text \<open>
  Shared vocabulary of the development.
  \<^item> The machine integers of the Rust sources as words, and the checked arithmetic of
    \<^verbatim>\<open>std\<close> on them (\<open>checked_add\<close>, \<open>checked_sub\<close>, \<open>checked_mul\<close>).
  \<^item> The result of a Rust call, \<open>outcome\<close>: a value, an error of the function's error type, or
    a panic (a failed \<^verbatim>\<open>assert!\<close>, an index out of range, \<^verbatim>\<open>unwrap\<close> of nothing,
    \<^verbatim>\<open>unreachable!\<close>). The operator \<^verbatim>\<open>?\<close> of the source is \<open>obind\<close>.
  \<^item> The operations of \<^verbatim>\<open>Vec\<close> that panic out of range, as outcomes.
  \<^item> The big-endian byte encodings \<^verbatim>\<open>to_be_bytes\<close> and \<^verbatim>\<open>from_be_bytes\<close>.
  Arithmetic that the source writes with plain \<open>+\<close> wraps, as in a release build.
\<close>

section \<open>Machine integers\<close>

type_synonym u8 = "8 word"
type_synonym u16 = "16 word"
type_synonym u32 = "32 word"
type_synonym u64 = "64 word"
type_synonym u128 = "128 word"
type_synonym bytes = "u8 list"

named_theorems outcome_simps \<open>equations that evaluate the outcome of a call\<close>
named_theorems checked_simps \<open>when a checked operation of a machine integer succeeds\<close>

definition checked_add :: "'a::len word \<Rightarrow> 'a word \<Rightarrow> 'a word option" where
  "checked_add x y = (if unat x + unat y < 2 ^ LENGTH('a) then Some (x + y) else None)"

definition checked_sub :: "'a::len word \<Rightarrow> 'a word \<Rightarrow> 'a word option" where
  "checked_sub x y = (if unat y \<le> unat x then Some (x - y) else None)"

definition checked_mul :: "'a::len word \<Rightarrow> 'a word \<Rightarrow> 'a word option" where
  "checked_mul x y = (if unat x * unat y < 2 ^ LENGTH('a) then Some (x * y) else None)"

lemma unat_bound: "unat (x :: 'a::len word) < 2 ^ LENGTH('a)"
  by (rule unsigned_less)

lemma unat_word_of_nat_small: "n < 2 ^ LENGTH('a) \<Longrightarrow> unat (word_of_nat n :: 'a::len word) = n"
  by (simp add: unat_of_nat)

lemma unat_add_no_overflow:
  "unat x + unat y < 2 ^ LENGTH('a) \<Longrightarrow> unat (x + y) = unat x + unat (y :: 'a::len word)"
  by (simp add: unat_word_ariths)

lemma unat_mult_no_overflow:
  "unat x * unat y < 2 ^ LENGTH('a) \<Longrightarrow> unat (x * y) = unat x * unat (y :: 'a::len word)"
  by (simp add: unat_word_ariths)

lemma checked_add_Some_iff [checked_simps]:
  "checked_add x y = Some z \<longleftrightarrow> unat z = unat x + unat (y :: 'a::len word)"
  using unat_bound [of z]
  by (auto simp: checked_add_def unat_add_no_overflow word_unat_eq_iff
      simp del: unsigned_less)

lemma checked_add_None_iff [checked_simps]:
  "checked_add x y = None \<longleftrightarrow> 2 ^ LENGTH('a) \<le> unat x + unat (y :: 'a::len word)"
  by (auto simp: checked_add_def)

lemma checked_sub_Some_iff [checked_simps]:
  "checked_sub x y = Some z \<longleftrightarrow> unat x = unat y + unat (z :: 'a::len word)"
proof
  assume "checked_sub x y = Some z"
  then have le: "unat y \<le> unat x" and z: "z = x - y"
    by (auto simp: checked_sub_def split: if_splits)
  then show "unat x = unat y + unat z"
    by (simp add: unat_sub word_le_nat_alt)
next
  assume eq: "unat x = unat y + unat z"
  then have "unat (x - y) = unat z"
    by (simp add: unat_sub word_le_nat_alt)
  with eq show "checked_sub x y = Some z"
    by (simp add: checked_sub_def word_unat_eq_iff)
qed

lemma checked_sub_None_iff [checked_simps]:
  "checked_sub x y = None \<longleftrightarrow> unat x < unat (y :: 'a::len word)"
  by (auto simp: checked_sub_def)

lemma checked_mul_Some_iff [checked_simps]:
  "checked_mul x y = Some z \<longleftrightarrow> unat z = unat x * unat (y :: 'a::len word)"
  using unat_bound [of z]
  by (auto simp: checked_mul_def unat_mult_no_overflow word_unat_eq_iff
      simp del: unsigned_less)

lemma checked_mul_None_iff [checked_simps]:
  "checked_mul x y = None \<longleftrightarrow> 2 ^ LENGTH('a) \<le> unat x * unat (y :: 'a::len word)"
  by (auto simp: checked_mul_def)

section \<open>Outcomes\<close>

datatype ('a, 'e) outcome = Ok 'a | Err 'e | Panic

fun obind :: "('a, 'e) outcome \<Rightarrow> ('a \<Rightarrow> ('b, 'e) outcome) \<Rightarrow> ('b, 'e) outcome" where
  "obind (Ok x) f = f x"
| "obind (Err e) f = Err e"
| "obind Panic f = Panic"

fun map_err :: "('e \<Rightarrow> 'f) \<Rightarrow> ('a, 'e) outcome \<Rightarrow> ('a, 'f) outcome" where
  "map_err g (Ok x) = Ok x"
| "map_err g (Err e) = Err (g e)"
| "map_err g Panic = Panic"

definition ok_or :: "'e \<Rightarrow> 'a option \<Rightarrow> ('a, 'e) outcome" where
  "ok_or e x = (case x of None \<Rightarrow> Err e | Some v \<Rightarrow> Ok v)"

definition unwrap :: "('a, 'd) outcome \<Rightarrow> ('a, 'e) outcome" where
  "unwrap r = (case r of Ok x \<Rightarrow> Ok x | Err _ \<Rightarrow> Panic | Panic \<Rightarrow> Panic)"

definition unwrap_opt :: "'a option \<Rightarrow> ('a, 'e) outcome" where
  "unwrap_opt x = (case x of None \<Rightarrow> Panic | Some v \<Rightarrow> Ok v)"

text \<open>\<^verbatim>\<open>assert!(c)\<close> followed by the rest of the body.\<close>

definition assert_then :: "bool \<Rightarrow> ('a, 'e) outcome \<Rightarrow> ('a, 'e) outcome" where
  "assert_then c r = (if c then r else Panic)"

lemma obind_cong [fundef_cong]:
  "r = s \<Longrightarrow> (\<And>x. s = Ok x \<Longrightarrow> f x = g x) \<Longrightarrow> obind r f = obind s g"
  by (cases s) auto

lemma assert_then_cong [fundef_cong]:
  "c = d \<Longrightarrow> (d \<Longrightarrow> r = s) \<Longrightarrow> assert_then c r = assert_then d s"
  by (simp add: assert_then_def)

lemma obind_eq_Ok [simp]: "obind r f = Ok y \<longleftrightarrow> (\<exists>x. r = Ok x \<and> f x = Ok y)"
  by (cases r) auto

lemma obind_eq_Err: "obind r f = Err e \<longleftrightarrow> r = Err e \<or> (\<exists>x. r = Ok x \<and> f x = Err e)"
  by (cases r) auto

lemma obind_eq_Panic: "obind r f = Panic \<longleftrightarrow> r = Panic \<or> (\<exists>x. r = Ok x \<and> f x = Panic)"
  by (cases r) auto

lemma obind_Ok_right [simp]: "obind r Ok = r"
  by (cases r) auto

lemma obind_assoc: "obind (obind r f) g = obind r (\<lambda>x. obind (f x) g)"
  by (cases r) auto

lemma map_err_eq_Ok [simp]: "map_err g r = Ok x \<longleftrightarrow> r = Ok x"
  by (cases r) auto

lemma map_err_eq_Err [simp]: "map_err g r = Err e \<longleftrightarrow> (\<exists>d. r = Err d \<and> e = g d)"
  by (cases r) auto

lemma map_err_eq_Panic [simp]: "map_err g r = Panic \<longleftrightarrow> r = Panic"
  by (cases r) auto

lemma ok_or_eq_Ok [simp]: "ok_or e x = Ok v \<longleftrightarrow> x = Some v"
  by (simp add: ok_or_def split: option.splits)

lemma ok_or_eq_Err [simp]: "ok_or e x = Err d \<longleftrightarrow> x = None \<and> d = e"
  by (auto simp: ok_or_def split: option.splits)

lemma ok_or_not_Panic [simp]: "ok_or e x \<noteq> Panic"
  by (simp add: ok_or_def split: option.splits)

lemma ok_or_Some [simp]: "ok_or e (Some v) = Ok v"
  by (simp add: ok_or_def)

lemma ok_or_None [simp]: "ok_or e None = Err e"
  by (simp add: ok_or_def)

lemma unwrap_Ok [simp]: "unwrap (Ok x) = Ok x" "unwrap (Err e) = Panic" "unwrap Panic = Panic"
  by (simp_all add: unwrap_def)

lemma unwrap_eq_Ok [simp]: "unwrap r = Ok x \<longleftrightarrow> r = Ok x"
  by (cases r) (auto simp: unwrap_def)

lemma unwrap_not_Err [simp]: "unwrap r \<noteq> Err e"
  by (cases r) (auto simp: unwrap_def)

lemma unwrap_opt_simps [simp]: "unwrap_opt None = Panic" "unwrap_opt (Some v) = Ok v"
  by (simp_all add: unwrap_opt_def)

lemma unwrap_opt_eq_Ok [simp]: "unwrap_opt x = Ok v \<longleftrightarrow> x = Some v"
  by (cases x) auto

lemma unwrap_opt_not_Err [simp]: "unwrap_opt x \<noteq> Err e"
  by (cases x) auto

lemma assert_then_simps [simp]: "assert_then True r = r" "assert_then False r = Panic"
  by (simp_all add: assert_then_def)

lemma assert_then_eq_Ok [simp]: "assert_then c r = Ok x \<longleftrightarrow> c \<and> r = Ok x"
  by (simp add: assert_then_def)

lemma assert_then_eq_Err [simp]: "assert_then c r = Err e \<longleftrightarrow> c \<and> r = Err e"
  by (simp add: assert_then_def)

section \<open>Vectors\<close>

text \<open>Reading, writing, inserting and removing by index; out of range they panic.\<close>

definition vec_get :: "'a list \<Rightarrow> nat \<Rightarrow> ('a, 'e) outcome" where
  "vec_get v i = (if i < length v then Ok (v ! i) else Panic)"

definition vec_set :: "'a list \<Rightarrow> nat \<Rightarrow> 'a \<Rightarrow> ('a list, 'e) outcome" where
  "vec_set v i x = (if i < length v then Ok (v[i := x]) else Panic)"

definition vec_insert :: "'a list \<Rightarrow> nat \<Rightarrow> 'a \<Rightarrow> ('a list, 'e) outcome" where
  "vec_insert v i x = (if i \<le> length v then Ok (take i v @ x # drop i v) else Panic)"

definition vec_remove :: "'a list \<Rightarrow> nat \<Rightarrow> ('a list, 'e) outcome" where
  "vec_remove v i = (if i < length v then Ok (take i v @ drop (Suc i) v) else Panic)"

text \<open>A loop over a slice that stops at the first error.\<close>

fun fold_outcome :: "('x \<Rightarrow> 's \<Rightarrow> ('s, 'e) outcome) \<Rightarrow> 'x list \<Rightarrow> 's \<Rightarrow> ('s, 'e) outcome" where
  "fold_outcome f [] s = Ok s"
| "fold_outcome f (x # xs) s = obind (f x s) (fold_outcome f xs)"

lemma fold_outcome_append:
  "fold_outcome f (xs @ ys) s = obind (fold_outcome f xs s) (fold_outcome f ys)"
proof (induction xs arbitrary: s)
  case (Cons x xs)
  show ?case by (cases "f x s") (simp_all add: Cons.IH)
qed simp

lemma fold_outcome_invariant:
  assumes "fold_outcome f xs s = Ok t" and "P s"
    and "\<And>x s t. x \<in> set xs \<Longrightarrow> P s \<Longrightarrow> f x s = Ok t \<Longrightarrow> P t"
  shows "P t"
  using assms by (induction xs arbitrary: s) auto

lemma fold_outcome_sum:
  fixes m :: "'s \<Rightarrow> nat"
  assumes "fold_outcome f xs s = Ok t" and "P s"
    and "\<And>x s t. x \<in> set xs \<Longrightarrow> P s \<Longrightarrow> f x s = Ok t \<Longrightarrow> P t \<and> m t + d x = m s + c x"
  shows "m t + sum_list (map d xs) = m s + sum_list (map c xs)"
  using assms
proof (induction xs arbitrary: s)
  case (Cons x xs)
  from Cons.prems(1) obtain u where u: "f x s = Ok u" and rest: "fold_outcome f xs u = Ok t"
    by auto
  from Cons.prems(3) [OF _ Cons.prems(2) u] have "P u" and step: "m u + d x = m s + c x"
    by auto
  with Cons.IH [OF rest] Cons.prems(3)
  have "m t + sum_list (map d xs) = m u + sum_list (map c xs)"
    by (metis list.set_intros(2))
  with step show ?case by simp
qed simp

section \<open>Big-endian bytes\<close>

definition be_bytes :: "nat \<Rightarrow> nat \<Rightarrow> bytes" where
  "be_bytes n x = map (\<lambda>i. word_of_nat (x div 256 ^ i)) (rev [0..<n])"

definition be_nat :: "bytes \<Rightarrow> nat" where
  "be_nat bs = foldl (\<lambda>acc b. acc * 256 + unat b) 0 bs"

definition to_be_bytes :: "'a::len word \<Rightarrow> bytes" where
  "to_be_bytes w = be_bytes (LENGTH('a) div 8) (unat w)"

definition from_be_bytes :: "bytes \<Rightarrow> 'a::len word" where
  "from_be_bytes bs = word_of_nat (be_nat bs)"

lemma length_be_bytes [simp]: "length (be_bytes n x) = n"
  by (simp add: be_bytes_def)

lemma length_to_be_bytes [simp]: "length (to_be_bytes (w :: 'a::len word)) = LENGTH('a) div 8"
  by (simp add: to_be_bytes_def)

lemma be_bytes_Suc: "be_bytes (Suc n) x = word_of_nat (x div 256 ^ n) # be_bytes n x"
  by (simp add: be_bytes_def)

lemma foldl_be: "foldl (\<lambda>acc b. acc * 256 + unat b) a bs = a * 256 ^ length bs + be_nat bs"
proof (induction bs arbitrary: a)
  case (Cons b bs)
  show ?case
    using Cons [of "a * 256 + unat b"] Cons [of "unat b"]
    by (simp add: be_nat_def algebra_simps)
qed (simp add: be_nat_def)

lemma be_nat_Cons: "be_nat (b # bs) = unat b * 256 ^ length bs + be_nat bs"
  using foldl_be [of "unat b" bs] by (simp add: be_nat_def)

lemma be_nat_be_bytes: "be_nat (be_bytes n x) = x mod 256 ^ n"
proof (induction n)
  case 0
  show ?case by (simp add: be_bytes_def be_nat_def)
next
  case (Suc n)
  have "unat (word_of_nat (x div 256 ^ n) :: u8) = x div 256 ^ n mod 256"
    by (simp add: unat_of_nat)
  with Suc show ?case
    using mod_mult2_eq [of x "256 ^ n" 256]
    by (simp add: be_bytes_Suc be_nat_Cons mult.commute)
qed

lemma be_nat_bound: "be_nat bs < 256 ^ length bs"
proof (induction bs)
  case (Cons b bs)
  have "unat b \<le> 255" using unat_bound [of b] by simp
  then have "unat b * 256 ^ length bs \<le> 255 * 256 ^ length bs"
    by (rule mult_le_mono1)
  with Cons have "unat b * 256 ^ length bs + be_nat bs < 256 * 256 ^ length bs"
    by linarith
  then show ?case by (simp add: be_nat_Cons)
qed (simp add: be_nat_def)

lemma be_bytes_be_nat: "length bs = n \<Longrightarrow> be_bytes n (be_nat bs) = bs"
proof (induction bs arbitrary: n)
  case Nil
  then show ?case by (simp add: be_bytes_def)
next
  case (Cons b bs)
  then obtain m where m: "n = Suc m" "length bs = m" by auto
  have bound: "be_nat bs < 256 ^ m"
    using be_nat_bound [of bs] m by simp
  have top: "be_nat (b # bs) div 256 ^ m = unat b"
    using bound by (simp add: be_nat_Cons m)
  have rest: "be_bytes m (be_nat (b # bs)) = be_bytes m (be_nat bs)"
  proof -
    have "be_nat (b # bs) div 256 ^ i mod 256 = be_nat bs div 256 ^ i mod 256" if "i < m" for i
    proof -
      obtain d where d: "m = Suc (i + d)" using \<open>i < m\<close> less_imp_Suc_add by auto
      have "be_nat (b # bs) = be_nat bs + 256 ^ i * (256 * (256 ^ d * unat b))"
        by (simp add: be_nat_Cons m(2) d power_add algebra_simps)
      then show ?thesis by simp
    qed
    then have "(word_of_nat (be_nat (b # bs) div 256 ^ i) :: u8) = word_of_nat (be_nat bs div 256 ^ i)"
      if "i < m" for i
      using that by (simp add: word_unat_eq_iff unat_of_nat)
    then show ?thesis by (simp add: be_bytes_def)
  qed
  show ?case
    using Cons.IH [OF m(2)] by (simp add: m(1) be_bytes_Suc top rest)
qed

lemma from_to_be_bytes:
  assumes "8 dvd LENGTH('a)"
  shows "from_be_bytes (to_be_bytes (w :: 'a::len word)) = w"
proof -
  obtain n where n: "LENGTH('a) = 8 * n" using assms by blast
  have "(256 :: nat) ^ n = 2 ^ LENGTH('a)"
    by (simp add: n power_mult)
  then show ?thesis
    using unat_bound [of w]
    by (simp add: from_be_bytes_def to_be_bytes_def be_nat_be_bytes n)
qed

lemma to_from_be_bytes:
  assumes "length bs * 8 = LENGTH('a)"
  shows "to_be_bytes (from_be_bytes bs :: 'a::len word) = bs"
proof -
  have "be_nat bs < 2 ^ LENGTH('a)"
    using be_nat_bound [of bs] power_mult [of "2 :: nat" 8 "length bs"]
    by (simp flip: assms add: mult.commute)
  then have "unat (word_of_nat (be_nat bs) :: 'a word) = be_nat bs"
    by (simp add: unat_of_nat)
  moreover have "LENGTH('a) div 8 = length bs"
    by (simp flip: assms)
  ultimately show ?thesis
    by (simp add: to_be_bytes_def from_be_bytes_def be_bytes_be_nat)
qed

end
