(* ===== verification/Mempack.thy ===== *)
theory Mempack
  imports Prelude
begin

text \<open>
  The binary reader and writer of \<^verbatim>\<open>chain-core/src/mempack.rs\<close>. A reader consumes a prefix of the bytes
  that are left in its buffer and returns the buffer advanced past them. The locale \<open>codec\<close> is the
  contract between the serializer and the reader of a type: reading back what was written gives the value
  and leaves the rest untouched. Round trips of sequences, of whole buffers, and the unique decodability of
  the encoding follow from it once, for every type that satisfies it.
\<close>

section \<open>Writing\<close>

definition write_buf_new :: bytes where
  "write_buf_new = []"

definition put_u8 :: "bytes \<Rightarrow> u8 \<Rightarrow> bytes" where
  "put_u8 buf v = buf @ [v]"

definition put_u16 :: "bytes \<Rightarrow> u16 \<Rightarrow> bytes" where
  "put_u16 buf v = buf @ to_be_bytes v"

definition put_u32 :: "bytes \<Rightarrow> u32 \<Rightarrow> bytes" where
  "put_u32 buf v = buf @ to_be_bytes v"

definition put_u64 :: "bytes \<Rightarrow> u64 \<Rightarrow> bytes" where
  "put_u64 buf v = buf @ to_be_bytes v"

definition put_u128 :: "bytes \<Rightarrow> u128 \<Rightarrow> bytes" where
  "put_u128 buf v = buf @ to_be_bytes v"

definition put_bytes :: "bytes \<Rightarrow> bytes \<Rightarrow> bytes" where
  "put_bytes buf v = buf @ v"

lemmas put_defs = write_buf_new_def put_u8_def put_u16_def put_u32_def put_u64_def put_u128_def
  put_bytes_def

section \<open>Reading\<close>

datatype read_error =
    NotEnoughBytes nat nat
  | UnconsumedData nat
  | SizeTooBig nat nat
  | StructureInvalid string
  | UnknownTag u32

record read_buf =
  rb_offset :: nat
  rb_data :: bytes

type_synonym 'a reader = "read_buf \<Rightarrow> ('a \<times> read_buf, read_error) outcome"

definition read_buf_from :: "bytes \<Rightarrow> read_buf" where
  "read_buf_from s = \<lparr> rb_offset = 0, rb_data = s \<rparr>"

definition rb_left :: "read_buf \<Rightarrow> nat" where
  "rb_left b = length (rb_data b) - rb_offset b"

definition assure_size :: "read_buf \<Rightarrow> nat \<Rightarrow> (unit, read_error) outcome" where
  "assure_size b expected =
     (let l = rb_left b in if l \<ge> expected then Ok () else Err (NotEnoughBytes l expected))"

definition expect_end :: "read_buf \<Rightarrow> (unit, read_error) outcome" where
  "expect_end b = (let l = rb_left b in if l = 0 then Ok () else Err (UnconsumedData l))"

definition is_end :: "read_buf \<Rightarrow> bool" where
  "is_end b \<longleftrightarrow> rb_left b = 0"

definition skip_bytes :: "read_buf \<Rightarrow> nat \<Rightarrow> (read_buf, read_error) outcome" where
  "skip_bytes b sz =
     obind (assure_size b sz) (\<lambda>_. Ok (b\<lparr>rb_offset := rb_offset b + sz\<rparr>))"

definition get_slice :: "nat \<Rightarrow> bytes reader" where
  "get_slice sz b =
     obind (assure_size b sz)
       (\<lambda>_. Ok (take sz (drop (rb_offset b) (rb_data b)), b\<lparr>rb_offset := rb_offset b + sz\<rparr>))"

definition get_u8 :: "u8 reader" where
  "get_u8 b =
     obind (assure_size b 1)
       (\<lambda>_. obind (vec_get (rb_data b) (rb_offset b)) (\<lambda>v. Ok (v, b\<lparr>rb_offset := rb_offset b + 1\<rparr>)))"

definition get_u16 :: "u16 reader" where
  "get_u16 b = obind (get_slice 2 b) (\<lambda>(buf, b). Ok (from_be_bytes buf, b))"

definition get_u32 :: "u32 reader" where
  "get_u32 b = obind (get_slice 4 b) (\<lambda>(buf, b). Ok (from_be_bytes buf, b))"

definition get_u64 :: "u64 reader" where
  "get_u64 b = obind (get_slice 8 b) (\<lambda>(buf, b). Ok (from_be_bytes buf, b))"

definition get_u128 :: "u128 reader" where
  "get_u128 b = obind (get_slice 16 b) (\<lambda>(buf, b). Ok (from_be_bytes buf, b))"

text \<open>\<^verbatim>\<open>Readable\<close> for the byte arrays of fixed length.\<close>

definition read_array :: "nat \<Rightarrow> bytes reader" where
  "read_array n b = get_slice n b"

fun read_vec :: "'a reader \<Rightarrow> nat \<Rightarrow> 'a list reader" where
  "read_vec rd 0 b = Ok ([], b)"
| "read_vec rd (Suc n) b =
     obind (rd b) (\<lambda>(t, b). obind (read_vec rd n b) (\<lambda>(v, b). Ok (t # v, b)))"

text \<open>\<^verbatim>\<open>read_mut_slice\<close> overwrites the elements of a slice one after the other.\<close>

fun fill_slice :: "'a reader \<Rightarrow> 'a list \<Rightarrow> nat \<Rightarrow> nat \<Rightarrow> 'a list reader" where
  "fill_slice rd v i 0 b = Ok (v, b)"
| "fill_slice rd v i (Suc n) b =
     obind (rd b) (\<lambda>(t, b). obind (vec_set v i t) (\<lambda>v. fill_slice rd v (Suc i) n b))"

definition read_mut_slice :: "'a reader \<Rightarrow> 'a list \<Rightarrow> 'a list reader" where
  "read_mut_slice rd v b = fill_slice rd v 0 (length v) b"

text \<open>\<^verbatim>\<open>read_from_raw\<close> reads one value and insists on the end of the buffer.\<close>

datatype raw_error = InvalidData read_error | EndOfData read_error

definition read_from_raw :: "'a reader \<Rightarrow> bytes \<Rightarrow> ('a, raw_error) outcome" where
  "read_from_raw rd raw =
     (let rbuf = read_buf_from raw
      in case rd rbuf of
           Err e \<Rightarrow> Err (InvalidData e)
         | Panic \<Rightarrow> Panic
         | Ok (h, rbuf) \<Rightarrow>
             (case expect_end rbuf of Err e \<Rightarrow> Err (EndOfData e) | Ok _ \<Rightarrow> Ok h | Panic \<Rightarrow> Panic))"

section \<open>What is left to read\<close>

named_theorems read_simps \<open>evaluation of readers on a buffer that holds the expected bytes\<close>

definition buf_ok :: "read_buf \<Rightarrow> bool" where
  "buf_ok b \<longleftrightarrow> rb_offset b \<le> length (rb_data b)"

definition pending :: "read_buf \<Rightarrow> bytes" where
  "pending b = drop (rb_offset b) (rb_data b)"

definition adv :: "nat \<Rightarrow> read_buf \<Rightarrow> read_buf" where
  "adv n b = b\<lparr>rb_offset := rb_offset b + n\<rparr>"

lemma left_pending: "rb_left b = length (pending b)"
  by (simp add: rb_left_def pending_def)

lemma buf_ok_from [simp]: "buf_ok (read_buf_from bs)" "pending (read_buf_from bs) = bs"
  by (simp_all add: buf_ok_def pending_def read_buf_from_def)

lemma adv_0 [simp]: "adv 0 b = b"
  by (simp add: adv_def)

lemma adv_adv [simp]: "adv m (adv n b) = adv (n + m) b"
  by (simp add: adv_def add.assoc)

lemma pending_adv [simp]: "pending (adv n b) = drop n (pending b)"
  by (simp add: pending_def adv_def add.commute)

lemma buf_ok_adv: "buf_ok b \<Longrightarrow> n \<le> length (pending b) \<Longrightarrow> buf_ok (adv n b)"
  by (auto simp: buf_ok_def adv_def pending_def)

lemma get_slice_eq:
  "get_slice n b =
     (if n \<le> length (pending b) then Ok (take n (pending b), adv n b)
      else Err (NotEnoughBytes (length (pending b)) n))"
  by (simp add: get_slice_def assure_size_def left_pending pending_def adv_def Let_def)

lemma get_u8_eq:
  "get_u8 b =
     (case pending b of [] \<Rightarrow> Err (NotEnoughBytes 0 1) | v # _ \<Rightarrow> Ok (v, adv 1 b))"
proof (cases "pending b")
  case Nil
  then show ?thesis by (simp add: get_u8_def assure_size_def left_pending)
next
  case (Cons v vs)
  then have "rb_offset b < length (rb_data b)" "rb_data b ! rb_offset b = v"
    by (auto simp: pending_def intro: nth_via_drop) (metis drop_all linorder_not_less list.distinct(1))
  with Cons show ?thesis
    by (simp add: get_u8_def assure_size_def left_pending vec_get_def adv_def)
qed

text \<open>A buffer of which a part is read: readers evaluate on it by rewriting.\<close>

definition buf :: "bytes \<Rightarrow> bytes \<Rightarrow> read_buf" where
  "buf pre rest = \<lparr> rb_offset = length pre, rb_data = pre @ rest \<rparr>"

lemma pending_buf [simp]: "pending (buf pre rest) = rest"
  by (simp add: pending_def buf_def)

lemma adv_buf: "adv (length xs) (buf pre (xs @ rest)) = buf (pre @ xs) rest"
  by (simp add: adv_def buf_def)

lemma read_buf_from_buf: "read_buf_from xs = buf [] xs"
  by (simp add: read_buf_from_def buf_def)

lemma pending_nonemptyE:
  assumes "pending b = xs" and "xs \<noteq> []"
  obtains pre where "b = buf pre xs"
proof
  show "b = buf (take (rb_offset b) (rb_data b)) xs"
    using assms by (cases b) (auto simp: pending_def buf_def)
qed

section \<open>Codecs\<close>

locale codec =
  fixes valid :: "'a \<Rightarrow> bool" and ser :: "'a \<Rightarrow> bytes" and rd :: "'a reader"
  assumes read_ser:
    "valid x \<Longrightarrow> pending b = ser x @ rest \<Longrightarrow> rd b = Ok (x, adv (length (ser x)) b)"
begin

lemma read_buf: "valid x \<Longrightarrow> rd (buf pre (ser x @ rest)) = Ok (x, buf (pre @ ser x) rest)"
  using read_ser [of x "buf pre (ser x @ rest)" rest] by (simp add: adv_buf)

lemma read_from_raw_ser: "valid x \<Longrightarrow> read_from_raw rd (ser x) = Ok x"
  using read_ser [of x "read_buf_from (ser x)" "[]"]
  by (simp add: read_from_raw_def Let_def expect_end_def left_pending)

lemma read_from_raw_trailing:
  "valid x \<Longrightarrow> rest \<noteq> [] \<Longrightarrow>
   read_from_raw rd (ser x @ rest) = Err (EndOfData (UnconsumedData (length rest)))"
  using read_ser [of x "read_buf_from (ser x @ rest)" rest]
  by (simp add: read_from_raw_def Let_def expect_end_def left_pending)

lemma ser_prefix_free:
  assumes "valid x" and "valid y" and "ser x @ xs = ser y @ ys"
  shows "x = y \<and> xs = ys"
proof -
  let ?b = "read_buf_from (ser x @ xs)"
  have "rd ?b = Ok (x, adv (length (ser x)) ?b)" "rd ?b = Ok (y, adv (length (ser y)) ?b)"
    using read_ser [of x ?b xs] read_ser [of y ?b ys] assms by simp_all
  then show ?thesis using assms(3) by simp
qed

lemma read_vec_ser:
  "(\<forall>x \<in> set xs. valid x) \<Longrightarrow> pending b = concat (map ser xs) @ rest \<Longrightarrow>
   read_vec rd (length xs) b = Ok (xs, adv (length (concat (map ser xs))) b)"
proof (induction xs arbitrary: b)
  case (Cons x xs)
  from Cons.prems have rd: "rd b = Ok (x, adv (length (ser x)) b)"
    using read_ser [of x b "concat (map ser xs) @ rest"] by simp
  have "read_vec rd (length xs) (adv (length (ser x)) b) =
      Ok (xs, adv (length (concat (map ser xs))) (adv (length (ser x)) b))"
    using Cons.prems by (intro Cons.IH) auto
  with rd show ?case by simp
qed simp

lemma read_vec_buf:
  "(\<forall>x \<in> set xs. valid x) \<Longrightarrow>
   read_vec rd (length xs) (buf pre (concat (map ser xs) @ rest)) =
     Ok (xs, buf (pre @ concat (map ser xs)) rest)"
  using read_vec_ser [of xs "buf pre (concat (map ser xs) @ rest)" rest] by (simp add: adv_buf)

end

lemma codecI:
  assumes rd: "\<And>x pre rest. valid x \<Longrightarrow> rd (buf pre (ser x @ rest)) = Ok (x, buf (pre @ ser x) rest)"
    and ne: "\<And>x. valid x \<Longrightarrow> ser x \<noteq> []"
  shows "codec valid ser rd"
proof
  fix x b rest
  assume x: "valid x" and b: "pending b = ser x @ rest"
  then obtain pre where "b = buf pre (ser x @ rest)" using ne [OF x] by (auto elim: pending_nonemptyE)
  then show "rd b = Ok (x, adv (length (ser x)) b)" using rd [OF x] by (simp add: adv_buf)
qed

text \<open>Filling a slice reads as many values as it has elements.\<close>

lemma fill_slice_eq:
  "length v = i + n \<Longrightarrow>
   fill_slice rd v i n b = obind (read_vec rd n b) (\<lambda>(ts, b). Ok (take i v @ ts, b))"
proof (induction n arbitrary: i v b)
  case (Suc n)
  show ?case
  proof (cases "rd b")
    case (Ok r)
    obtain t c where r: "r = (t, c)" by force
    have "take (Suc i) (v[i := t]) = take i v @ [t]"
      using Suc.prems by (simp add: take_Suc_conv_app_nth)
    with Ok r Suc.IH [of "v[i := t]" "Suc i" c] Suc.prems show ?thesis
      by (cases "read_vec rd n c") (auto simp: vec_set_def)
  qed simp_all
qed simp

lemma read_mut_slice_eq: "read_mut_slice rd v b = read_vec rd (length v) b"
  by (simp add: read_mut_slice_def fill_slice_eq)

lemma get_word_ser:
  assumes "8 dvd LENGTH('a::len)" and "pending b = to_be_bytes (x :: 'a word) @ rest"
    and "n = LENGTH('a) div 8"
  shows "obind (get_slice n b) (\<lambda>(buf, b). Ok (from_be_bytes buf, b)) =
           Ok (x, adv (length (to_be_bytes x)) b)"
  using assms by (simp add: get_slice_eq length_to_be_bytes from_to_be_bytes)

interpretation u8_codec: codec "\<lambda>_. True" "\<lambda>x. [x]" get_u8
  by unfold_locales (simp add: get_u8_eq)

interpretation u16_codec: codec "\<lambda>_. True" to_be_bytes get_u16
  by unfold_locales (simp only: get_u16_def, rule get_word_ser, auto)

interpretation u32_codec: codec "\<lambda>_. True" to_be_bytes get_u32
  by unfold_locales (simp only: get_u32_def, rule get_word_ser, auto)

interpretation u64_codec: codec "\<lambda>_. True" to_be_bytes get_u64
  by unfold_locales (simp only: get_u64_def, rule get_word_ser, auto)

interpretation u128_codec: codec "\<lambda>_. True" to_be_bytes get_u128
  by unfold_locales (simp only: get_u128_def, rule get_word_ser, auto)

interpretation array_codec: codec "\<lambda>x. length x = n" "\<lambda>x. x" "read_array n" for n
  by unfold_locales (auto simp: read_array_def get_slice_eq)

lemma get_u8_buf [read_simps]: "get_u8 (buf pre (v # rest)) = Ok (v, buf (pre @ [v]) rest)"
  using u8_codec.read_buf [OF TrueI, where x = v and pre = pre and rest = rest] by simp

lemma get_slice_buf [read_simps]:
  "length xs = n \<Longrightarrow> get_slice n (buf pre (xs @ rest)) = Ok (xs, buf (pre @ xs) rest)"
  using adv_buf [of xs pre rest] by (auto simp: get_slice_eq)

lemmas array_read_buf [read_simps] = array_codec.read_buf

lemmas word_read_buf [read_simps] =
  u16_codec.read_buf [OF TrueI] u32_codec.read_buf [OF TrueI] u64_codec.read_buf [OF TrueI]
  u128_codec.read_buf [OF TrueI]

end
