(* ===== verification/Packer.thy ===== *)
theory Packer
  imports Prelude
begin

text \<open>
  Streams: \<^verbatim>\<open>chain-core/src/packer.rs\<close>. Reading takes bytes off the front of a stream and fails when they run
  out; writing appends to memory. A \<open>buffered\<close> writer leaves holes in its buffer that are filled in later.
\<close>

section \<open>Reading from a stream\<close>

datatype io_error = UnexpectedEof | IoInvalidData | IoInvalidInput

type_synonym 'a stream_reader = "bytes \<Rightarrow> ('a \<times> bytes, io_error) outcome"

text \<open>\<^verbatim>\<open>read_exact\<close> of the standard library, on a stream that is a sequence of bytes.\<close>

definition read_exact :: "nat \<Rightarrow> bytes stream_reader" where
  "read_exact n s = (if n \<le> length s then Ok (take n s, drop n s) else Err UnexpectedEof)"

definition codec_get_u8 :: "u8 stream_reader" where
  "codec_get_u8 s = obind (read_exact 1 s) (\<lambda>(buf, s). obind (vec_get buf 0) (\<lambda>v. Ok (v, s)))"

definition codec_get_u16 :: "u16 stream_reader" where
  "codec_get_u16 s = obind (read_exact 2 s) (\<lambda>(buf, s). Ok (from_be_bytes buf, s))"

definition codec_get_u32 :: "u32 stream_reader" where
  "codec_get_u32 s = obind (read_exact 4 s) (\<lambda>(buf, s). Ok (from_be_bytes buf, s))"

definition codec_get_u64 :: "u64 stream_reader" where
  "codec_get_u64 s = obind (read_exact 8 s) (\<lambda>(buf, s). Ok (from_be_bytes buf, s))"

definition codec_get_u128 :: "u128 stream_reader" where
  "codec_get_u128 s = obind (read_exact 16 s) (\<lambda>(buf, s). Ok (from_be_bytes buf, s))"

definition codec_get_bytes :: "nat \<Rightarrow> bytes stream_reader" where
  "codec_get_bytes n s = read_exact n s"

section \<open>Writing to memory\<close>

definition codec_put_u8 :: "bytes \<Rightarrow> u8 \<Rightarrow> bytes" where
  "codec_put_u8 w v = w @ [v]"

definition codec_put_u16 :: "bytes \<Rightarrow> u16 \<Rightarrow> bytes" where
  "codec_put_u16 w v = w @ to_be_bytes v"

definition codec_put_u32 :: "bytes \<Rightarrow> u32 \<Rightarrow> bytes" where
  "codec_put_u32 w v = w @ to_be_bytes v"

definition codec_put_u64 :: "bytes \<Rightarrow> u64 \<Rightarrow> bytes" where
  "codec_put_u64 w v = w @ to_be_bytes v"

definition codec_put_u128 :: "bytes \<Rightarrow> u128 \<Rightarrow> bytes" where
  "codec_put_u128 w v = w @ to_be_bytes v"

text \<open>\<^verbatim>\<open>write_all\<close> of the standard library on a writer in memory.\<close>

definition write_all :: "bytes \<Rightarrow> bytes \<Rightarrow> bytes" where
  "write_all w bs = w @ bs"

lemmas codec_put_defs = codec_put_u8_def codec_put_u16_def codec_put_u32_def codec_put_u64_def
  codec_put_u128_def write_all_def

section \<open>Buffered writing with holes\<close>

record buffered =
  bw_inner :: bytes
  bw_buffer :: bytes

datatype hole = Hole (hole_start: nat) (hole_end: nat)

definition codec_buffered :: "bytes \<Rightarrow> buffered" where
  "codec_buffered w = \<lparr> bw_inner = w, bw_buffer = [] \<rparr>"

definition buffered_write :: "buffered \<Rightarrow> bytes \<Rightarrow> buffered" where
  "buffered_write b bs = b\<lparr>bw_buffer := bw_buffer b @ bs\<rparr>"

definition buffered_hole :: "buffered \<Rightarrow> nat \<Rightarrow> hole \<times> buffered" where
  "buffered_hole b len =
     (let start = length (bw_buffer b); end' = start + len; buf = replicate len 0
      in (Hole start end', buffered_write b buf))"

definition buffered_into_inner :: "buffered \<Rightarrow> bytes" where
  "buffered_into_inner b = write_all (bw_inner b) (bw_buffer b)"

text \<open>
  \<^verbatim>\<open>copy_from_slice\<close> into the range of the hole: it panics when the range is not inside the buffer or
  when the lengths differ.
\<close>

definition copy_into :: "bytes \<Rightarrow> nat \<Rightarrow> nat \<Rightarrow> bytes \<Rightarrow> (bytes, 'e) outcome" where
  "copy_into v s t src =
     assert_then (s \<le> t \<and> t \<le> length v \<and> t - s = length src) (Ok (take s v @ src @ drop t v))"

definition fill_hole_u8 :: "buffered \<Rightarrow> hole \<Rightarrow> u8 \<Rightarrow> (buffered, 'e) outcome" where
  "fill_hole_u8 b h v =
     obind (copy_into (bw_buffer b) (hole_start h) (hole_end h) [v]) (\<lambda>buf. Ok (b\<lparr>bw_buffer := buf\<rparr>))"

definition fill_hole_u16 :: "buffered \<Rightarrow> hole \<Rightarrow> u16 \<Rightarrow> (buffered, 'e) outcome" where
  "fill_hole_u16 b h v =
     obind (copy_into (bw_buffer b) (hole_start h) (hole_end h) (to_be_bytes v))
       (\<lambda>buf. Ok (b\<lparr>bw_buffer := buf\<rparr>))"

definition fill_hole_u32 :: "buffered \<Rightarrow> hole \<Rightarrow> u32 \<Rightarrow> (buffered, 'e) outcome" where
  "fill_hole_u32 b h v =
     obind (copy_into (bw_buffer b) (hole_start h) (hole_end h) (to_be_bytes v))
       (\<lambda>buf. Ok (b\<lparr>bw_buffer := buf\<rparr>))"

definition fill_hole_u64 :: "buffered \<Rightarrow> hole \<Rightarrow> u64 \<Rightarrow> (buffered, 'e) outcome" where
  "fill_hole_u64 b h v =
     obind (copy_into (bw_buffer b) (hole_start h) (hole_end h) (to_be_bytes v))
       (\<lambda>buf. Ok (b\<lparr>bw_buffer := buf\<rparr>))"

definition fill_hole_u128 :: "buffered \<Rightarrow> hole \<Rightarrow> u128 \<Rightarrow> (buffered, 'e) outcome" where
  "fill_hole_u128 b h v =
     obind (copy_into (bw_buffer b) (hole_start h) (hole_end h) (to_be_bytes v))
       (\<lambda>buf. Ok (b\<lparr>bw_buffer := buf\<rparr>))"

definition buffered_len :: "buffered \<Rightarrow> nat" where
  "buffered_len b = length (bw_buffer b)"

lemma copy_into_hole:
  "copy_into (xs @ replicate n 0 @ ys) (length xs) (length xs + n) src =
     (if length src = n then Ok (xs @ src @ ys) else Panic)"
  by (simp add: copy_into_def assert_then_def)

section \<open>Streams as codecs\<close>

locale stream_codec =
  fixes valid :: "'a \<Rightarrow> bool" and ser :: "'a \<Rightarrow> bytes" and rd :: "'a stream_reader"
  assumes stream_read_ser: "valid x \<Longrightarrow> rd (ser x @ rest) = Ok (x, rest)"
begin

lemma stream_prefix_free:
  assumes "valid x" and "valid y" and "ser x @ xs = ser y @ ys"
  shows "x = y \<and> xs = ys"
proof -
  have "rd (ser y @ ys) = Ok (x, xs)" using stream_read_ser [OF assms(1), of xs] unfolding assms(3) .
  with stream_read_ser [OF assms(2), of ys] show ?thesis by simp
qed

end

lemma read_exact_app [simp]: "length xs = n \<Longrightarrow> read_exact n (xs @ ys) = Ok (xs, ys)"
  by (simp add: read_exact_def)

interpretation stream_u8: stream_codec "\<lambda>_. True" "\<lambda>x. [x]" codec_get_u8
proof
  fix x :: u8 and rest
  have "read_exact 1 ([x] @ rest) = Ok ([x], rest)" by (rule read_exact_app) simp
  then show "codec_get_u8 ([x] @ rest) = Ok (x, rest)"
    by (simp add: codec_get_u8_def vec_get_def)
qed

interpretation stream_u16: stream_codec "\<lambda>_. True" to_be_bytes codec_get_u16
  by unfold_locales (simp add: codec_get_u16_def from_to_be_bytes)

interpretation stream_u32: stream_codec "\<lambda>_. True" to_be_bytes codec_get_u32
  by unfold_locales (simp add: codec_get_u32_def from_to_be_bytes)

interpretation stream_u64: stream_codec "\<lambda>_. True" to_be_bytes codec_get_u64
  by unfold_locales (simp add: codec_get_u64_def from_to_be_bytes)

interpretation stream_u128: stream_codec "\<lambda>_. True" to_be_bytes codec_get_u128
  by unfold_locales (simp add: codec_get_u128_def from_to_be_bytes)

interpretation stream_bytes: stream_codec "\<lambda>x. length x = n" "\<lambda>x. x" "codec_get_bytes n" for n
  by unfold_locales (simp add: codec_get_bytes_def)

section \<open>Properties\<close>

text \<open>
  A hole of the width of the integer, filled after more data was written behind it, holds the big-endian
  integer and changes nothing else; filling does not panic.
\<close>

theorem fill_hole_correct:
  "\<exists>b2. (let (h, b1) = buffered_hole b 4; b' = buffered_write b1 ys in fill_hole_u32 b' h v) =
     (Ok b2 :: (buffered, 'e) outcome) \<and>
     buffered_into_inner b2 = bw_inner b @ bw_buffer b @ to_be_bytes v @ ys \<and>
     buffered_len b2 = buffered_len b + 4 + length ys"
  by (intro exI [of _ "b\<lparr>bw_buffer := bw_buffer b @ to_be_bytes v @ ys\<rparr>"])
    (simp add: buffered_hole_def buffered_write_def fill_hole_u32_def Let_def buffered_into_inner_def
      buffered_len_def codec_put_defs copy_into_hole)

end
