(* ===== verification/Key.thy ===== *)
theory Key
  imports Mempack Packer
begin

text \<open>
  Hashes, keys and signatures: \<^verbatim>\<open>chain-impl-mockchain/src/key.rs\<close> over the wrappers of \<^verbatim>\<open>chain-crypto\<close>. A
  public key of Ed25519 is 32 bytes, an extended public key and a signature are 64 bytes; they are words of
  that width, whose order is the byte order of the source. The algorithms are not part of the
  sources: the hash function and the signature verifications are the fields of the record \<open>crypto\<close>,
  a parameter of everything that uses them.
\<close>

datatype verification = Failed | Success

definition verification_from :: "bool \<Rightarrow> verification" where
  "verification_from b = (if b then Success else Failed)"

type_synonym pubkey = "256 word"
type_synonym xpub = "512 word"
type_synonym signature = "512 word"

datatype hash = Hash (hash_word: "256 word")

record crypto =
  blake2b256 :: "bytes \<Rightarrow> 256 word"
  ed25519_verify :: "pubkey \<Rightarrow> signature \<Rightarrow> bytes \<Rightarrow> bool"
  bip32_verify :: "xpub \<Rightarrow> signature \<Rightarrow> bytes \<Rightarrow> bool"
  ed25519_public :: "512 word \<Rightarrow> pubkey"
  ed25519_sign :: "512 word \<Rightarrow> bytes \<Rightarrow> signature"
  mmm_public :: "256 word \<Rightarrow> pubkey"
  mmm_sign :: "256 word \<Rightarrow> bytes \<Rightarrow> signature"

section \<open>Hashes\<close>

definition hash_bytes :: "crypto \<Rightarrow> bytes \<Rightarrow> hash" where
  "hash_bytes cr bs = Hash (blake2b256 cr bs)"

definition hash_as_ref :: "hash \<Rightarrow> bytes" where
  "hash_as_ref h = to_be_bytes (hash_word h)"

definition hash_zero :: hash where
  "hash_zero = Hash 0"

definition hash_serialize :: "hash \<Rightarrow> bytes" where
  "hash_serialize h = write_all [] (hash_as_ref h)"

definition hash_deserialize :: "hash stream_reader" where
  "hash_deserialize s = obind (read_exact 32 s) (\<lambda>(buffer, s). Ok (Hash (from_be_bytes buffer), s))"

definition hash_read :: "hash reader" where
  "hash_read b = obind (read_array 32 b) (\<lambda>(bytes, b). Ok (Hash (from_be_bytes bytes), b))"

section \<open>Public keys and signatures\<close>

datatype public_key_error = PublicKeySizeInvalid | PublicKeyStructureInvalid

datatype signature_error = SignatureSizeInvalid | SignatureStructureInvalid

fun chain_crypto_pub_err :: "public_key_error \<Rightarrow> read_error" where
  "chain_crypto_pub_err PublicKeySizeInvalid = StructureInvalid ''publickey size invalid''"
| "chain_crypto_pub_err PublicKeyStructureInvalid = StructureInvalid ''publickey structure invalid''"

fun chain_crypto_sig_err :: "signature_error \<Rightarrow> read_error" where
  "chain_crypto_sig_err SignatureSizeInvalid = StructureInvalid ''signature size invalid''"
| "chain_crypto_sig_err SignatureStructureInvalid = StructureInvalid ''signature structure invalid''"

definition public_from_binary :: "bytes \<Rightarrow> (pubkey, public_key_error) outcome" where
  "public_from_binary data =
     (if length data \<noteq> 32 then Err PublicKeySizeInvalid else Ok (from_be_bytes data))"

definition xpub_from_binary :: "bytes \<Rightarrow> (xpub, public_key_error) outcome" where
  "xpub_from_binary data =
     (if length data \<noteq> 64 then Err PublicKeySizeInvalid else Ok (from_be_bytes data))"

definition signature_from_bytes :: "bytes \<Rightarrow> (signature, signature_error) outcome" where
  "signature_from_bytes data =
     (if length data \<noteq> 64 then Err SignatureSizeInvalid else Ok (from_be_bytes data))"

definition serialize_public_key :: "'a::len word \<Rightarrow> bytes \<Rightarrow> bytes" where
  "serialize_public_key key w = write_all w (to_be_bytes key)"

definition serialize_signature :: "signature \<Rightarrow> bytes \<Rightarrow> bytes" where
  "serialize_signature sig w = write_all w (to_be_bytes sig)"

text \<open>\<^verbatim>\<open>deserialize_public_key\<close> for a key type with its size and its \<^verbatim>\<open>from_binary\<close>.\<close>

definition deserialize_public_key ::
  "nat \<Rightarrow> (bytes \<Rightarrow> ('k, public_key_error) outcome) \<Rightarrow> 'k reader" where
  "deserialize_public_key size' from_binary b =
     obind (read_mut_slice get_u8 (replicate size' 0) b)
       (\<lambda>(bytes, b). obind (map_err chain_crypto_pub_err (from_binary bytes)) (\<lambda>k. Ok (k, b)))"

definition deserialize_signature :: "signature reader" where
  "deserialize_signature b =
     obind (read_mut_slice get_u8 (replicate 64 0) b)
       (\<lambda>(bytes, b). obind (map_err chain_crypto_sig_err (signature_from_bytes bytes)) (\<lambda>s. Ok (s, b)))"

section \<open>Signing and verifying\<close>

text \<open>
  The functions that sign or verify a serializable value; the value is given by the outcome of its serializer, which is
  unwrapped. Secret keys are 64 bytes for the extended Ed25519 algorithm and 32 for the key evolving one.
\<close>

type_synonym spending_secret_key = "512 word"
type_synonym kes_secret_key = "256 word"

definition make_signature :: "crypto \<Rightarrow> spending_secret_key \<Rightarrow> (bytes, 'd) outcome \<Rightarrow> (signature, 'e) outcome" where
  "make_signature cr sk data = obind (unwrap data) (\<lambda>bytes. Ok (ed25519_sign cr sk bytes))"

definition make_signature_update :: "crypto \<Rightarrow> kes_secret_key \<Rightarrow> (bytes, 'd) outcome \<Rightarrow> (signature, 'e) outcome" where
  "make_signature_update cr sk data = obind (unwrap data) (\<lambda>bytes. Ok (mmm_sign cr sk bytes))"

definition verify_signature ::
  "crypto \<Rightarrow> signature \<Rightarrow> pubkey \<Rightarrow> (bytes, 'd) outcome \<Rightarrow> (verification, 'e) outcome" where
  "verify_signature cr sig pk data =
     obind (unwrap data) (\<lambda>bytes. Ok (verification_from (ed25519_verify cr pk sig bytes)))"

definition verify_multi_signature ::
  "crypto \<Rightarrow> signature \<Rightarrow> pubkey list \<Rightarrow> (bytes, 'd) outcome \<Rightarrow> (verification, 'e) outcome" where
  "verify_multi_signature cr sig pks data =
     assert_then (length pks > 0)
       (obind (unwrap data) (\<lambda>bytes.
         obind (vec_get pks 0) (\<lambda>pk. Ok (verification_from (ed25519_verify cr pk sig bytes)))))"

record 'a signed =
  signed_data :: 'a
  signed_sig :: signature

definition signed_new ::
  "crypto \<Rightarrow> ('a \<Rightarrow> (bytes, 'd) outcome) \<Rightarrow> spending_secret_key \<Rightarrow> 'a \<Rightarrow> ('a signed, 'e) outcome" where
  "signed_new cr ser sk data =
     obind (unwrap (ser data)) (\<lambda>bytes.
       Ok \<lparr> signed_data = data, signed_sig = ed25519_sign cr sk bytes \<rparr>)"

definition signed_serialize :: "('a \<Rightarrow> (bytes, 'e) outcome) \<Rightarrow> 'a signed \<Rightarrow> (bytes, 'e) outcome" where
  "signed_serialize ser s = obind (ser (signed_data s)) (\<lambda>w. Ok (serialize_signature (signed_sig s) w))"

definition signed_read :: "'a reader \<Rightarrow> 'a signed reader" where
  "signed_read rd b =
     obind (rd b) (\<lambda>(data, b).
       obind (deserialize_signature b) (\<lambda>(sig, b). Ok (\<lparr> signed_data = data, signed_sig = sig \<rparr>, b)))"

section \<open>Codecs\<close>

lemma hash_length [simp]: "length (hash_as_ref h) = 32" "length (hash_serialize h) = 32"
  by (simp_all add: hash_serialize_def hash_as_ref_def write_all_def)

lemma from_to_be_256 [simp]: "from_be_bytes (to_be_bytes (w :: 256 word)) = w"
  by (rule from_to_be_bytes) simp

lemma from_to_be_512 [simp]: "from_be_bytes (to_be_bytes (w :: 512 word)) = w"
  by (rule from_to_be_bytes) simp

interpretation hash_codec: codec "\<lambda>_. True" hash_serialize hash_read
proof
  fix x b rest
  assume "pending b = hash_serialize x @ rest"
  then have "read_array 32 b = Ok (hash_serialize x, adv 32 b)"
    using array_codec.read_ser [of "hash_serialize x" 32 b rest] by simp
  then show "hash_read b = Ok (x, adv (length (hash_serialize x)) b)"
    by (simp add: hash_read_def) (simp add: hash_serialize_def hash_as_ref_def write_all_def)
qed

interpretation stream_hash: stream_codec "\<lambda>_. True" hash_serialize hash_deserialize
  by unfold_locales
    (simp add: hash_deserialize_def, simp add: hash_serialize_def hash_as_ref_def write_all_def)

lemma read_u8s:
  "length xs = n \<Longrightarrow> pending b = xs @ rest \<Longrightarrow> read_vec get_u8 n b = Ok (xs, adv n b)"
  using u8_codec.read_vec_ser [of xs b rest] by (simp add: concat_map_singleton)

interpretation signature_codec: codec "\<lambda>_. True" "\<lambda>s. serialize_signature s []" deserialize_signature
proof
  fix x b rest
  assume "pending b = serialize_signature x [] @ rest"
  then have "read_mut_slice get_u8 (replicate 64 0) b = Ok (to_be_bytes x, adv 64 b)"
    using read_u8s [of "to_be_bytes x" 64 b rest]
    by (simp add: read_mut_slice_eq serialize_signature_def write_all_def)
  then show "deserialize_signature b = Ok (x, adv (length (serialize_signature x [])) b)"
    by (simp add: deserialize_signature_def signature_from_bytes_def serialize_signature_def write_all_def)
qed

interpretation pubkey_codec: codec "\<lambda>_. True" "\<lambda>k. serialize_public_key k []"
  "deserialize_public_key 32 public_from_binary"
proof
  fix x :: pubkey and b rest
  assume "pending b = serialize_public_key x [] @ rest"
  then have "read_mut_slice get_u8 (replicate 32 0) b = Ok (to_be_bytes x, adv 32 b)"
    using read_u8s [of "to_be_bytes x" 32 b rest]
    by (simp add: read_mut_slice_eq serialize_public_key_def write_all_def)
  then show "deserialize_public_key 32 public_from_binary b =
      Ok (x, adv (length (serialize_public_key x [])) b)"
    by (simp add: deserialize_public_key_def public_from_binary_def serialize_public_key_def write_all_def)
qed

interpretation xpub_codec: codec "\<lambda>_. True" "\<lambda>k. serialize_public_key k []"
  "deserialize_public_key 64 xpub_from_binary"
proof
  fix x :: xpub and b rest
  assume "pending b = serialize_public_key x [] @ rest"
  then have "read_mut_slice get_u8 (replicate 64 0) b = Ok (to_be_bytes x, adv 64 b)"
    using read_u8s [of "to_be_bytes x" 64 b rest]
    by (simp add: read_mut_slice_eq serialize_public_key_def write_all_def)
  then show "deserialize_public_key 64 xpub_from_binary b =
      Ok (x, adv (length (serialize_public_key x [])) b)"
    by (simp add: deserialize_public_key_def xpub_from_binary_def serialize_public_key_def write_all_def)
qed

lemmas key_read_buf [read_simps] =
  hash_codec.read_buf [OF TrueI] signature_codec.read_buf [OF TrueI] pubkey_codec.read_buf [OF TrueI]
  xpub_codec.read_buf [OF TrueI]

lemma length_serialize_key [simp]:
  "length (serialize_signature s w) = length w + 64"
  "length (serialize_public_key (k :: pubkey) w) = length w + 32"
  "length (serialize_public_key (x :: xpub) w) = length w + 64"
  by (simp_all add: serialize_signature_def serialize_public_key_def write_all_def)

lemma serialize_key_app:
  "w \<noteq> [] \<Longrightarrow> serialize_signature s w = w @ serialize_signature s []"
  "w \<noteq> [] \<Longrightarrow> serialize_public_key (k :: 'a::len word) w = w @ serialize_public_key k []"
  by (simp_all add: serialize_signature_def serialize_public_key_def write_all_def)

end
