(* ===== verification/Address.thy ===== *)
theory Address
  imports Key
begin

text \<open>
  Addresses: \<^verbatim>\<open>chain-addr/src/lib.rs\<close>. The first byte holds the discrimination in its high bit and the kind
  in the others; one or two public keys follow. There are three decoders: of a whole slice
  (\<open>from_bytes\<close>), from a buffer (\<open>address_read\<close>) and from a stream (\<open>address_deserialize\<close>). The human readable
  form uses the third-party bech32 package, whose functions are the fields of the record \<open>bech32\<close>.
\<close>

section \<open>Data\<close>

datatype discrimination = Production | Test

datatype kind = Single pubkey | Group pubkey pubkey | Account pubkey

datatype kind_type = KindSingle | KindGroup | KindAccount

datatype address = Address (discrimination: discrimination) (kind: kind)

datatype addr_error =
  EmptyAddress | InvalidKind | InvalidAddress | InvalidInternalEncoding | InvalidPrefix | MismatchPrefix

fun kind_type_to_value :: "kind_type \<Rightarrow> u8" where
  "kind_type_to_value KindSingle = 3"
| "kind_type_to_value KindGroup = 4"
| "kind_type_to_value KindAccount = 5"

section \<open>Bytes\<close>

definition get_kind_value :: "u8 \<Rightarrow> u8" where
  "get_kind_value first_byte = first_byte AND 0b01111111"

definition get_discrimination_value :: "u8 \<Rightarrow> discrimination" where
  "get_discrimination_value first_byte =
     (if first_byte AND 0b10000000 = 0 then Production else Test)"

definition is_valid_data :: "bytes \<Rightarrow> (discrimination \<times> kind_type, addr_error) outcome" where
  "is_valid_data bs =
     (if length bs = 0 then Err EmptyAddress
      else obind (vec_get bs 0)
        (\<lambda>b0. let kind_type = get_kind_value b0 in
          if kind_type \<le> 2 \<or> kind_type \<ge> 6 then Err InvalidKind
          else obind
            (if kind_type = 3 then (if length bs \<noteq> 33 then Err InvalidAddress else Ok KindSingle)
             else if kind_type = 4 then (if length bs \<noteq> 65 then Err InvalidAddress else Ok KindGroup)
             else if kind_type = 5 then (if length bs \<noteq> 33 then Err InvalidAddress else Ok KindAccount)
             else Err InvalidKind)
            (\<lambda>kty. Ok (get_discrimination_value b0, kty))))"

abbreviation key_or_invalid :: "bytes \<Rightarrow> (pubkey, addr_error) outcome" where
  "key_or_invalid bs \<equiv> map_err (\<lambda>_. InvalidAddress) (public_from_binary bs)"

definition from_bytes :: "bytes \<Rightarrow> (address, addr_error) outcome" where
  "from_bytes bs =
     obind (is_valid_data bs)
       (\<lambda>_. obind (vec_get bs 0)
         (\<lambda>b0. let discr = get_discrimination_value b0 in
           obind
             (let k = get_kind_value b0 in
              if k = 3 then
                obind (key_or_invalid (drop 1 bs)) (\<lambda>spending. Ok (Single spending))
              else if k = 4 then
                obind (key_or_invalid (drop 1 (take 33 bs)))
                  (\<lambda>spending. obind (key_or_invalid (drop 33 bs)) (\<lambda>grp. Ok (Group spending grp)))
              else if k = 5 then
                obind (key_or_invalid (drop 1 bs)) (\<lambda>stake_key. Ok (Account stake_key))
              else Panic)
             (\<lambda>kind. Ok (Address discr kind))))"

fun to_size :: "address \<Rightarrow> nat" where
  "to_size (Address _ (Single _)) = 33"
| "to_size (Address _ (Group _ _)) = 65"
| "to_size (Address _ (Account _)) = 33"

fun to_kind_type :: "address \<Rightarrow> kind_type" where
  "to_kind_type (Address _ (Single _)) = KindSingle"
| "to_kind_type (Address _ (Group _ _)) = KindGroup"
| "to_kind_type (Address _ (Account _)) = KindAccount"

definition to_kind_value :: "address \<Rightarrow> u8" where
  "to_kind_value a = kind_type_to_value (to_kind_type a)"

fun address_public_key :: "address \<Rightarrow> pubkey option" where
  "address_public_key (Address _ (Single pk)) = Some pk"
| "address_public_key (Address _ (Group pk _)) = Some pk"
| "address_public_key (Address _ (Account pk)) = Some pk"

definition address_serialize :: "address \<Rightarrow> bytes" where
  "address_serialize a =
     (let first_byte =
        (case discrimination a of
           Production \<Rightarrow> to_kind_value a
         | Test \<Rightarrow> to_kind_value a OR 0b10000000);
        w = codec_put_u8 [] first_byte
      in case kind a of
           Single spend \<Rightarrow> write_all w (to_be_bytes spend)
         | Group spend grp \<Rightarrow> write_all (write_all w (to_be_bytes spend)) (to_be_bytes grp)
         | Account stake_key \<Rightarrow> write_all w (to_be_bytes stake_key))"

definition address_to_bytes :: "address \<Rightarrow> bytes" where
  "address_to_bytes a = address_serialize a"

abbreviation stream_key :: "bytes \<Rightarrow> (pubkey, io_error) outcome" where
  "stream_key bs \<equiv> map_err (\<lambda>_. IoInvalidData) (public_from_binary bs)"

definition address_deserialize :: "address stream_reader" where
  "address_deserialize s =
     obind (codec_get_u8 s)
       (\<lambda>(byte, s).
         let discr = get_discrimination_value byte; k = get_kind_value byte in
         if k = 3 then
           obind (read_exact 32 s) (\<lambda>(bytes, s).
             obind (stream_key bytes) (\<lambda>spending. Ok (Address discr (Single spending), s)))
         else if k = 4 then
           obind (read_exact 32 s) (\<lambda>(bytes, s).
             obind (stream_key bytes) (\<lambda>spending.
               obind (read_exact 32 s) (\<lambda>(bytes, s).
                 obind (stream_key bytes) (\<lambda>grp. Ok (Address discr (Group spending grp), s)))))
         else if k = 5 then
           obind (read_exact 32 s) (\<lambda>(bytes, s).
             obind (stream_key bytes) (\<lambda>stake_key. Ok (Address discr (Account stake_key), s)))
         else Panic)"

abbreviation buf_key :: "bytes \<Rightarrow> (pubkey, read_error) outcome" where
  "buf_key bs \<equiv> map_err chain_crypto_pub_err (public_from_binary bs)"

definition address_read :: "address reader" where
  "address_read b =
     obind (get_u8 b)
       (\<lambda>(byte, b).
         let discr = get_discrimination_value byte; n = get_kind_value byte in
         if n = 3 then
           obind (read_array 32 b) (\<lambda>(bytes, b).
             obind (buf_key bytes) (\<lambda>spending. Ok (Address discr (Single spending), b)))
         else if n = 4 then
           obind (read_array 32 b) (\<lambda>(bytes, b).
             obind (buf_key bytes) (\<lambda>spending.
               obind (read_array 32 b) (\<lambda>(bytes, b).
                 obind (buf_key bytes) (\<lambda>grp. Ok (Address discr (Group spending grp), b)))))
         else if n = 5 then
           obind (read_array 32 b) (\<lambda>(bytes, b).
             obind (buf_key bytes) (\<lambda>stake_key. Ok (Address discr (Account stake_key), b)))
         else Err (UnknownTag (ucast n)))"

section \<open>Human readable addresses\<close>

text \<open>
  The bech32 package: parsing a string into its prefix and data, printing, and the conversions between bytes
  and five-bit groups. The two prefixes are chosen at build time.
\<close>

record 'd bech32 =
  bech32_from_str :: "string \<Rightarrow> (string \<times> 'd) option"
  bech32_to_string :: "string \<Rightarrow> 'd \<Rightarrow> string option"
  to_base32 :: "bytes \<Rightarrow> 'd"
  from_base32 :: "'d \<Rightarrow> bytes option"
  production_prefix :: string
  test_prefix :: string

datatype address_readable = AddressReadable (as_string: string)

definition readable_from_string :: "'d bech32 \<Rightarrow> string \<Rightarrow> (address_readable, addr_error) outcome" where
  "readable_from_string env s =
     obind (ok_or InvalidInternalEncoding (bech32_from_str env s))
       (\<lambda>(hrp, dat').
         obind (if hrp = production_prefix env then Ok Production
                else if hrp = test_prefix env then Ok Test else Err InvalidPrefix)
           (\<lambda>expected. obind (ok_or InvalidInternalEncoding (from_base32 env dat'))
             (\<lambda>dat. obind (is_valid_data dat)
               (\<lambda>(discr, _). if discr \<noteq> expected then Err MismatchPrefix
                  else Ok (AddressReadable s)))))"

definition readable_from_address :: "'d bech32 \<Rightarrow> address \<Rightarrow> (address_readable, 'e) outcome" where
  "readable_from_address env a =
     (let v = to_base32 env (address_to_bytes a);
          prefix = (case discrimination a of
                      Production \<Rightarrow> production_prefix env | Test \<Rightarrow> test_prefix env)
      in obind (unwrap_opt (bech32_to_string env prefix v)) (\<lambda>r. Ok (AddressReadable r)))"

definition readable_to_address :: "'d bech32 \<Rightarrow> address_readable \<Rightarrow> (address, 'e) outcome" where
  "readable_to_address env r =
     obind (unwrap_opt (bech32_from_str env (as_string r)))
       (\<lambda>(_, dat'). obind (unwrap_opt (from_base32 env dat')) (\<lambda>dat. unwrap (from_bytes dat)))"

fun discrimination_to_string :: "discrimination \<Rightarrow> string" where
  "discrimination_to_string Production = ''production''"
| "discrimination_to_string Test = ''test''"

definition discrimination_from_str :: "string \<Rightarrow> (discrimination, string) outcome" where
  "discrimination_from_str s =
     (if s = ''production'' then Ok Production
      else if s = ''test'' then Ok Test
      else Err s)"

section \<open>Decoding what was encoded\<close>

lemma kind_bytes:
  "get_kind_value (kind_type_to_value t) = kind_type_to_value t"
  "get_kind_value (kind_type_to_value t OR 0b10000000) = kind_type_to_value t"
  "get_discrimination_value (kind_type_to_value t) = Production"
  "get_discrimination_value (kind_type_to_value t OR 0b10000000) = Test"
  by (cases t; simp add: get_kind_value_def get_discrimination_value_def)+

definition first_byte :: "address \<Rightarrow> u8" where
  "first_byte a =
     (case discrimination a of
        Production \<Rightarrow> to_kind_value a
      | Test \<Rightarrow> to_kind_value a OR 0b10000000)"

lemma first_byte_decode [simp]:
  "get_kind_value (first_byte a) = to_kind_value a"
  "get_discrimination_value (first_byte a) = discrimination a"
  by (cases "discrimination a"; simp add: first_byte_def to_kind_value_def kind_bytes)+

lemma address_serialize_eq:
  "address_serialize a = first_byte a #
     (case kind a of
        Single k \<Rightarrow> to_be_bytes k
      | Group k g \<Rightarrow> to_be_bytes k @ to_be_bytes g
      | Account k \<Rightarrow> to_be_bytes k)"
  by (simp add: address_serialize_def Let_def codec_put_defs first_byte_def split: kind.split)

lemma length_address_serialize: "length (address_serialize a) = to_size a"
  by (cases a rule: to_size.cases) (simp_all add: address_serialize_eq)

lemma public_from_binary_32 [simp]: "public_from_binary (to_be_bytes (k :: pubkey)) = Ok k"
  by (simp add: public_from_binary_def)

lemma is_valid_data_serialize:
  "is_valid_data (address_serialize a) = Ok (discrimination a, to_kind_type a)"
  using length_address_serialize [of a]
  by (cases a rule: to_size.cases)
    (simp_all add: is_valid_data_def address_serialize_eq vec_get_def Let_def to_kind_value_def)

lemma from_bytes_serialize: "from_bytes (address_serialize a) = Ok a"
  by (cases a rule: to_size.cases)
    (simp_all add: from_bytes_def is_valid_data_serialize,
     simp_all add: address_serialize_eq vec_get_def Let_def to_kind_value_def)

lemma read_key:
  "pending b = to_be_bytes (k :: pubkey) @ rest \<Longrightarrow> read_array 32 b = Ok (to_be_bytes k, adv 32 b)"
  using array_codec.read_ser [of "to_be_bytes k" 32 b rest] by simp

interpretation address_codec: codec "\<lambda>_. True" address_serialize address_read
proof
  fix a b rest
  assume p: "pending b = address_serialize a @ rest"
  then have g: "get_u8 b = Ok (first_byte a, adv 1 b)"
    by (simp add: address_serialize_eq get_u8_eq)
  show "address_read b = Ok (a, adv (length (address_serialize a)) b)"
    using p g
    by (cases a rule: to_size.cases)
      (auto simp: address_read_def Let_def length_address_serialize to_kind_value_def
        address_serialize_eq read_key)
qed

lemmas address_read_buf [read_simps] = address_codec.read_buf [OF TrueI]

interpretation stream_address: stream_codec "\<lambda>_. True" address_serialize address_deserialize
proof
  fix a rest
  have g: "codec_get_u8 (x # xs) = Ok (x, xs)" for x xs
    using stream_u8.stream_read_ser [where x = x and rest = xs] by simp
  show "address_deserialize (address_serialize a @ rest) = Ok (a, rest)"
    by (cases a rule: to_size.cases)
      (simp_all add: address_deserialize_def address_serialize_eq g Let_def to_kind_value_def)
qed

text \<open>Every slice that \<open>is_valid_data\<close> accepts is decoded, without a panic.\<close>

lemma valid_data_from_bytes:
  assumes "is_valid_data bs = Ok (d, t)"
  shows "\<exists>a. from_bytes bs = Ok a \<and> discrimination a = d \<and> to_kind_type a = t"
proof -
  obtain b0 rest where bs: "bs = b0 # rest"
    using assms by (cases bs) (auto simp: is_valid_data_def)
  let ?k = "get_kind_value b0"
  from assms bs have d: "d = get_discrimination_value b0"
    by (auto simp: is_valid_data_def vec_get_def Let_def split: if_splits)
  from assms bs consider
      "?k = 3" "length rest = 32" "t = KindSingle"
    | "?k = 4" "length rest = 64" "t = KindGroup"
    | "?k = 5" "length rest = 32" "t = KindAccount"
    by (auto simp: is_valid_data_def vec_get_def Let_def split: if_splits)
  then show ?thesis
    using assms d bs
    by cases (auto simp: from_bytes_def vec_get_def Let_def public_from_binary_def)
qed

lemma from_bytes_no_panic: "from_bytes bs \<noteq> Panic"
proof (cases "is_valid_data bs")
  case (Ok r)
  then show ?thesis using valid_data_from_bytes [of bs "fst r" "snd r"] by auto
next
  case Panic
  then show ?thesis
    by (auto simp: is_valid_data_def vec_get_def Let_def split: if_splits)
qed (simp add: from_bytes_def)

section \<open>Properties\<close>

text \<open>
  C39: the three decoders of an address invert its serialization, whatever follows it in the buffer or the
  stream, and the serialization has the announced size.
\<close>

theorem address_roundtrip:
  "from_bytes (address_to_bytes a) = Ok a \<and>
   length (address_to_bytes a) = to_size a \<and>
   address_deserialize (address_serialize a @ rest) = Ok (a, rest) \<and>
   read_from_raw address_read (address_serialize a) = Ok a"
  using stream_address.stream_read_ser [where x = a and rest = rest]
    address_codec.read_from_raw_ser [where x = a]
  by (simp add: address_to_bytes_def from_bytes_serialize length_address_serialize)

text \<open>
  decoding a slice never panics, and it succeeds exactly on the slices that have a known kind in
  their first byte and the length of that kind.
\<close>

theorem from_bytes_accepts:
  "from_bytes bs \<noteq> Panic \<and>
   ((\<exists>a. from_bytes bs = Ok a) \<longleftrightarrow>
      bs \<noteq> [] \<and>
      (get_kind_value (hd bs) = 3 \<and> length bs = 33 \<or> get_kind_value (hd bs) = 4 \<and> length bs = 65 \<or>
       get_kind_value (hd bs) = 5 \<and> length bs = 33))"
proof -
  have "(\<exists>a. from_bytes bs = Ok a) \<longleftrightarrow> (\<exists>r. is_valid_data bs = Ok r)"
    using valid_data_from_bytes [of bs] by (auto simp: from_bytes_def)
  also have "\<dots> \<longleftrightarrow> bs \<noteq> [] \<and>
      (get_kind_value (hd bs) = 3 \<and> length bs = 33 \<or> get_kind_value (hd bs) = 4 \<and> length bs = 65 \<or>
       get_kind_value (hd bs) = 5 \<and> length bs = 33)"
    by (cases bs) (auto simp: is_valid_data_def vec_get_def Let_def)
  finally show ?thesis using from_bytes_no_panic by blast
qed

text \<open>
  With a bech32 package that parses what it prints and restores the bytes it was given, and two
  different prefixes, printing an address succeeds, the text is accepted again, and reading it gives the
  address.
\<close>

theorem readable_roundtrip:
  assumes "\<And>hrp v. hrp \<in> {production_prefix env, test_prefix env} \<Longrightarrow>
      \<exists>s. bech32_to_string env hrp v = Some s \<and> bech32_from_str env s = Some (hrp, v)"
    and "\<And>bs. from_base32 env (to_base32 env bs) = Some bs"
    and "production_prefix env \<noteq> test_prefix env"
  shows "\<exists>r. readable_from_address env a = (Ok r :: (address_readable, 'e) outcome) \<and>
           readable_from_string env (as_string r) = Ok r \<and>
           readable_to_address env r = (Ok a :: (address, 'e) outcome)"
proof -
  define hrp where "hrp = (case discrimination a of
      Production \<Rightarrow> production_prefix env | Test \<Rightarrow> test_prefix env)"
  have "hrp \<in> {production_prefix env, test_prefix env}" by (simp add: hrp_def split: discrimination.split)
  then obtain s where s: "bech32_to_string env hrp (to_base32 env (address_serialize a)) = Some s"
      "bech32_from_str env s = Some (hrp, to_base32 env (address_serialize a))"
    using assms(1) by blast
  have "(if hrp = production_prefix env then Ok Production
      else if hrp = test_prefix env then Ok Test else Err InvalidPrefix) =
      (Ok (discrimination a) :: (discrimination, addr_error) outcome)"
    using assms(3) by (simp add: hrp_def split: discrimination.split)
  with s assms(2) show ?thesis
    by (intro exI [of _ "AddressReadable s"])
      (simp add: readable_from_address_def readable_from_string_def readable_to_address_def
        address_to_bytes_def is_valid_data_serialize from_bytes_serialize flip: hrp_def)
qed

definition demo_bech32 :: "bytes bech32" where
  "demo_bech32 =
     \<lparr> bech32_from_str = (\<lambda>s. Some (take 2 s, map (\<lambda>c. word_of_nat (of_char c)) (drop 2 s))),
       bech32_to_string = (\<lambda>hrp v. Some (hrp @ map (\<lambda>b. char_of (unat b)) v)),
       to_base32 = (\<lambda>bs. bs), from_base32 = Some,
       production_prefix = ''ca'', test_prefix = ''ta'' \<rparr>"

theorem readable_roundtrip_witness:
  "\<exists>r. readable_from_address demo_bech32 (Address Test (Single 5)) =
         (Ok r :: (address_readable, unit) outcome) \<and>
       readable_to_address demo_bech32 r = (Ok (Address Test (Single 5)) :: (address, unit) outcome)"
proof -
  have b: "unat b mod 256 = unat b" for b :: u8
    using unat_bound [of b] by simp
  have "\<exists>r. readable_from_address demo_bech32 (Address Test (Single 5)) =
         (Ok r :: (address_readable, unit) outcome) \<and>
      readable_from_string demo_bech32 (as_string r) = Ok r \<and>
      readable_to_address demo_bech32 r = (Ok (Address Test (Single 5)) :: (address, unit) outcome)"
    by (rule readable_roundtrip) (auto simp: demo_bech32_def comp_def of_char_of b)
  then show ?thesis by blast
qed

end
