(* ===== verification/Text.thy ===== *)
theory Text
  imports Prelude
begin

text \<open>
  Decimal numbers as the standard library prints and parses them, and the hexadecimal text of
  \<^verbatim>\<open>chain-crypto/src/hex.rs\<close>.
\<close>

section \<open>Decimal numbers\<close>

datatype int_error_kind = IntEmpty | IntInvalidDigit | IntOverflow

definition digit_char :: "nat \<Rightarrow> char" where
  "digit_char d = char_of (48 + d)"

definition digit_val :: "char \<Rightarrow> nat option" where
  "digit_val c =
     (let n = of_char c :: nat in if 48 \<le> n \<and> n \<le> 57 then Some (n - 48) else None)"

fun show_nat :: "nat \<Rightarrow> string" where
  "show_nat n = (if n < 10 then [digit_char n] else show_nat (n div 10) @ [digit_char (n mod 10)])"

declare show_nat.simps [simp del]

fun parse_digits :: "nat \<Rightarrow> nat \<Rightarrow> string \<Rightarrow> (nat, int_error_kind) outcome" where
  "parse_digits limit acc [] = Ok acc"
| "parse_digits limit acc (c # cs) =
     (case digit_val c of
        None \<Rightarrow> Err IntInvalidDigit
      | Some d \<Rightarrow>
          if acc * 10 + d < limit then parse_digits limit (acc * 10 + d) cs else Err IntOverflow)"

text \<open>\<^verbatim>\<open>from_str\<close> of an unsigned integer type with \<open>limit\<close> values: an optional plus sign and digits.\<close>

definition parse_uint :: "nat \<Rightarrow> string \<Rightarrow> (nat, int_error_kind) outcome" where
  "parse_uint limit s =
     (case s of
        [] \<Rightarrow> Err IntEmpty
      | c # cs \<Rightarrow>
          if c = CHR ''+'' then (if cs = [] then Err IntInvalidDigit else parse_digits limit 0 cs)
          else parse_digits limit 0 s)"

definition parse_u32 :: "string \<Rightarrow> (u32, int_error_kind) outcome" where
  "parse_u32 s = obind (parse_uint (2 ^ 32) s) (\<lambda>n. Ok (word_of_nat n))"

definition parse_u64 :: "string \<Rightarrow> (u64, int_error_kind) outcome" where
  "parse_u64 s = obind (parse_uint (2 ^ 64) s) (\<lambda>n. Ok (word_of_nat n))"

definition show_word :: "'a::len word \<Rightarrow> string" where
  "show_word w = show_nat (unat w)"

lemma digit_val_char [simp]: "d < 10 \<Longrightarrow> digit_val (digit_char d) = Some d"
  by (simp add: digit_val_def digit_char_def of_char_of Let_def)

lemma digit_char_not [simp]:
  "d < 10 \<Longrightarrow> digit_char d \<noteq> CHR ''+''" "d < 10 \<Longrightarrow> digit_char d \<noteq> CHR ''.''"
proof -
  have "digit_val (CHR ''+'') = None" "digit_val (CHR ''.'') = None" by code_simp+
  then show "d < 10 \<Longrightarrow> digit_char d \<noteq> CHR ''+''" "d < 10 \<Longrightarrow> digit_char d \<noteq> CHR ''.''"
    using digit_val_char [of d] by (metis option.distinct(1))+
qed

lemma parse_digits_append:
  "parse_digits limit acc (xs @ ys) = obind (parse_digits limit acc xs) (\<lambda>a. parse_digits limit a ys)"
  by (induction limit acc xs rule: parse_digits.induct) (auto split: option.split)

lemma parse_digits_show: "n < limit \<Longrightarrow> parse_digits limit 0 (show_nat n) = Ok n"
proof (induction n rule: show_nat.induct)
  case (1 n)
  show ?case
  proof (cases "n < 10")
    case True
    with 1 show ?thesis by (simp add: show_nat.simps [of n])
  next
    case False
    then have "parse_digits limit 0 (show_nat (n div 10)) = Ok (n div 10)" using 1 by simp
    moreover have "n div 10 * 10 + n mod 10 = n" by simp
    ultimately show ?thesis
      using False 1 by (simp add: show_nat.simps [of n] parse_digits_append del: div_mult_mod_eq)
  qed
qed

lemma show_nat_digits: "c \<in> set (show_nat n) \<Longrightarrow> \<exists>d < 10. c = digit_char d"
proof (induction n rule: show_nat.induct)
  case (1 n)
  then show ?case by (cases "n < 10") (auto simp: show_nat.simps [of n] intro: exI [of _ "n mod 10"])
qed

lemma show_nat_nonempty [simp]: "show_nat n \<noteq> []"
  by (simp add: show_nat.simps [of n])

lemma parse_uint_show: "n < limit \<Longrightarrow> parse_uint limit (show_nat n) = Ok n"
  using parse_digits_show [of n limit] show_nat_digits [of "hd (show_nat n)" n]
  by (cases "show_nat n") (auto simp: parse_uint_def)

lemma parse_show_word [simp]:
  "parse_u32 (show_word a) = Ok a" "parse_u64 (show_word b) = Ok b"
  using unat_bound [of a] unat_bound [of b]
  by (simp_all add: parse_u32_def parse_u64_def show_word_def parse_uint_show)

lemma parse_uint_bound: "parse_uint limit s = Ok n \<Longrightarrow> n < limit"
proof -
  have *: "parse_digits limit acc cs = Ok n \<Longrightarrow> cs \<noteq> [] \<Longrightarrow> n < limit" for acc cs
  proof (induction limit acc cs rule: parse_digits.induct)
    case (2 limit acc c cs)
    then show ?case by (cases cs) (auto split: option.splits if_splits)
  qed simp
  show "parse_uint limit s = Ok n \<Longrightarrow> n < limit"
    using * [where acc = 0] by (cases s) (auto simp: parse_uint_def simp del: parse_digits.simps split: if_splits)
qed

section \<open>Hexadecimal text\<close>

definition hex_alphabet :: string where
  "hex_alphabet = ''0123456789abcdef''"

fun hex_encode :: "bytes \<Rightarrow> string" where
  "hex_encode [] = []"
| "hex_encode (b # bs) =
     hex_alphabet ! unat (drop_bit 4 b) # hex_alphabet ! unat (b AND 0xf) # hex_encode bs"

datatype hex_error = InvalidHexChar nat

datatype hex_char = HexDigit u8 | HexSpace | HexBad

definition hex_class :: "char \<Rightarrow> hex_char" where
  "hex_class c =
     (let n = of_char c :: nat in
      if 65 \<le> n \<and> n \<le> 70 then HexDigit (word_of_nat (n - 65 + 10))
      else if 97 \<le> n \<and> n \<le> 102 then HexDigit (word_of_nat (n - 97 + 10))
      else if 48 \<le> n \<and> n \<le> 57 then HexDigit (word_of_nat (n - 48))
      else if n \<in> {32, 13, 10, 9} then HexSpace
      else HexBad)"

text \<open>The loop of \<^verbatim>\<open>decode_bytes\<close>: the index, the bytes so far, the digits seen of the current byte, its bits.\<close>

fun hex_loop :: "nat \<Rightarrow> bytes \<Rightarrow> nat \<Rightarrow> u8 \<Rightarrow> string \<Rightarrow> (bytes, hex_error) outcome" where
  "hex_loop idx b modulus bits [] = Ok b"
| "hex_loop idx b modulus bits (c # cs) =
     (let bits' = push_bit 4 bits in
      case hex_class c of
        HexDigit d \<Rightarrow>
          let bits' = bits' OR d; modulus' = modulus + 1 in
          if modulus' = 2 then hex_loop (Suc idx) (b @ [bits']) 0 bits' cs
          else hex_loop (Suc idx) b modulus' bits' cs
      | HexSpace \<Rightarrow> hex_loop (Suc idx) b modulus (drop_bit 4 bits') cs
      | HexBad \<Rightarrow> Err (InvalidHexChar idx))"

definition hex_decode :: "string \<Rightarrow> (bytes, hex_error) outcome" where
  "hex_decode s = hex_loop 0 [] 0 0 s"

lemma hex_alphabet_class:
  "n < 16 \<Longrightarrow> hex_class (hex_alphabet ! n) = HexDigit (word_of_nat n)"
proof -
  have "\<forall>n \<in> set [0..<16]. hex_class (hex_alphabet ! n) = HexDigit (word_of_nat n)"
    by code_simp
  then show "n < 16 \<Longrightarrow> hex_class (hex_alphabet ! n) = HexDigit (word_of_nat n)" by simp
qed

lemma nibbles:
  fixes b x :: u8
  shows "unat (drop_bit 4 b) < 16" "unat (b AND 0xf) < 16"
    and "push_bit 4 (push_bit 4 x OR drop_bit 4 b) OR (b AND 0xf) = b"
proof -
  have m: "b AND 0xf = take_bit 4 b" by (simp add: take_bit_eq_mask mask_eq_exp_minus_1)
  show "unat (drop_bit 4 b) < 16"
    using unat_bound [of b] by (simp add: drop_bit_eq_div unat_div_distrib)
  show "unat (b AND 0xf) < 16"
    unfolding m by (simp add: unsigned_take_bit_eq take_bit_nat_def)
  show "push_bit 4 (push_bit 4 x OR drop_bit 4 b) OR (b AND 0xf) = b"
    unfolding m by (rule bit_word_eqI) (auto simp: bit_simps)
qed

lemma hex_loop_encode:
  "hex_loop idx acc 0 x (hex_encode bs) = Ok (acc @ bs)"
proof (induction bs arbitrary: idx acc x)
  case (Cons b bs)
  then show ?case using nibbles(1,2) [of b] nibbles(3) [of x b] by (simp add: hex_alphabet_class Let_def)
qed simp

definition hex_checked :: "nat \<Rightarrow> string \<Rightarrow> (bytes, hex_error) outcome \<Rightarrow> bool" where
  "hex_checked idx s r \<longleftrightarrow>
     (case r of
        Ok _ \<Rightarrow> list_all (\<lambda>c. hex_class c \<noteq> HexBad) s
      | Err (InvalidHexChar i) \<Rightarrow>
          idx \<le> i \<and> i < idx + length s \<and> hex_class (s ! (i - idx)) = HexBad \<and>
          list_all (\<lambda>c. hex_class c \<noteq> HexBad) (take (i - idx) s)
      | Panic \<Rightarrow> False)"

lemma hex_checked_step:
  assumes "hex_checked (Suc idx) cs r" and "hex_class c \<noteq> HexBad"
  shows "hex_checked idx (c # cs) r"
proof (cases r)
  case (Err e)
  then obtain i where "r = Err (InvalidHexChar i)" by (cases e) simp
  with assms show ?thesis by (auto simp: hex_checked_def nth_Cons' take_Cons')
qed (use assms in \<open>auto simp: hex_checked_def\<close>)

lemma hex_loop_classes: "hex_checked idx s (hex_loop idx b m x s)"
proof (induction s arbitrary: idx b m x)
  case (Cons c cs)
  have "hex_class c \<noteq> HexBad \<Longrightarrow> \<exists>b' m' x'. hex_loop idx b m x (c # cs) = hex_loop (Suc idx) b' m' x' cs"
    by (cases "m = 1"; cases "hex_class c") (auto simp: Let_def)
  then show ?case
    using Cons.IH hex_checked_step [of idx cs _ c] by (cases "hex_class c = HexBad") (auto simp: hex_checked_def Let_def)
qed (simp add: hex_checked_def)

text \<open>
  Decoding the hexadecimal text of a byte string gives the byte string; the first character that is neither a
  hexadecimal digit nor white space is reported with its index.
\<close>

theorem hex_roundtrip:
  "hex_decode (hex_encode bs) = Ok bs \<and>
   (case hex_decode s of
      Ok _ \<Rightarrow> list_all (\<lambda>c. hex_class c \<noteq> HexBad) s
    | Err (InvalidHexChar i) \<Rightarrow>
        i < length s \<and> hex_class (s ! i) = HexBad \<and> list_all (\<lambda>c. hex_class c \<noteq> HexBad) (take i s)
    | Panic \<Rightarrow> False)"
  using hex_loop_encode [of 0 "[]" 0 bs] hex_loop_classes [where idx = 0 and s = s and b = "[]" and m = 0 and x = 0]
  by (simp add: hex_decode_def hex_checked_def split: outcome.splits hex_error.splits)

end
