(* ===== verification/Btree.thy ===== *)
theory Btree
  imports Prelude "HOL-Library.Multiset"
begin

text \<open>
  The ordered map \<^verbatim>\<open>BTreeMap\<close> of the standard library, as far as the sources use it: the list of its pairs in
  increasing order of the keys, which is the order in which it iterates. The locale \<open>iterator\<close> is the
  contract of the iterators written in the sources: a state has a list of items left, and each call yields
  the first of them and keeps the others.
\<close>

section \<open>Iterators\<close>

locale iterator =
  fixes nxt :: "'s \<Rightarrow> 'a option \<times> 's" and left :: "'s \<Rightarrow> 'a list"
  assumes nxt_left:
    "case left s of [] \<Rightarrow> fst (nxt s) = None | x # xs \<Rightarrow> fst (nxt s) = Some x \<and> left (snd (nxt s)) = xs"
begin

lemma nxt_cases:
  obtains (Done) s' where "nxt s = (None, s')" "left s = []"
  | (More) x s' where "nxt s = (Some x, s')" "left s = x # left s'"
proof (cases "left s")
  case Nil
  then show ?thesis
    using nxt_left [of s] by (intro Done [of "snd (nxt s)"]) (simp_all add: prod_eq_iff)
next
  case (Cons x xs)
  then show ?thesis
    using nxt_left [of s] by (intro More [of x "snd (nxt s)"]) (simp_all add: prod_eq_iff)
qed

lemma nxt_shorter: "(Some x, s') = nxt s \<Longrightarrow> length (left s') < length (left s)"
  by (cases rule: nxt_cases [of s]) auto

lemma collect_left:
  assumes collect: "\<And>s. collect s = (case nxt s of (None, _) \<Rightarrow> [] | (Some x, s') \<Rightarrow> x # collect s')"
  shows "collect s = left s"
proof (induction s rule: measure_induct_rule [of "\<lambda>s. length (left s)"])
  case (less s)
  show ?case
    by (cases rule: nxt_cases [of s]) (use less collect [of s] in simp_all)
qed

end

section \<open>Ordered maps\<close>

type_synonym ('k, 'v) btree = "('k \<times> 'v) list"

fun bt_insert :: "'k::linorder \<Rightarrow> 'v \<Rightarrow> ('k, 'v) btree \<Rightarrow> ('k, 'v) btree" where
  "bt_insert k v [] = [(k, v)]"
| "bt_insert k v ((k', v') # m) =
     (if k < k' then (k, v) # (k', v') # m
      else if k = k' then (k, v) # m
      else (k', v') # bt_insert k v m)"

definition bt_remove :: "'k::linorder \<Rightarrow> ('k, 'v) btree \<Rightarrow> ('k, 'v) btree" where
  "bt_remove k m = filter (\<lambda>p. fst p \<noteq> k) m"

definition bt_get :: "('k::linorder, 'v) btree \<Rightarrow> 'k \<Rightarrow> 'v option" where
  "bt_get m k = map_of m k"

definition bt_inv :: "('k::linorder, 'v) btree \<Rightarrow> bool" where
  "bt_inv m \<longleftrightarrow> sorted_wrt (<) (map fst m)"

definition bt_from_list :: "('k::linorder \<times> 'v) list \<Rightarrow> ('k, 'v) btree" where
  "bt_from_list xs = fold (\<lambda>(k, v) m. bt_insert k v m) xs []"

lemma bt_get_empty [simp]: "bt_get [] = Map.empty"
  by (simp add: bt_get_def fun_eq_iff)

lemma bt_inv_simps [simp]: "bt_inv []" "bt_inv ((k, v) # m) \<longleftrightarrow> (\<forall>p \<in> set m. k < fst p) \<and> bt_inv m"
  by (auto simp: bt_inv_def)

lemma bt_insert_set: "set (bt_insert k v m) \<subseteq> insert (k, v) (set m)"
  by (induction k v m rule: bt_insert.induct) auto

lemma bt_inv_insert [simp]: "bt_inv m \<Longrightarrow> bt_inv (bt_insert k v m)"
proof (induction k v m rule: bt_insert.induct)
  case (2 k v k' v' m)
  then show ?case using bt_insert_set [of k v m] by (force split: if_splits)
qed simp

lemma bt_inv_remove [simp]: "bt_inv m \<Longrightarrow> bt_inv (bt_remove k m)"
  by (induction m) (auto simp: bt_remove_def)

lemma bt_inv_distinct: "bt_inv m \<Longrightarrow> distinct (map fst m)"
  by (simp add: bt_inv_def strict_sorted_iff)

lemma bt_get_insert: "bt_inv m \<Longrightarrow> bt_get (bt_insert k v m) = (bt_get m)(k \<mapsto> v)"
proof (induction k v m rule: bt_insert.induct)
  case (2 k v k' v' m)
  show ?case
  proof (rule ext)
    fix i
    show "bt_get (bt_insert k v ((k', v') # m)) i = ((bt_get ((k', v') # m))(k \<mapsto> v)) i"
      using 2 by (auto simp: bt_get_def)
  qed
qed (simp add: bt_get_def fun_eq_iff)

lemma bt_get_remove: "bt_get (bt_remove k m) = (bt_get m)(k := None)"
  by (induction m) (auto simp: bt_remove_def bt_get_def)

lemma bt_get_None_iff: "bt_get m k = None \<longleftrightarrow> k \<notin> fst ` set m"
  by (simp add: bt_get_def map_of_eq_None_iff)

lemma bt_get_Some_set: "bt_inv m \<Longrightarrow> bt_get m k = Some v \<longleftrightarrow> (k, v) \<in> set m"
  by (simp add: bt_get_def bt_inv_distinct)

lemma bt_mset_insert:
  "bt_inv m \<Longrightarrow> mset (bt_insert k v m) = add_mset (k, v) (mset (bt_remove k m))"
proof (induction k v m rule: bt_insert.induct)
  case (2 k v k' v' m)
  have "filter_mset (\<lambda>p. fst p \<noteq> k) (mset m) = mset m" if "\<forall>p \<in> set m. k < fst p"
    using that by (auto simp: filter_mset_eq_conv)
  moreover have "filter_mset (\<lambda>p. fst p \<noteq> k) (mset m) = mset m" if "k < k'" "\<forall>p \<in> set m. k' < fst p"
    using that by (force simp: filter_mset_eq_conv)
  ultimately show ?case using 2 by (auto simp: bt_remove_def)
qed (simp add: bt_remove_def)

lemma bt_sum_remove:
  assumes "bt_inv m" and "bt_get m k = Some v"
  shows "sum_list (map w (bt_remove k m)) + w (k, v) = (sum_list (map w m) :: nat)"
  using assms
proof (induction m)
  case (Cons p m)
  obtain k' v' where p: "p = (k', v')" by force
  show ?case
  proof (cases "k' = k")
    case True
    then have "filter (\<lambda>p. fst p \<noteq> k) m = m" using Cons.prems p by (auto simp: filter_id_conv)
    with True Cons.prems p show ?thesis by (simp add: bt_remove_def bt_get_def)
  next
    case False
    with Cons p show ?thesis by (simp add: bt_remove_def bt_get_def)
  qed
qed simp

lemma bt_remove_absent: "bt_get m k = None \<Longrightarrow> bt_remove k m = m"
  by (auto simp: bt_remove_def bt_get_None_iff filter_id_conv image_iff)

lemma bt_sum_insert_absent:
  assumes "bt_inv m" and "bt_get m k = None"
  shows "sum_list (map w (bt_insert k v m)) = (w (k, v) + sum_list (map w m) :: nat)"
proof -
  have "\<Sum>\<^sub># (image_mset w (mset (bt_insert k v m))) = w (k, v) + \<Sum>\<^sub># (image_mset w (mset m))"
    using assms by (simp add: bt_mset_insert bt_remove_absent)
  then show ?thesis by (metis mset_map sum_mset_sum_list)
qed

lemma bt_sum_insert_present:
  assumes "bt_inv m" and "bt_get m k = Some old"
  shows "sum_list (map w (bt_insert k v m)) + w (k, old) = (w (k, v) + sum_list (map w m) :: nat)"
proof -
  have "\<Sum>\<^sub># (image_mset w (mset (bt_insert k v m))) =
      w (k, v) + \<Sum>\<^sub># (image_mset w (mset (bt_remove k m)))"
    using assms by (simp add: bt_mset_insert)
  then have "sum_list (map w (bt_insert k v m)) = w (k, v) + sum_list (map w (bt_remove k m))"
    by (metis mset_map sum_mset_sum_list)
  with bt_sum_remove [OF assms, of w] show ?thesis by simp
qed

lemma bt_from_list_inv [simp]: "bt_inv (bt_from_list xs)"
proof -
  have "bt_inv m \<Longrightarrow> bt_inv (fold (\<lambda>(k, v) m. bt_insert k v m) xs m)" for m :: "('a, 'b) btree"
    by (induction xs arbitrary: m) auto
  then show ?thesis by (simp add: bt_from_list_def)
qed

lemma bt_from_list_get: "bt_get (bt_from_list xs) = map_of (rev xs)"
proof -
  have "bt_inv m \<Longrightarrow>
      bt_get (fold (\<lambda>(k, v) m. bt_insert k v m) xs m) = bt_get m ++ map_of (rev xs)"
    for m :: "('a, 'b) btree"
    by (induction xs arbitrary: m) (auto simp: bt_get_insert)
  from this [of "[]"] show ?thesis by (simp add: bt_from_list_def)
qed

lemma bt_from_list_sum:
  assumes "distinct (map fst xs)"
  shows "sum_list (map w (bt_from_list xs)) = (sum_list (map w xs) :: nat)"
proof -
  have "bt_inv m \<Longrightarrow> \<forall>p \<in> set xs. bt_get m (fst p) = None \<Longrightarrow>
      sum_list (map w (fold (\<lambda>(k, v) m. bt_insert k v m) xs m)) =
      sum_list (map w m) + sum_list (map w xs)" for m :: "('a, 'b) btree"
    using assms
  proof (induction xs arbitrary: m)
    case (Cons p xs)
    obtain k v where p: "p = (k, v)" by force
    have "sum_list (map w (fold (\<lambda>(k, v) m. bt_insert k v m) xs (bt_insert k v m))) =
        sum_list (map w (bt_insert k v m)) + sum_list (map w xs)"
      using Cons.prems p by (intro Cons.IH) (auto simp: bt_get_insert)
    with Cons.prems p show ?case by (simp add: bt_sum_insert_absent)
  qed simp
  from this [of "[]"] show ?thesis by (simp add: bt_from_list_def)
qed

end
