(* ===== verification/Config.thy ===== *)
theory Config
  imports Address Text Btree
begin

text \<open>
  Versions of blocks and of the consensus (\<^verbatim>\<open>block/version.rs\<close>), the parameters of the genesis block
  (\<^verbatim>\<open>config.rs\<close>) and the message that holds them (\<^verbatim>\<open>message/initial.rs\<close>) of \<^verbatim>\<open>chain-impl-mockchain/src\<close>.
\<close>

section \<open>Versions\<close>

datatype block_version = Genesis | Ed25519Signed | KesVrfproof

datatype any_block_version = Supported block_version | Unsupported u16

datatype consensus_version = Bft | GenesisPraos

fun block_version_u16 :: "block_version \<Rightarrow> u16" where
  "block_version_u16 Genesis = 0"
| "block_version_u16 Ed25519Signed = 1"
| "block_version_u16 KesVrfproof = 2"

definition block_version_from_u16 :: "u16 \<Rightarrow> block_version option" where
  "block_version_from_u16 n =
     (if n = 0 then Some Genesis else if n = 1 then Some Ed25519Signed
      else if n = 2 then Some KesVrfproof else None)"

fun try_into_block_version :: "any_block_version \<Rightarrow> block_version option" where
  "try_into_block_version (Supported v) = Some v"
| "try_into_block_version (Unsupported _) = None"

fun any_version_eq :: "any_block_version \<Rightarrow> block_version \<Rightarrow> bool" where
  "any_version_eq (Supported v) other = (v = other)"
| "any_version_eq (Unsupported _) other = False"

definition any_version_from_u16 :: "u16 \<Rightarrow> any_block_version" where
  "any_version_from_u16 n =
     (case block_version_from_u16 n of Some v \<Rightarrow> Supported v | None \<Rightarrow> Unsupported n)"

fun any_version_into_u16 :: "any_block_version \<Rightarrow> u16" where
  "any_version_into_u16 (Supported v) = block_version_u16 v"
| "any_version_into_u16 (Unsupported n) = n"

fun get_consensus :: "block_version \<Rightarrow> consensus_version option" where
  "get_consensus Genesis = None"
| "get_consensus Ed25519Signed = Some Bft"
| "get_consensus KesVrfproof = Some GenesisPraos"

fun consensus_u16 :: "consensus_version \<Rightarrow> u16" where
  "consensus_u16 Bft = 1"
| "consensus_u16 GenesisPraos = 2"

definition consensus_from_u16 :: "u16 \<Rightarrow> consensus_version option" where
  "consensus_from_u16 n = (if n = 1 then Some Bft else if n = 2 then Some GenesisPraos else None)"

fun consensus_to_string :: "consensus_version \<Rightarrow> string" where
  "consensus_to_string Bft = ''bft''"
| "consensus_to_string GenesisPraos = ''genesis''"

definition consensus_from_str :: "string \<Rightarrow> consensus_version option" where
  "consensus_from_str s =
     (if s = ''bft'' then Some Bft else if s = ''genesis'' then Some GenesisPraos else None)"

definition version_mapping :: "(u16, block_version list) btree" where
  "version_mapping =
     fold (\<lambda>v m. case get_consensus v of
              None \<Rightarrow> m
            | Some c \<Rightarrow>
                let vs = case bt_get m (consensus_u16 c) of None \<Rightarrow> [] | Some vs \<Rightarrow> vs
                in bt_insert (consensus_u16 c) (vs @ [v]) m)
       [Genesis, Ed25519Signed, KesVrfproof] []"

definition supported_block_versions :: "consensus_version \<Rightarrow> block_version list" where
  "supported_block_versions c =
     (case bt_get version_mapping (consensus_u16 c) of None \<Rightarrow> [] | Some vs \<Rightarrow> vs)"

section \<open>Parameters\<close>

datatype block0_date = Block0Date (block0_secs: u64)

datatype config_error = InvalidTag | ConfigSizeInvalid | ConfigStructureInvalid | UnknownString string

fun config_error_to_string :: "config_error \<Rightarrow> string" where
  "config_error_to_string InvalidTag = ''Invalid config parameter tag''"
| "config_error_to_string ConfigSizeInvalid = ''Invalid config parameter size''"
| "config_error_to_string ConfigStructureInvalid = ''Invalid config parameter structure''"
| "config_error_to_string (UnknownString s) = ''Invalid config parameter string '' @ [CHR 0x27] @ s @ [CHR 0x27]"

definition config_error_into_read :: "config_error \<Rightarrow> read_error" where
  "config_error_into_read e = StructureInvalid (config_error_to_string e)"

datatype config_param =
    ConfigBlock0Date block0_date
  | ConfigDiscrimination discrimination
  | ConfigConsensusVersion consensus_version

datatype tag = Tag (tag_u16: u16)

datatype tag_len = TagLen (tag_len_u16: u16)

definition maximum_len :: nat where
  "maximum_len = 64"

definition tag_len_new :: "tag \<Rightarrow> nat \<Rightarrow> tag_len option" where
  "tag_len_new t len =
     (if len < maximum_len then Some (TagLen (push_bit 6 (tag_u16 t) OR word_of_nat len)) else None)"

definition tag_len_get_tag :: "tag_len \<Rightarrow> tag" where
  "tag_len_get_tag w = Tag (drop_bit 6 (tag_len_u16 w))"

definition tag_len_get_len :: "tag_len \<Rightarrow> nat" where
  "tag_len_get_len w = unat (tag_len_u16 w AND 0x3f)"

subsection \<open>The start of the chain\<close>

definition date_to_payload :: "block0_date \<Rightarrow> bytes" where
  "date_to_payload d = to_be_bytes (block0_secs d)"

definition date_from_payload :: "bytes \<Rightarrow> (block0_date, config_error) outcome" where
  "date_from_payload payload =
     (if length payload \<noteq> 8 then Err ConfigSizeInvalid else Ok (Block0Date (from_be_bytes payload)))"

definition date_to_cfg_string :: "block0_date \<Rightarrow> string" where
  "date_to_cfg_string d = show_word (block0_secs d)"

definition date_from_cfg_str :: "string \<Rightarrow> (block0_date, config_error) outcome" where
  "date_from_cfg_str s = obind (map_err (\<lambda>_. UnknownString s) (parse_u64 s)) (\<lambda>v. Ok (Block0Date v))"

subsection \<open>The discrimination of addresses\<close>

definition val_prod :: u8 where
  "val_prod = 1"

definition val_test :: u8 where
  "val_test = 2"

fun discrimination_to_payload :: "discrimination \<Rightarrow> bytes" where
  "discrimination_to_payload Production = [val_prod]"
| "discrimination_to_payload Test = [val_test]"

definition discrimination_from_payload :: "bytes \<Rightarrow> (discrimination, config_error) outcome" where
  "discrimination_from_payload payload =
     (if length payload \<noteq> 1 then Err ConfigSizeInvalid
      else obind (vec_get payload 0) (\<lambda>b.
        if b = val_prod then Ok Production else if b = val_test then Ok Test
        else Err ConfigStructureInvalid))"

fun discrimination_to_cfg_string :: "discrimination \<Rightarrow> string" where
  "discrimination_to_cfg_string Production = ''production''"
| "discrimination_to_cfg_string Test = ''test''"

definition discrimination_from_cfg_str :: "string \<Rightarrow> (discrimination, config_error) outcome" where
  "discrimination_from_cfg_str s =
     (if s = ''production'' then Ok Production else if s = ''test'' then Ok Test
      else Err (UnknownString s))"

subsection \<open>The consensus\<close>

definition consensus_to_payload :: "consensus_version \<Rightarrow> bytes" where
  "consensus_to_payload c = to_be_bytes (consensus_u16 c)"

definition consensus_from_payload :: "bytes \<Rightarrow> (consensus_version, config_error) outcome" where
  "consensus_from_payload payload =
     (if length payload \<noteq> 2 then Err ConfigSizeInvalid
      else ok_or ConfigStructureInvalid (consensus_from_u16 (from_be_bytes payload)))"

definition consensus_from_cfg_str :: "string \<Rightarrow> (consensus_version, config_error) outcome" where
  "consensus_from_cfg_str s = ok_or (UnknownString s) (consensus_from_str s)"

subsection \<open>Binary and textual form of a parameter\<close>

definition config_read :: "config_param reader" where
  "config_read b =
     obind (get_u16 b) (\<lambda>(w, b).
       obind (get_slice (tag_len_get_len (TagLen w)) b) (\<lambda>(bytes, b).
         let t = tag_u16 (tag_len_get_tag (TagLen w)) in
         obind (map_err config_error_into_read
           (if t = 1 then obind (date_from_payload bytes) (\<lambda>d. Ok (ConfigBlock0Date d))
            else if t = 2 then obind (discrimination_from_payload bytes) (\<lambda>d. Ok (ConfigDiscrimination d))
            else if t = 3 then obind (consensus_from_payload bytes) (\<lambda>c. Ok (ConfigConsensusVersion c))
            else Err InvalidTag))
           (\<lambda>c. Ok (c, b))))"

definition config_serialize :: "config_param \<Rightarrow> (bytes, io_error) outcome" where
  "config_serialize c =
     (let (t, bytes) =
        (case c of
           ConfigBlock0Date d \<Rightarrow> (Tag 1, date_to_payload d)
         | ConfigDiscrimination d \<Rightarrow> (Tag 2, discrimination_to_payload d)
         | ConfigConsensusVersion v \<Rightarrow> (Tag 3, consensus_to_payload v))
      in obind (ok_or IoInvalidData (tag_len_new t (length bytes)))
           (\<lambda>taglen. Ok (write_all (codec_put_u16 [] (tag_len_u16 taglen)) bytes)))"

definition config_to_cfg :: "config_param \<Rightarrow> string \<times> string" where
  "config_to_cfg c =
     (case c of
        ConfigBlock0Date d \<Rightarrow> (''block0-date'', date_to_cfg_string d)
      | ConfigDiscrimination d \<Rightarrow> (''discrimination'', discrimination_to_cfg_string d)
      | ConfigConsensusVersion v \<Rightarrow> (''block0-consensus'', consensus_to_string v))"

definition config_from_cfg :: "string \<times> string \<Rightarrow> (config_param, config_error) outcome" where
  "config_from_cfg = (\<lambda>(t, v).
     if t = ''block0-date'' then obind (date_from_cfg_str v) (\<lambda>d. Ok (ConfigBlock0Date d))
     else if t = ''discrimination'' then obind (discrimination_from_cfg_str v) (\<lambda>d. Ok (ConfigDiscrimination d))
     else if t = ''block0-consensus'' then obind (consensus_from_cfg_str v) (\<lambda>c. Ok (ConfigConsensusVersion c))
     else Err InvalidTag)"

section \<open>The codec of a parameter\<close>

lemma tag_len_bits:
  fixes t l :: u16
  assumes "take_bit 10 t = t" and "take_bit 6 l = l"
  shows "drop_bit 6 (push_bit 6 t OR l) = t" and "(push_bit 6 t OR l) AND 0x3f = l"
proof -
  have "(push_bit 6 t OR l) AND 0x3f = take_bit 6 (push_bit 6 t OR l)"
    by (simp add: take_bit_eq_mask mask_eq_exp_minus_1)
  also have "\<dots> = take_bit 6 l" by (rule bit_word_eqI) (auto simp: bit_simps)
  finally show "(push_bit 6 t OR l) AND 0x3f = l" using assms(2) by simp
  have "drop_bit 6 (push_bit 6 (take_bit 10 t) OR take_bit 6 l) = take_bit 10 t"
    by (rule bit_word_eqI) (auto simp: bit_simps)
  then show "drop_bit 6 (push_bit 6 t OR l) = t" using assms by simp
qed

lemma take_bit_small: "unat (w :: 'a::len word) < 2 ^ n \<Longrightarrow> take_bit n w = w"
  by (simp add: word_unat_eq_iff unsigned_take_bit_eq take_bit_nat_eq_self)

lemma tag_len_parts:
  assumes "unat (tag_u16 t) < 1024" and "len < 64"
  obtains w where "tag_len_new t len = Some w" "tag_len_get_tag w = t" "tag_len_get_len w = len"
proof -
  have l: "unat (word_of_nat len :: u16) = len" using assms(2) by (simp add: unat_of_nat)
  then have bits: "take_bit 10 (tag_u16 t) = tag_u16 t" "take_bit 6 (word_of_nat len :: u16) = word_of_nat len"
    using assms by (simp_all add: take_bit_small)
  note tag_len_bits [OF bits]
  with l assms(2) show ?thesis
    by (intro that [of "TagLen (push_bit 6 (tag_u16 t) OR word_of_nat len)"])
      (simp_all add: tag_len_new_def tag_len_get_tag_def tag_len_get_len_def maximum_len_def)
qed

fun config_payload :: "config_param \<Rightarrow> tag \<times> bytes" where
  "config_payload (ConfigBlock0Date d) = (Tag 1, date_to_payload d)"
| "config_payload (ConfigDiscrimination d) = (Tag 2, discrimination_to_payload d)"
| "config_payload (ConfigConsensusVersion v) = (Tag 3, consensus_to_payload v)"

lemma config_payload_bounds:
  "unat (tag_u16 (fst (config_payload c))) < 1024" "length (snd (config_payload c)) < 64"
proof -
  show "unat (tag_u16 (fst (config_payload c))) < 1024" by (cases c) simp_all
  show "length (snd (config_payload c)) < 64"
  proof (cases c)
    case (ConfigDiscrimination d)
    then show ?thesis by (cases d) simp_all
  qed (simp_all add: date_to_payload_def consensus_to_payload_def)
qed

definition config_taglen :: "config_param \<Rightarrow> u16" where
  "config_taglen c = push_bit 6 (tag_u16 (fst (config_payload c))) OR word_of_nat (length (snd (config_payload c)))"

definition config_bytes :: "config_param \<Rightarrow> bytes" where
  "config_bytes c = to_be_bytes (config_taglen c) @ snd (config_payload c)"

lemma config_taglen_parts [simp]:
  "tag_len_get_tag (TagLen (config_taglen c)) = fst (config_payload c)"
  "tag_len_get_len (TagLen (config_taglen c)) = length (snd (config_payload c))"
  using tag_len_parts [OF config_payload_bounds [of c]]
  by (auto simp: tag_len_new_def config_taglen_def maximum_len_def config_payload_bounds)

lemma config_serialize_eq: "config_serialize c = Ok (config_bytes c)"
  using config_payload_bounds(2) [of c]
  by (cases c)
    (simp_all add: config_serialize_def config_bytes_def config_taglen_def tag_len_new_def maximum_len_def
      codec_put_defs)

lemma consensus_from_u16_u16 [simp]: "consensus_from_u16 (consensus_u16 c) = Some c"
  by (cases c) (simp_all add: consensus_from_u16_def)

lemma payload_roundtrips:
  "date_from_payload (date_to_payload d) = Ok d"
  "discrimination_from_payload (discrimination_to_payload x) = Ok x"
  "consensus_from_payload (consensus_to_payload c) = Ok c"
proof -
  show "date_from_payload (date_to_payload d) = Ok d"
    by (simp add: date_from_payload_def date_to_payload_def from_to_be_bytes)
  show "discrimination_from_payload (discrimination_to_payload x) = Ok x"
    by (cases x) (simp_all add: discrimination_from_payload_def vec_get_def val_prod_def val_test_def)
  show "consensus_from_payload (consensus_to_payload c) = Ok c"
    by (simp add: consensus_from_payload_def consensus_to_payload_def from_to_be_bytes)
qed

interpretation config_codec: codec "\<lambda>_. True" config_bytes config_read
proof (rule codecI)
  fix c pre rest
  show "config_read (buf pre (config_bytes c @ rest)) = Ok (c, buf (pre @ config_bytes c) rest)"
    by (cases c) (simp_all add: config_read_def config_bytes_def read_simps payload_roundtrips Let_def)
  show "config_bytes c \<noteq> []" by (simp add: config_bytes_def flip: length_0_conv)
qed

section \<open>The initial parameters\<close>

datatype initial_ents = InitialEnts (initial_configs: "config_param list")

definition initial_ents_new :: initial_ents where
  "initial_ents_new = InitialEnts []"

definition initial_ents_push :: "initial_ents \<Rightarrow> config_param \<Rightarrow> initial_ents" where
  "initial_ents_push ents c = InitialEnts (initial_configs ents @ [c])"

fun serialize_configs :: "config_param list \<Rightarrow> (bytes, io_error) outcome" where
  "serialize_configs [] = Ok []"
| "serialize_configs (c # cs) =
     obind (config_serialize c) (\<lambda>w. obind (serialize_configs cs) (\<lambda>ws. Ok (w @ ws)))"

definition initial_ents_serialize :: "initial_ents \<Rightarrow> (bytes, io_error) outcome" where
  "initial_ents_serialize ents = serialize_configs (initial_configs ents)"

lemma get_slice_left: "get_slice n b = Ok (x, b') \<Longrightarrow> rb_left b' + n = rb_left b"
  by (auto simp: get_slice_eq left_pending split: if_splits)

lemma config_read_left: "config_read b = Ok (c, b') \<Longrightarrow> rb_left b' < rb_left b"
  by (auto simp: config_read_def get_u16_def Let_def dest!: get_slice_left)

function read_configs :: "config_param list \<Rightarrow> config_param list reader" where
  "read_configs configs b =
     (if is_end b then Ok (configs, b)
      else case config_read b of
             Ok (c, b') \<Rightarrow> read_configs (configs @ [c]) b'
           | Err e \<Rightarrow> Err e
           | Panic \<Rightarrow> Panic)"
  by pat_completeness auto
termination read_configs
  by (relation "measure (\<lambda>(_, b). rb_left b)") (auto dest: config_read_left)

declare read_configs.simps [simp del]

definition initial_ents_read :: "initial_ents reader" where
  "initial_ents_read b = obind (read_configs [] b) (\<lambda>(configs, b). Ok (InitialEnts configs, b))"

definition initial_ents_bytes :: "initial_ents \<Rightarrow> bytes" where
  "initial_ents_bytes ents = concat (map config_bytes (initial_configs ents))"

lemma initial_ents_serialize_eq: "initial_ents_serialize ents = Ok (initial_ents_bytes ents)"
proof -
  have "serialize_configs cs = Ok (concat (map config_bytes cs))" for cs
    by (induction cs) (simp_all add: config_serialize_eq)
  then show ?thesis by (simp add: initial_ents_serialize_def initial_ents_bytes_def)
qed

lemma read_configs_buf:
  "read_configs acc (buf pre (concat (map config_bytes cs))) =
     Ok (acc @ cs, buf (pre @ concat (map config_bytes cs)) [])"
proof (induction cs arbitrary: acc pre)
  case Nil
  then show ?case by (simp add: read_configs.simps [of acc] is_end_def left_pending)
next
  case (Cons c cs)
  have "\<not> is_end (buf pre (concat (map config_bytes (c # cs))))"
    by (simp add: is_end_def left_pending config_bytes_def)
  moreover have "config_read (buf pre (concat (map config_bytes (c # cs)))) =
      Ok (c, buf (pre @ config_bytes c) (concat (map config_bytes cs)))"
    using config_codec.read_buf [OF TrueI] by simp
  ultimately show ?case
    using Cons.IH [of "acc @ [c]" "pre @ config_bytes c"]
    by (simp add: read_configs.simps [of acc] del: concat.simps list.map) simp
qed

text \<open>The initial parameters reach to the end of their buffer, so nothing may follow them.\<close>

lemma initial_ents_read_buf [read_simps]:
  "initial_ents_read (buf pre (initial_ents_bytes ents)) = Ok (ents, buf (pre @ initial_ents_bytes ents) [])"
  by (simp add: initial_ents_read_def initial_ents_bytes_def read_configs_buf)

section \<open>Properties\<close>

text \<open>
  The two bytes before a parameter hold its tag and its length: both are recovered for every tag below 1024
  and every length below 64, and longer payloads are refused.
\<close>

theorem tag_len_roundtrip:
  assumes "unat (tag_u16 t) < 1024"
  shows "case tag_len_new t len of
      Some w \<Rightarrow> len < 64 \<and> tag_len_get_tag w = t \<and> tag_len_get_len w = len
    | None \<Rightarrow> len \<ge> 64"
proof (cases "len < 64")
  case True
  with assms obtain w where "tag_len_new t len = Some w" "tag_len_get_tag w = t" "tag_len_get_len w = len"
    by (rule tag_len_parts)
  with True show ?thesis by simp
qed (simp add: tag_len_new_def maximum_len_def)

theorem tag_len_roundtrip_witness: "\<exists>w. tag_len_new (Tag 1023) 63 = Some w \<and> tag_len_get_len w = 63"
proof -
  have "case tag_len_new (Tag 1023) 63 of
      Some w \<Rightarrow> (63 :: nat) < 64 \<and> tag_len_get_tag w = Tag 1023 \<and> tag_len_get_len w = 63
    | None \<Rightarrow> (63 :: nat) \<ge> 64"
    by (rule tag_len_roundtrip) simp
  then show ?thesis by (auto split: option.splits)
qed

text \<open>
  The initial parameters are recovered from their binary form, and each parameter from its textual form.
\<close>

theorem config_roundtrip:
  "(\<exists>w. initial_ents_serialize ents = Ok w \<and> read_from_raw initial_ents_read w = Ok ents) \<and>
   config_from_cfg (config_to_cfg c) = Ok c"
proof -
  have "read_from_raw initial_ents_read (initial_ents_bytes ents) = Ok ents"
    using initial_ents_read_buf [of "[]" ents]
    by (simp add: read_from_raw_def Let_def read_buf_from_buf expect_end_def left_pending)
  moreover have "config_from_cfg (config_to_cfg c) = Ok c"
  proof (cases c)
    case (ConfigDiscrimination d)
    then show ?thesis
      by (cases d) (simp_all add: config_from_cfg_def config_to_cfg_def discrimination_from_cfg_str_def)
  next
    case (ConfigConsensusVersion v)
    then show ?thesis
      by (cases v) (simp_all add: config_from_cfg_def config_to_cfg_def consensus_from_cfg_str_def
          consensus_from_str_def)
  qed (simp add: config_from_cfg_def config_to_cfg_def date_from_cfg_str_def date_to_cfg_string_def)
  ultimately show ?thesis by (simp add: initial_ents_serialize_eq)
qed

text \<open>
  C40: a consensus supports exactly the block versions that belong to it, and the version of every block header is
  recovered from its number, whether it is supported or not.
\<close>

theorem versions_correct:
  "set (supported_block_versions c) = {v. get_consensus v = Some c} \<and>
   distinct (supported_block_versions c) \<and>
   any_version_into_u16 (any_version_from_u16 n) = n \<and>
   any_version_from_u16 (block_version_u16 v) = Supported v \<and>
   (any_version_eq (any_version_from_u16 n) v \<longleftrightarrow> n = block_version_u16 v)"
proof -
  have "supported_block_versions Bft = [Ed25519Signed]" "supported_block_versions GenesisPraos = [KesVrfproof]"
    by code_simp+
  then have "set (supported_block_versions c) = {v. get_consensus v = Some c} \<and>
      distinct (supported_block_versions c)"
    by (cases c) (auto elim!: get_consensus.elims)
  moreover have "any_version_into_u16 (any_version_from_u16 n) = n"
    by (simp add: any_version_from_u16_def block_version_from_u16_def)
  moreover have "any_version_from_u16 (block_version_u16 v) = Supported v"
    by (cases v) (simp_all add: any_version_from_u16_def block_version_from_u16_def)
  moreover have "any_version_eq (any_version_from_u16 n) v \<longleftrightarrow> n = block_version_u16 v"
    by (cases v) (auto simp: any_version_from_u16_def block_version_from_u16_def)
  ultimately show ?thesis by blast
qed

end
