(* ===== verification/Value.thy ===== *)
theory Value
  imports Mempack Packer
begin

text \<open>
  Amounts and fees: \<^verbatim>\<open>chain-impl-mockchain/src/value.rs\<close> and \<^verbatim>\<open>fee.rs\<close>. The arithmetic of amounts is checked:
  the lemmas read a successful operation as the operation on natural numbers, and a failed one as an overflow
  or an underflow.
\<close>

section \<open>Values\<close>

datatype val = Value (amount: u64)

datatype value_error = NegativeAmount | Overflow

definition value_zero :: val where
  "value_zero = Value 0"

definition value_add :: "val \<Rightarrow> val \<Rightarrow> (val, value_error) outcome" where
  "value_add a b = ok_or Overflow (map_option Value (checked_add (amount a) (amount b)))"

definition value_sub :: "val \<Rightarrow> val \<Rightarrow> (val, value_error) outcome" where
  "value_sub a b = ok_or NegativeAmount (map_option Value (checked_sub (amount a) (amount b)))"

definition value_sum :: "val list \<Rightarrow> (val, value_error) outcome" where
  "value_sum vs = fold (\<lambda>v acc. obind acc (\<lambda>a. value_add a v)) vs (Ok value_zero)"

definition value_read :: "val reader" where
  "value_read b = obind (get_u64 b) (\<lambda>(v, b). Ok (Value v, b))"

definition value_serialize :: "val \<Rightarrow> bytes" where
  "value_serialize v = codec_put_u64 [] (amount v)"

definition value_deserialize :: "val stream_reader" where
  "value_deserialize s = obind (codec_get_u64 s) (\<lambda>(v, s). Ok (Value v, s))"

section \<open>Values as natural numbers\<close>

abbreviation nval :: "val \<Rightarrow> nat" where
  "nval v \<equiv> unat (amount v)"

lemma nval_inject [simp]: "nval a = nval b \<longleftrightarrow> a = b"
  by (cases a; cases b) (simp add: word_unat_eq_iff)

lemma nval_bound: "nval v < 2 ^ 64"
  using unat_bound [of "amount v"] by simp

lemma nval_zero [simp]: "nval value_zero = 0"
  by (simp add: value_zero_def)

lemma value_add_Ok: "value_add a b = Ok c \<longleftrightarrow> nval c = nval a + nval b"
  by (cases c) (auto simp: value_add_def checked_add_Some_iff)

lemma value_add_Err: "value_add a b = Err e \<longleftrightarrow> e = Overflow \<and> 2 ^ 64 \<le> nval a + nval b"
  by (auto simp: value_add_def checked_add_None_iff)

lemma value_sub_Ok: "value_sub a b = Ok c \<longleftrightarrow> nval a = nval b + nval c"
  by (cases c) (auto simp: value_sub_def checked_sub_Some_iff)

lemma value_sub_Err: "value_sub a b = Err e \<longleftrightarrow> e = NegativeAmount \<and> nval a < nval b"
  by (auto simp: value_sub_def checked_sub_None_iff)

lemma value_no_panic [simp]: "value_add a b \<noteq> Panic" "value_sub a b \<noteq> Panic"
  by (simp_all add: value_add_def value_sub_def)

definition nsum :: "val list \<Rightarrow> nat" where
  "nsum vs = sum_list (map nval vs)"

lemma nsum_simps [simp]: "nsum [] = 0" "nsum (v # vs) = nval v + nsum vs"
    "nsum (vs @ ws) = nsum vs + nsum ws"
  by (simp_all add: nsum_def)

lemma value_fold_Err: "fold (\<lambda>v acc. obind acc (\<lambda>a. value_add a v)) vs (Err e) = Err e"
  by (induction vs) auto

lemma value_fold_eq:
  "fold (\<lambda>v acc. obind acc (\<lambda>a. value_add a v)) vs (Ok a) =
     (if nval a + nsum vs < 2 ^ 64 then Ok (Value (word_of_nat (nval a + nsum vs))) else Err Overflow)"
proof (induction vs arbitrary: a)
  case Nil
  show ?case using nval_bound [of a] by (cases a) simp
next
  case (Cons v vs)
  show ?case
  proof (cases "nval a + nval v < 2 ^ 64")
    case True
    define c where "c = Value (word_of_nat (nval a + nval v))"
    have c: "nval c = nval a + nval v"
      unfolding c_def val.sel using True by (intro unat_word_of_nat_small) simp
    then have "value_add a v = Ok c" by (simp add: value_add_Ok)
    then have "fold (\<lambda>v acc. obind acc (\<lambda>a. value_add a v)) (v # vs) (Ok a) =
        fold (\<lambda>v acc. obind acc (\<lambda>a. value_add a v)) vs (Ok c)" by simp
    also note Cons.IH [of c]
    also have "nval c + nsum vs = nval a + nsum (v # vs)" using c by simp
    finally show ?thesis .
  next
    case False
    then have "value_add a v = Err Overflow" by (simp add: value_add_Err)
    with False show ?thesis by (simp add: value_fold_Err)
  qed
qed

lemma value_sum_eq:
  "value_sum vs = (if nsum vs < 2 ^ 64 then Ok (Value (word_of_nat (nsum vs))) else Err Overflow)"
  using value_fold_eq [of vs value_zero] by (simp add: value_sum_def)

lemma value_sum_Ok: "value_sum vs = Ok v \<longleftrightarrow> nval v = nsum vs"
  using nval_bound [of v]
  by (cases v) (auto simp: value_sum_eq unat_of_nat word_unat_eq_iff simp del: unsigned_less)

lemma value_sum_no_panic [simp]: "value_sum vs \<noteq> Panic"
  by (simp add: value_sum_eq)

interpretation value_codec: codec "\<lambda>_. True" value_serialize value_read
proof
  fix x b rest
  assume "pending b = value_serialize x @ rest"
  then show "value_read b = Ok (x, adv (length (value_serialize x)) b)"
    using u64_codec.read_ser [where x = "amount x" and b = b and rest = rest]
    by (simp add: value_serialize_def value_read_def codec_put_defs)
qed

lemmas value_read_buf [read_simps] = value_codec.read_buf [OF TrueI]

interpretation stream_value: stream_codec "\<lambda>_. True" value_serialize value_deserialize
proof
  fix x rest
  show "value_deserialize (value_serialize x @ rest) = Ok (x, rest)"
    using stream_u64.stream_read_ser [where x = "amount x" and rest = rest]
    by (simp add: value_serialize_def value_deserialize_def codec_put_defs)
qed

lemma length_value_serialize [simp]: "length (value_serialize v) = 8"
  by (simp add: value_serialize_def codec_put_defs)

section \<open>Fees\<close>

record linear_fee =
  fee_constant :: u64
  fee_coefficient :: u64
  fee_certificate :: u64

definition linear_fee_new :: "u64 \<Rightarrow> u64 \<Rightarrow> u64 \<Rightarrow> linear_fee" where
  "linear_fee_new c k cert = \<lparr> fee_constant = c, fee_coefficient = k, fee_certificate = cert \<rparr>"

text \<open>The fee depends on the transaction through the numbers of its inputs and outputs only.\<close>

definition calculate_for :: "linear_fee \<Rightarrow> 'i list \<Rightarrow> 'o list \<Rightarrow> val option" where
  "calculate_for fee inputs outputs =
     Option.bind (checked_add (word_of_nat (length inputs)) (word_of_nat (length outputs)))
       (\<lambda>msz. Option.bind (checked_mul (fee_coefficient fee) msz)
         (\<lambda>m. Option.bind (checked_add m (fee_constant fee)) (\<lambda>f. Some (Value f))))"

lemma calculate_for_Some:
  assumes "length inputs < 2 ^ 64" and "length outputs < 2 ^ 64"
  shows "calculate_for fee inputs outputs = Some v \<longleftrightarrow>
     length inputs + length outputs < 2 ^ 64 \<and>
     nval v = unat (fee_coefficient fee) * (length inputs + length outputs) + unat (fee_constant fee)"
proof -
  have i: "unat (word_of_nat (length inputs) :: u64) = length inputs"
    and o': "unat (word_of_nat (length outputs) :: u64) = length outputs"
    using assms by (simp_all add: unat_of_nat)
  show ?thesis
  proof (cases "length inputs + length outputs < 2 ^ 64")
    case True
    define n :: u64 where "n = word_of_nat (length inputs + length outputs)"
    have n: "unat n = length inputs + length outputs" unfolding n_def using True by (intro unat_word_of_nat_small) simp
    then have "checked_add (word_of_nat (length inputs)) (word_of_nat (length outputs)) = Some n"
      using i o' by (simp add: checked_add_Some_iff)
    then have eq: "calculate_for fee inputs outputs =
        Option.bind (checked_mul (fee_coefficient fee) n)
          (\<lambda>m. Option.bind (checked_add m (fee_constant fee)) (\<lambda>f. Some (Value f)))"
      by (simp add: calculate_for_def)
    show ?thesis
    proof (cases "checked_mul (fee_coefficient fee) n")
      case None
      then have "2 ^ 64 \<le> unat (fee_coefficient fee) * unat n" by (simp add: checked_mul_None_iff)
      then have "nval v \<noteq> unat (fee_coefficient fee) * unat n + unat (fee_constant fee)"
        using nval_bound [of v] by linarith
      with None eq n show ?thesis by simp
    next
      case (Some m)
      then have "unat m = unat (fee_coefficient fee) * unat n" by (simp add: checked_mul_Some_iff)
      with Some eq n True show ?thesis
        by (cases v) (simp add: bind_eq_Some_conv checked_add_Some_iff)
    qed
  next
    case False
    with i o' have "checked_add (word_of_nat (length inputs)) (word_of_nat (length outputs)) =
        (None :: u64 option)"
      by (simp add: checked_add_None_iff)
    with False show ?thesis by (simp add: calculate_for_def)
  qed
qed

end
