(* ===== verification/Setting.thy ===== *)
theory Setting
  imports Config Value
begin

text \<open>
  The settings of the chain and the proposals that change them, \<^verbatim>\<open>chain-impl-mockchain/src/setting.rs\<close>, with
  the identifiers of the BFT leaders of \<^verbatim>\<open>leadership/bft.rs\<close>.
\<close>

datatype leader_id = LeaderId (leader_key: pubkey)

definition leader_id_serialize :: "leader_id \<Rightarrow> bytes" where
  "leader_id_serialize l = serialize_public_key (leader_key l) []"

definition leader_id_read :: "leader_id reader" where
  "leader_id_read b = obind (deserialize_public_key 32 public_from_binary b) (\<lambda>(k, b). Ok (LeaderId k, b))"

record update_proposal =
  up_max_number_of_transactions_per_block :: "u32 option"
  up_bootstrap_key_slots_percentage :: "u8 option"
  up_consensus_version :: "consensus_version option"
  up_bft_leaders :: "leader_id list option"
  up_allow_account_creation :: "bool option"
  up_linear_fees :: "linear_fee option"
  up_slot_duration :: "u8 option"
  up_epoch_stability_depth :: "u32 option"

definition update_proposal_new :: update_proposal where
  "update_proposal_new =
     \<lparr> up_max_number_of_transactions_per_block = None, up_bootstrap_key_slots_percentage = None,
       up_consensus_version = None, up_bft_leaders = None, up_allow_account_creation = None,
       up_linear_fees = None, up_slot_duration = None, up_epoch_stability_depth = None \<rparr>"

datatype update_tag =
    TagEnd | TagMaxNumberOfTransactionsPerBlock | TagBootstrapKeySlotsPercentage | TagConsensusVersion
  | TagBftLeaders | TagAllowAccountCreation | TagLinearFee | TagSlotDuration | TagEpochStabilityDepth

fun update_tag_u16 :: "update_tag \<Rightarrow> u16" where
  "update_tag_u16 TagEnd = 0"
| "update_tag_u16 TagMaxNumberOfTransactionsPerBlock = 1"
| "update_tag_u16 TagBootstrapKeySlotsPercentage = 2"
| "update_tag_u16 TagConsensusVersion = 3"
| "update_tag_u16 TagBftLeaders = 4"
| "update_tag_u16 TagAllowAccountCreation = 5"
| "update_tag_u16 TagLinearFee = 6"
| "update_tag_u16 TagSlotDuration = 7"
| "update_tag_u16 TagEpochStabilityDepth = 8"

definition update_tag_from_u16 :: "u16 \<Rightarrow> update_tag option" where
  "update_tag_from_u16 n =
     (if n = 0 then Some TagEnd
      else if n = 1 then Some TagMaxNumberOfTransactionsPerBlock
      else if n = 2 then Some TagBootstrapKeySlotsPercentage
      else if n = 3 then Some TagConsensusVersion
      else if n = 4 then Some TagBftLeaders
      else if n = 5 then Some TagAllowAccountCreation
      else if n = 6 then Some TagLinearFee
      else if n = 7 then Some TagSlotDuration
      else if n = 8 then Some TagEpochStabilityDepth
      else None)"

definition put_tag :: "bytes \<Rightarrow> update_tag \<Rightarrow> bytes" where
  "put_tag w t = codec_put_u16 w (update_tag_u16 t)"

definition opt_put :: "'a option \<Rightarrow> (bytes \<Rightarrow> 'a \<Rightarrow> bytes) \<Rightarrow> bytes \<Rightarrow> bytes" where
  "opt_put x f w = (case x of None \<Rightarrow> w | Some v \<Rightarrow> f w v)"

definition update_proposal_serialize :: "update_proposal \<Rightarrow> bytes" where
  "update_proposal_serialize u =
     (let w = opt_put (up_max_number_of_transactions_per_block u)
            (\<lambda>w v. codec_put_u32 (put_tag w TagMaxNumberOfTransactionsPerBlock) v) [];
          w = opt_put (up_bootstrap_key_slots_percentage u)
            (\<lambda>w v. codec_put_u8 (put_tag w TagBootstrapKeySlotsPercentage) v) w;
          w = opt_put (up_consensus_version u)
            (\<lambda>w v. codec_put_u16 (put_tag w TagConsensusVersion) (consensus_u16 v)) w;
          w = opt_put (up_bft_leaders u)
            (\<lambda>w v. codec_put_u8 (put_tag w TagBftLeaders) (word_of_nat (length v)) @
                     concat (map leader_id_serialize v)) w;
          w = opt_put (up_allow_account_creation u)
            (\<lambda>w v. codec_put_u8 (put_tag w TagAllowAccountCreation) (if v then 1 else 0)) w;
          w = opt_put (up_linear_fees u)
            (\<lambda>w v. codec_put_u64 (codec_put_u64 (codec_put_u64 (put_tag w TagLinearFee)
                     (fee_constant v)) (fee_coefficient v)) (fee_certificate v)) w;
          w = opt_put (up_slot_duration u)
            (\<lambda>w v. codec_put_u8 (put_tag w TagSlotDuration) v) w;
          w = opt_put (up_epoch_stability_depth u)
            (\<lambda>w v. codec_put_u32 (put_tag w TagEpochStabilityDepth) v) w
      in put_tag w TagEnd)"

text \<open>One round of the loop of \<^verbatim>\<open>read\<close>, after the tag: the field that follows it.\<close>

definition update_read_field :: "update_tag \<Rightarrow> update_proposal \<Rightarrow> update_proposal reader" where
  "update_read_field t u b =
     (case t of
        TagEnd \<Rightarrow> Ok (u, b)
      | TagMaxNumberOfTransactionsPerBlock \<Rightarrow>
          obind (get_u32 b) (\<lambda>(v, b). Ok (u\<lparr>up_max_number_of_transactions_per_block := Some v\<rparr>, b))
      | TagBootstrapKeySlotsPercentage \<Rightarrow>
          obind (get_u8 b) (\<lambda>(v, b). Ok (u\<lparr>up_bootstrap_key_slots_percentage := Some v\<rparr>, b))
      | TagConsensusVersion \<Rightarrow>
          obind (get_u16 b) (\<lambda>(n, b).
            obind (ok_or (StructureInvalid (''Unrecognized consensus version '' @ show_word n))
                (consensus_from_u16 n))
              (\<lambda>v. Ok (u\<lparr>up_consensus_version := Some v\<rparr>, b)))
      | TagBftLeaders \<Rightarrow>
          obind (get_u8 b) (\<lambda>(len, b).
            obind (read_vec leader_id_read (unat len) b) (\<lambda>(v, b). Ok (u\<lparr>up_bft_leaders := Some v\<rparr>, b)))
      | TagAllowAccountCreation \<Rightarrow>
          obind (get_u8 b) (\<lambda>(v, b). Ok (u\<lparr>up_allow_account_creation := Some (v \<noteq> 0)\<rparr>, b))
      | TagLinearFee \<Rightarrow>
          obind (get_u64 b) (\<lambda>(x, b). obind (get_u64 b) (\<lambda>(y, b). obind (get_u64 b) (\<lambda>(z, b).
            Ok (u\<lparr>up_linear_fees :=
                 Some \<lparr> fee_constant = x, fee_coefficient = y, fee_certificate = z \<rparr>\<rparr>, b))))
      | TagSlotDuration \<Rightarrow>
          obind (get_u8 b) (\<lambda>(v, b). Ok (u\<lparr>up_slot_duration := Some v\<rparr>, b))
      | TagEpochStabilityDepth \<Rightarrow>
          obind (get_u32 b) (\<lambda>(v, b). Ok (u\<lparr>up_epoch_stability_depth := Some v\<rparr>, b)))"

section \<open>The loop ends\<close>

named_theorems reader_left \<open>readers do not give back bytes\<close>

lemma get_left [reader_left]:
  "get_u8 b = Ok (v8, b') \<Longrightarrow> rb_left b' \<le> rb_left b"
  "get_u16 b = Ok (v16, b') \<Longrightarrow> rb_left b' + 2 = rb_left b"
  "get_u32 b = Ok (v32, b') \<Longrightarrow> rb_left b' \<le> rb_left b"
  "get_u64 b = Ok (v64, b') \<Longrightarrow> rb_left b' \<le> rb_left b"
proof -
  show "get_u8 b = Ok (v8, b') \<Longrightarrow> rb_left b' \<le> rb_left b"
    by (auto simp: get_u8_eq left_pending split: list.splits)
  show "get_u16 b = Ok (v16, b') \<Longrightarrow> rb_left b' + 2 = rb_left b"
    by (auto simp: get_u16_def dest: get_slice_left)
  show "get_u32 b = Ok (v32, b') \<Longrightarrow> rb_left b' \<le> rb_left b"
    by (force simp: get_u32_def dest: get_slice_left)
  show "get_u64 b = Ok (v64, b') \<Longrightarrow> rb_left b' \<le> rb_left b"
    by (force simp: get_u64_def dest: get_slice_left)
qed

lemma read_vec_left:
  assumes "\<And>b x b'. rd b = Ok (x, b') \<Longrightarrow> rb_left b' \<le> rb_left b"
  shows "read_vec rd n b = Ok (xs, b') \<Longrightarrow> rb_left b' \<le> rb_left b"
proof (induction n arbitrary: b xs)
  case (Suc n)
  then obtain t c where "rd b = Ok (t, c)" "\<exists>v. read_vec rd n c = Ok (v, b')" by auto
  with Suc.IH assms show ?case by (meson order_trans)
qed simp

lemma read_u8s_left [reader_left]: "read_vec get_u8 n b = Ok (xs, b') \<Longrightarrow> rb_left b' \<le> rb_left b"
  by (rule read_vec_left) (rule get_left(1))

lemma leader_id_read_left: "leader_id_read b = Ok (x, b') \<Longrightarrow> rb_left b' \<le> rb_left b"
  by (auto simp: leader_id_read_def deserialize_public_key_def read_mut_slice_eq dest!: reader_left)

lemma leaders_read_left [reader_left]:
  "read_vec leader_id_read n b = Ok (xs, b') \<Longrightarrow> rb_left b' \<le> rb_left b"
  by (rule read_vec_left) (rule leader_id_read_left)

lemma update_read_field_left: "update_read_field t u b = Ok (u', b') \<Longrightarrow> rb_left b' \<le> rb_left b"
  by (cases t)
    (auto simp: update_read_field_def dest!: reader_left)

function update_read_loop :: "update_proposal \<Rightarrow> update_proposal reader" where
  "update_read_loop u b =
     (case get_u16 b of
        Ok (n, b1) \<Rightarrow>
          (case update_tag_from_u16 n of
             None \<Rightarrow> Panic
           | Some t \<Rightarrow>
               if t = TagEnd then Ok (u, b1)
               else (case update_read_field t u b1 of
                       Ok (u', b2) \<Rightarrow> update_read_loop u' b2
                     | Err e \<Rightarrow> Err e
                     | Panic \<Rightarrow> Panic))
      | Err e \<Rightarrow> Err e
      | Panic \<Rightarrow> Panic)"
  by pat_completeness auto
termination update_read_loop
proof (relation "measure (\<lambda>(_, b). rb_left b)", goal_cases)
  case (2 u b r n b1 t x u' b2)
  then show ?case using get_left(2) [of b n b1] update_read_field_left [of t u b1 u' b2] by auto
qed simp

declare update_read_loop.simps [simp del]

definition update_proposal_read :: "update_proposal reader" where
  "update_proposal_read b = update_read_loop update_proposal_new b"

section \<open>Reading back a proposal\<close>

interpretation leader_codec: codec "\<lambda>_. True" leader_id_serialize leader_id_read
proof (rule codecI)
  fix x pre rest
  show "leader_id_read (buf pre (leader_id_serialize x @ rest)) = Ok (x, buf (pre @ leader_id_serialize x) rest)"
    by (simp add: leader_id_read_def leader_id_serialize_def read_simps)
  show "leader_id_serialize x \<noteq> []" by (simp add: leader_id_serialize_def flip: length_0_conv)
qed

definition proposal_fits :: "update_proposal \<Rightarrow> bool" where
  "proposal_fits u \<longleftrightarrow> (case up_bft_leaders u of None \<Rightarrow> True | Some ls \<Rightarrow> length ls < 256)"

lemma tag_from_u16_u16 [simp]: "update_tag_from_u16 (update_tag_u16 t) = Some t"
  by (cases t) (simp_all add: update_tag_from_u16_def)

definition field_bytes :: "update_tag \<Rightarrow> ('a \<Rightarrow> bytes) \<Rightarrow> 'a option \<Rightarrow> bytes" where
  "field_bytes t f x = (case x of None \<Rightarrow> [] | Some v \<Rightarrow> to_be_bytes (update_tag_u16 t) @ f v)"

definition leaders_bytes :: "leader_id list \<Rightarrow> bytes" where
  "leaders_bytes ls = word_of_nat (length ls) # concat (map leader_id_serialize ls)"

definition fee_bytes :: "linear_fee \<Rightarrow> bytes" where
  "fee_bytes f = to_be_bytes (fee_constant f) @ to_be_bytes (fee_coefficient f) @ to_be_bytes (fee_certificate f)"

lemma update_proposal_serialize_eq:
  "update_proposal_serialize u =
     field_bytes TagMaxNumberOfTransactionsPerBlock to_be_bytes (up_max_number_of_transactions_per_block u) @
     field_bytes TagBootstrapKeySlotsPercentage (\<lambda>v. [v]) (up_bootstrap_key_slots_percentage u) @
     field_bytes TagConsensusVersion (\<lambda>v. to_be_bytes (consensus_u16 v)) (up_consensus_version u) @
     field_bytes TagBftLeaders leaders_bytes (up_bft_leaders u) @
     field_bytes TagAllowAccountCreation (\<lambda>v. [if v then 1 else 0]) (up_allow_account_creation u) @
     field_bytes TagLinearFee fee_bytes (up_linear_fees u) @
     field_bytes TagSlotDuration (\<lambda>v. [v]) (up_slot_duration u) @
     field_bytes TagEpochStabilityDepth to_be_bytes (up_epoch_stability_depth u) @
     to_be_bytes (update_tag_u16 TagEnd)"
proof -
  have "opt_put x (\<lambda>w v. w @ to_be_bytes (update_tag_u16 t) @ f v) w = w @ field_bytes t f x" for x t f w
    by (simp add: opt_put_def field_bytes_def split: option.split)
  note put = this [simplified]
  show ?thesis
    unfolding update_proposal_serialize_def Let_def put_tag_def codec_put_defs append_assoc
    by (simp only: put append_assoc append_Nil)
       (simp add: field_bytes_def leaders_bytes_def fee_bytes_def split: option.split)
qed

text \<open>The loop reads a field that is present, and passes over one that is not.\<close>

lemma update_loop_step:
  assumes "t \<noteq> TagEnd" and "\<And>v pre. x = Some v \<Longrightarrow>
      update_read_field t u (buf pre (f v @ rest)) = Ok (set' (Some v) u, buf (pre @ f v) rest)"
    and "x = None \<Longrightarrow> set' x u = u"
  shows "update_read_loop u (buf pre (field_bytes t f x @ rest)) =
    update_read_loop (set' x u) (buf (pre @ field_bytes t f x) rest)"
proof (cases x)
  case (Some v)
  then show ?thesis
    using assms by (simp add: update_read_loop.simps [of u] field_bytes_def read_simps)
qed (use assms in \<open>simp add: field_bytes_def\<close>)

lemmas field_simps = update_read_field_def read_simps leaders_bytes_def fee_bytes_def
  leader_codec.read_vec_buf

text \<open>One equation per field: reading it sets it.\<close>

lemma update_loop_fields:
  "up_max_number_of_transactions_per_block u = None \<Longrightarrow> 
     update_read_loop u (buf pre (field_bytes TagMaxNumberOfTransactionsPerBlock to_be_bytes xmax @ rest)) =
       update_read_loop (u\<lparr>up_max_number_of_transactions_per_block := xmax\<rparr>) (buf (pre @ field_bytes TagMaxNumberOfTransactionsPerBlock to_be_bytes xmax) rest)"
  "up_bootstrap_key_slots_percentage u = None \<Longrightarrow> 
     update_read_loop u (buf pre (field_bytes TagBootstrapKeySlotsPercentage (\<lambda>v. [v]) xpercentage @ rest)) =
       update_read_loop (u\<lparr>up_bootstrap_key_slots_percentage := xpercentage\<rparr>) (buf (pre @ field_bytes TagBootstrapKeySlotsPercentage (\<lambda>v. [v]) xpercentage) rest)"
  "up_consensus_version u = None \<Longrightarrow> 
     update_read_loop u (buf pre (field_bytes TagConsensusVersion (\<lambda>v. to_be_bytes (consensus_u16 v)) xconsensus @ rest)) =
       update_read_loop (u\<lparr>up_consensus_version := xconsensus\<rparr>) (buf (pre @ field_bytes TagConsensusVersion (\<lambda>v. to_be_bytes (consensus_u16 v)) xconsensus) rest)"
  "up_bft_leaders u = None \<Longrightarrow> (case xleaders of None \<Rightarrow> True | Some ls \<Rightarrow> length ls < 256) \<Longrightarrow> 
     update_read_loop u (buf pre (field_bytes TagBftLeaders leaders_bytes xleaders @ rest)) =
       update_read_loop (u\<lparr>up_bft_leaders := xleaders\<rparr>) (buf (pre @ field_bytes TagBftLeaders leaders_bytes xleaders) rest)"
  "up_allow_account_creation u = None \<Longrightarrow> 
     update_read_loop u (buf pre (field_bytes TagAllowAccountCreation (\<lambda>v. [if v then 1 else 0]) xaccount @ rest)) =
       update_read_loop (u\<lparr>up_allow_account_creation := xaccount\<rparr>) (buf (pre @ field_bytes TagAllowAccountCreation (\<lambda>v. [if v then 1 else 0]) xaccount) rest)"
  "up_linear_fees u = None \<Longrightarrow> 
     update_read_loop u (buf pre (field_bytes TagLinearFee fee_bytes xfee @ rest)) =
       update_read_loop (u\<lparr>up_linear_fees := xfee\<rparr>) (buf (pre @ field_bytes TagLinearFee fee_bytes xfee) rest)"
  "up_slot_duration u = None \<Longrightarrow> 
     update_read_loop u (buf pre (field_bytes TagSlotDuration (\<lambda>v. [v]) xslot @ rest)) =
       update_read_loop (u\<lparr>up_slot_duration := xslot\<rparr>) (buf (pre @ field_bytes TagSlotDuration (\<lambda>v. [v]) xslot) rest)"
  "up_epoch_stability_depth u = None \<Longrightarrow> 
     update_read_loop u (buf pre (field_bytes TagEpochStabilityDepth to_be_bytes xdepth @ rest)) =
       update_read_loop (u\<lparr>up_epoch_stability_depth := xdepth\<rparr>) (buf (pre @ field_bytes TagEpochStabilityDepth to_be_bytes xdepth) rest)"
proof -
  show "update_read_loop u (buf pre (field_bytes TagMaxNumberOfTransactionsPerBlock to_be_bytes xmax @ rest)) =
      update_read_loop (u\<lparr>up_max_number_of_transactions_per_block := xmax\<rparr>) (buf (pre @ field_bytes TagMaxNumberOfTransactionsPerBlock to_be_bytes xmax) rest)" if "up_max_number_of_transactions_per_block u = None"
    by (rule update_loop_step [where set' = "\<lambda>x. up_max_number_of_transactions_per_block_update (\<lambda>_. x)"]) (use that in \<open>auto simp: field_simps unat_of_nat\<close>)
  show "update_read_loop u (buf pre (field_bytes TagBootstrapKeySlotsPercentage (\<lambda>v. [v]) xpercentage @ rest)) =
      update_read_loop (u\<lparr>up_bootstrap_key_slots_percentage := xpercentage\<rparr>) (buf (pre @ field_bytes TagBootstrapKeySlotsPercentage (\<lambda>v. [v]) xpercentage) rest)" if "up_bootstrap_key_slots_percentage u = None"
    by (rule update_loop_step [where set' = "\<lambda>x. up_bootstrap_key_slots_percentage_update (\<lambda>_. x)"]) (use that in \<open>auto simp: field_simps unat_of_nat\<close>)
  show "update_read_loop u (buf pre (field_bytes TagConsensusVersion (\<lambda>v. to_be_bytes (consensus_u16 v)) xconsensus @ rest)) =
      update_read_loop (u\<lparr>up_consensus_version := xconsensus\<rparr>) (buf (pre @ field_bytes TagConsensusVersion (\<lambda>v. to_be_bytes (consensus_u16 v)) xconsensus) rest)" if "up_consensus_version u = None"
    by (rule update_loop_step [where set' = "\<lambda>x. up_consensus_version_update (\<lambda>_. x)"]) (use that in \<open>auto simp: field_simps unat_of_nat\<close>)
  show "update_read_loop u (buf pre (field_bytes TagBftLeaders leaders_bytes xleaders @ rest)) =
      update_read_loop (u\<lparr>up_bft_leaders := xleaders\<rparr>) (buf (pre @ field_bytes TagBftLeaders leaders_bytes xleaders) rest)" if "up_bft_leaders u = None" "case xleaders of None \<Rightarrow> True | Some ls \<Rightarrow> length ls < 256"
    by (rule update_loop_step [where set' = "\<lambda>x. up_bft_leaders_update (\<lambda>_. x)"]) (use that in \<open>auto simp: field_simps unat_of_nat\<close>)
  show "update_read_loop u (buf pre (field_bytes TagAllowAccountCreation (\<lambda>v. [if v then 1 else 0]) xaccount @ rest)) =
      update_read_loop (u\<lparr>up_allow_account_creation := xaccount\<rparr>) (buf (pre @ field_bytes TagAllowAccountCreation (\<lambda>v. [if v then 1 else 0]) xaccount) rest)" if "up_allow_account_creation u = None"
    by (rule update_loop_step [where set' = "\<lambda>x. up_allow_account_creation_update (\<lambda>_. x)"]) (use that in \<open>auto simp: field_simps unat_of_nat\<close>)
  show "update_read_loop u (buf pre (field_bytes TagLinearFee fee_bytes xfee @ rest)) =
      update_read_loop (u\<lparr>up_linear_fees := xfee\<rparr>) (buf (pre @ field_bytes TagLinearFee fee_bytes xfee) rest)" if "up_linear_fees u = None"
    by (rule update_loop_step [where set' = "\<lambda>x. up_linear_fees_update (\<lambda>_. x)"]) (use that in \<open>auto simp: field_simps unat_of_nat\<close>)
  show "update_read_loop u (buf pre (field_bytes TagSlotDuration (\<lambda>v. [v]) xslot @ rest)) =
      update_read_loop (u\<lparr>up_slot_duration := xslot\<rparr>) (buf (pre @ field_bytes TagSlotDuration (\<lambda>v. [v]) xslot) rest)" if "up_slot_duration u = None"
    by (rule update_loop_step [where set' = "\<lambda>x. up_slot_duration_update (\<lambda>_. x)"]) (use that in \<open>auto simp: field_simps unat_of_nat\<close>)
  show "update_read_loop u (buf pre (field_bytes TagEpochStabilityDepth to_be_bytes xdepth @ rest)) =
      update_read_loop (u\<lparr>up_epoch_stability_depth := xdepth\<rparr>) (buf (pre @ field_bytes TagEpochStabilityDepth to_be_bytes xdepth) rest)" if "up_epoch_stability_depth u = None"
    by (rule update_loop_step [where set' = "\<lambda>x. up_epoch_stability_depth_update (\<lambda>_. x)"]) (use that in \<open>auto simp: field_simps unat_of_nat\<close>)
qed

lemma update_loop_end:
  "update_read_loop u (buf pre (to_be_bytes (update_tag_u16 TagEnd) @ rest)) =
     Ok (u, buf (pre @ to_be_bytes (update_tag_u16 TagEnd)) rest)"
  by (simp add: update_read_loop.simps [of u] read_simps del: update_tag_u16.simps)

interpretation update_codec: codec proposal_fits update_proposal_serialize update_proposal_read
proof (rule codecI)
  fix u pre rest
  assume u: "proposal_fits u"
  show "update_proposal_read (buf pre (update_proposal_serialize u @ rest)) =
      Ok (u, buf (pre @ update_proposal_serialize u) rest)"
    using u
    by (simp add: update_proposal_serialize_eq update_proposal_read_def proposal_fits_def update_loop_fields
        update_loop_end update_proposal_new_def del: update_tag_u16.simps)
  show "update_proposal_serialize u \<noteq> []"
    by (simp add: update_proposal_serialize_eq flip: length_0_conv)
qed

section \<open>Settings\<close>

record settings =
  max_number_of_transactions_per_block :: u32
  bootstrap_key_slots_percentage :: u8
  consensus_version :: consensus_version
  bft_leaders :: "leader_id list"
  allow_account_creation :: bool
  linear_fees :: linear_fee
  setting_slot_duration :: u8
  epoch_stability_depth :: nat

definition slots_percentage_range :: u8 where
  "slots_percentage_range = 100"

definition settings_new :: settings where
  "settings_new =
     \<lparr> max_number_of_transactions_per_block = 100,
       bootstrap_key_slots_percentage = slots_percentage_range,
       consensus_version = Bft, bft_leaders = [], allow_account_creation = False,
       linear_fees = linear_fee_new 0 0 0, setting_slot_duration = 10, epoch_stability_depth = 10 \<rparr>"

definition set_opt :: "('a \<Rightarrow> settings \<Rightarrow> settings) \<Rightarrow> 'a option \<Rightarrow> settings \<Rightarrow> settings" where
  "set_opt f x s = (case x of None \<Rightarrow> s | Some v \<Rightarrow> f v s)"

definition settings_apply :: "settings \<Rightarrow> update_proposal \<Rightarrow> settings" where
  "settings_apply s u =
     (let s = set_opt (\<lambda>v s. s\<lparr>max_number_of_transactions_per_block := v\<rparr>)
            (up_max_number_of_transactions_per_block u) s;
          s = set_opt (\<lambda>v s. s\<lparr>bootstrap_key_slots_percentage := v\<rparr>) (up_bootstrap_key_slots_percentage u) s;
          s = set_opt (\<lambda>v s. s\<lparr>consensus_version := v\<rparr>) (up_consensus_version u) s;
          s = set_opt (\<lambda>v s. s\<lparr>bft_leaders := v\<rparr>) (up_bft_leaders u) s;
          s = set_opt (\<lambda>v s. s\<lparr>allow_account_creation := v\<rparr>) (up_allow_account_creation u) s;
          s = set_opt (\<lambda>v s. s\<lparr>linear_fees := v\<rparr>) (up_linear_fees u) s;
          s = set_opt (\<lambda>v s. s\<lparr>setting_slot_duration := v\<rparr>) (up_slot_duration u) s
      in set_opt (\<lambda>v s. s\<lparr>epoch_stability_depth := unat v\<rparr>) (up_epoch_stability_depth u) s)"

definition or_else :: "'a option \<Rightarrow> 'a option \<Rightarrow> 'a option" where
  "or_else x y = (case x of None \<Rightarrow> y | Some _ \<Rightarrow> x)"

text \<open>The proposal that has the effect of one proposal after another.\<close>

definition proposal_then :: "update_proposal \<Rightarrow> update_proposal \<Rightarrow> update_proposal" where
  "proposal_then u v =
     \<lparr> up_max_number_of_transactions_per_block =
         or_else (up_max_number_of_transactions_per_block v) (up_max_number_of_transactions_per_block u),
       up_bootstrap_key_slots_percentage =
         or_else (up_bootstrap_key_slots_percentage v) (up_bootstrap_key_slots_percentage u),
       up_consensus_version = or_else (up_consensus_version v) (up_consensus_version u),
       up_bft_leaders = or_else (up_bft_leaders v) (up_bft_leaders u),
       up_allow_account_creation = or_else (up_allow_account_creation v) (up_allow_account_creation u),
       up_linear_fees = or_else (up_linear_fees v) (up_linear_fees u),
       up_slot_duration = or_else (up_slot_duration v) (up_slot_duration u),
       up_epoch_stability_depth = or_else (up_epoch_stability_depth v) (up_epoch_stability_depth u) \<rparr>"

lemma set_opt_fields:
  "set_opt (\<lambda>v s. s\<lparr>max_number_of_transactions_per_block := v\<rparr>) x0 s = s\<lparr>max_number_of_transactions_per_block := case_option (max_number_of_transactions_per_block s) (\<lambda>v. v) x0\<rparr>"
  "set_opt (\<lambda>v s. s\<lparr>bootstrap_key_slots_percentage := v\<rparr>) x1 s = s\<lparr>bootstrap_key_slots_percentage := case_option (bootstrap_key_slots_percentage s) (\<lambda>v. v) x1\<rparr>"
  "set_opt (\<lambda>v s. s\<lparr>consensus_version := v\<rparr>) x2 s = s\<lparr>consensus_version := case_option (consensus_version s) (\<lambda>v. v) x2\<rparr>"
  "set_opt (\<lambda>v s. s\<lparr>bft_leaders := v\<rparr>) x3 s = s\<lparr>bft_leaders := case_option (bft_leaders s) (\<lambda>v. v) x3\<rparr>"
  "set_opt (\<lambda>v s. s\<lparr>allow_account_creation := v\<rparr>) x4 s = s\<lparr>allow_account_creation := case_option (allow_account_creation s) (\<lambda>v. v) x4\<rparr>"
  "set_opt (\<lambda>v s. s\<lparr>linear_fees := v\<rparr>) x5 s = s\<lparr>linear_fees := case_option (linear_fees s) (\<lambda>v. v) x5\<rparr>"
  "set_opt (\<lambda>v s. s\<lparr>setting_slot_duration := v\<rparr>) x6 s = s\<lparr>setting_slot_duration := case_option (setting_slot_duration s) (\<lambda>v. v) x6\<rparr>"
  "set_opt (\<lambda>v s. s\<lparr>epoch_stability_depth := unat v\<rparr>) x7 s = s\<lparr>epoch_stability_depth := case_option (epoch_stability_depth s) (\<lambda>v. unat v) x7\<rparr>"
  by (simp_all add: set_opt_def split: option.split)

lemma settings_apply_fields:
  "settings_apply s u =
     \<lparr> max_number_of_transactions_per_block =
         case_option (max_number_of_transactions_per_block s) (\<lambda>v. v) (up_max_number_of_transactions_per_block u),
       bootstrap_key_slots_percentage =
         case_option (bootstrap_key_slots_percentage s) (\<lambda>v. v) (up_bootstrap_key_slots_percentage u),
       consensus_version = case_option (consensus_version s) (\<lambda>v. v) (up_consensus_version u),
       bft_leaders = case_option (bft_leaders s) (\<lambda>v. v) (up_bft_leaders u),
       allow_account_creation = case_option (allow_account_creation s) (\<lambda>v. v) (up_allow_account_creation u),
       linear_fees = case_option (linear_fees s) (\<lambda>v. v) (up_linear_fees u),
       setting_slot_duration = case_option (setting_slot_duration s) (\<lambda>v. v) (up_slot_duration u),
       epoch_stability_depth = case_option (epoch_stability_depth s) unat (up_epoch_stability_depth u) \<rparr>"
  by (cases s) (simp add: settings_apply_def Let_def set_opt_fields cong: option.case_cong)

lemma case_or_else:
  "case_option (case_option a f x) f y = case_option a f (or_else y x)"
  "case_option (case_option a f x) f x = case_option a f x"
  by (simp_all add: or_else_def split: option.split)

section \<open>Properties\<close>

text \<open>
  a proposal with at most 255 leaders is recovered from its binary form, whichever of its fields are set, and
  bytes that follow it are left for the next reader.
\<close>

theorem update_proposal_roundtrip:
  assumes "proposal_fits u"
  shows "update_proposal_read (read_buf_from (update_proposal_serialize u @ rest)) =
      Ok (u, buf (update_proposal_serialize u) rest) \<and>
    read_from_raw update_proposal_read (update_proposal_serialize u) = Ok u"
  using update_codec.read_buf [OF assms, of "[]" rest] update_codec.read_from_raw_ser [OF assms]
  by (simp add: read_buf_from_buf)

theorem update_proposal_roundtrip_witness:
  "read_from_raw update_proposal_read
     (update_proposal_serialize (update_proposal_new\<lparr>up_slot_duration := Some 7\<rparr>)) =
   Ok (update_proposal_new\<lparr>up_slot_duration := Some 7\<rparr>)"
  using update_proposal_roundtrip [of "update_proposal_new\<lparr>up_slot_duration := Some 7\<rparr>" "[]"]
  by (simp add: proposal_fits_def update_proposal_new_def)

text \<open>
  Applying two proposals in turn is applying the one that prefers the fields of the later; applying a proposal
  twice changes nothing more, and the empty proposal changes nothing.
\<close>

theorem settings_apply_compose:
  "settings_apply (settings_apply s u) v = settings_apply s (proposal_then u v) \<and>
   settings_apply (settings_apply s u) u = settings_apply s u \<and>
   settings_apply s update_proposal_new = s"
  by (simp add: settings_apply_fields proposal_then_def case_or_else update_proposal_new_def
      cong: option.case_cong)

end
