(* ===== verification/Vrf.thy ===== *)
theory Vrf
  imports Key
begin

text \<open>
  The verifiable random function, \<^verbatim>\<open>chain-crypto/src/algorithms/vrf/\<close>: proofs that two discrete logarithms are
  equal (\<^verbatim>\<open>dleq.rs\<close>) and the function built on them (\<^verbatim>\<open>vrf.rs\<close>, \<^verbatim>\<open>mod.rs\<close>). The group comes from the package
  curve25519-dalek, whose operations are the fields of the record \<open>ristretto\<close>. Points and scalars
  are their canonical 32 byte encodings: \<^verbatim>\<open>decompress\<close> and \<^verbatim>\<open>from_canonical_bytes\<close> accept an encoding exactly
  when it is canonical, and encoding the result gives the same bytes.
\<close>

type_synonym point = "256 word"
type_synonym scalar = "256 word"

record ristretto =
  point_canonical :: "256 word \<Rightarrow> bool"
  scalar_canonical :: "256 word \<Rightarrow> bool"
  basepoint :: point
  point_add :: "point \<Rightarrow> point \<Rightarrow> point"
  point_sub :: "point \<Rightarrow> point \<Rightarrow> point"
  point_mul :: "point \<Rightarrow> scalar \<Rightarrow> point"
  scalar_add :: "scalar \<Rightarrow> scalar \<Rightarrow> scalar"
  scalar_mul :: "scalar \<Rightarrow> scalar \<Rightarrow> scalar"
  scalar_from_hash :: "bytes \<Rightarrow> scalar"
  point_from_hash :: "bytes \<Rightarrow> point"

definition decompress :: "ristretto \<Rightarrow> 256 word \<Rightarrow> point option" where
  "decompress cv w = (if point_canonical cv w then Some w else None)"

definition from_canonical_bytes :: "ristretto \<Rightarrow> bytes \<Rightarrow> scalar option" where
  "from_canonical_bytes cv bs =
     (let w = from_be_bytes bs in if scalar_canonical cv w then Some w else None)"

section \<open>Equality of discrete logarithms\<close>

datatype challenge = Challenge (challenge_scalar: scalar)

record dleq_proof =
  proof_c :: challenge
  proof_z :: scalar

record dleq =
  dleq_g1 :: point
  dleq_h1 :: point
  dleq_g2 :: point
  dleq_h2 :: point

definition dleq_challenge :: "ristretto \<Rightarrow> point \<Rightarrow> point \<Rightarrow> point \<Rightarrow> point \<Rightarrow> challenge" where
  "dleq_challenge cv h1 h2 a1 a2 =
     Challenge (scalar_from_hash cv
       (to_be_bytes h1 @ to_be_bytes h2 @ to_be_bytes a1 @ to_be_bytes a2))"

definition dleq_generate :: "ristretto \<Rightarrow> scalar \<Rightarrow> scalar \<Rightarrow> dleq \<Rightarrow> dleq_proof" where
  "dleq_generate cv w a d =
     (let a1 = point_mul cv (dleq_g1 d) w;
          a2 = point_mul cv (dleq_g2 d) w;
          c = dleq_challenge cv (dleq_h1 d) (dleq_h2 d) a1 a2;
          z = scalar_add cv w (scalar_mul cv a (challenge_scalar c))
      in \<lparr> proof_c = c, proof_z = z \<rparr>)"

definition dleq_verify :: "ristretto \<Rightarrow> dleq \<Rightarrow> dleq_proof \<Rightarrow> bool" where
  "dleq_verify cv d p =
     (let r1 = point_mul cv (dleq_g1 d) (proof_z p);
          r2 = point_mul cv (dleq_g2 d) (proof_z p);
          a1 = point_sub cv r1 (point_mul cv (dleq_h1 d) (challenge_scalar (proof_c p)));
          a2 = point_sub cv r2 (point_mul cv (dleq_h2 d) (challenge_scalar (proof_c p)))
      in dleq_challenge cv (dleq_h1 d) (dleq_h2 d) a1 a2 = proof_c p)"

text \<open>\<^verbatim>\<open>to_bytes\<close> writes into a buffer of the caller and panics on a buffer of another size.\<close>

definition dleq_proof_to_bytes :: "dleq_proof \<Rightarrow> bytes \<Rightarrow> (bytes, 'e) outcome" where
  "dleq_proof_to_bytes p out =
     assert_then (length out = 64) (Ok (to_be_bytes (challenge_scalar (proof_c p)) @ to_be_bytes (proof_z p)))"

definition dleq_proof_from_bytes :: "ristretto \<Rightarrow> bytes \<Rightarrow> dleq_proof option" where
  "dleq_proof_from_bytes cv s =
     (if length s \<noteq> 64 then None
      else Option.bind (from_canonical_bytes cv (take 32 s)) (\<lambda>c.
        Option.bind (from_canonical_bytes cv (drop 32 s)) (\<lambda>z.
          Some \<lparr> proof_c = Challenge c, proof_z = z \<rparr>)))"

section \<open>The verifiable random function\<close>

record vrf_secret_key =
  vrf_secret :: scalar
  vrf_public :: point

datatype vrf_public_key = VrfPublicKey (vrf_point: point) (vrf_compressed: "256 word")

datatype output_seed = OutputSeed (seed_point: point)

record proven_output_seed =
  proven_u :: output_seed
  proven_dleq :: dleq_proof

datatype vrf_verification = VrfSuccess | VrfFailed

datatype secret_key_error = SecretKeySizeInvalid | SecretKeyStructureInvalid

definition vrf_secret_from_bytes :: "ristretto \<Rightarrow> bytes \<Rightarrow> vrf_secret_key option" where
  "vrf_secret_from_bytes cv bs =
     Option.bind (from_canonical_bytes cv bs) (\<lambda>sk.
       Some \<lparr> vrf_secret = sk, vrf_public = point_mul cv (basepoint cv) sk \<rparr>)"

definition vrf_secret_random :: "ristretto \<Rightarrow> scalar \<Rightarrow> vrf_secret_key" where
  "vrf_secret_random cv sk = \<lparr> vrf_secret = sk, vrf_public = point_mul cv (basepoint cv) sk \<rparr>"

definition vrf_secret_to_bytes :: "vrf_secret_key \<Rightarrow> bytes" where
  "vrf_secret_to_bytes sk = to_be_bytes (vrf_secret sk)"

definition vrf_secret_from_binary :: "ristretto \<Rightarrow> bytes \<Rightarrow> (vrf_secret_key, secret_key_error) outcome" where
  "vrf_secret_from_binary cv data =
     (if length data \<noteq> 32 then Err SecretKeySizeInvalid
      else case vrf_secret_from_bytes cv data of
             None \<Rightarrow> Err SecretKeyStructureInvalid
           | Some k \<Rightarrow> Ok k)"

definition message_hash_point :: "ristretto \<Rightarrow> bytes \<Rightarrow> point" where
  "message_hash_point cv data = point_from_hash cv data"

definition verifiable_output :: "ristretto \<Rightarrow> vrf_secret_key \<Rightarrow> bytes \<Rightarrow> point \<times> output_seed" where
  "verifiable_output cv sk inp =
     (let m_point = message_hash_point cv inp
      in (m_point, OutputSeed (point_mul cv m_point (vrf_secret sk))))"

definition vrf_proove :: "ristretto \<Rightarrow> vrf_secret_key \<Rightarrow> scalar \<Rightarrow> point \<Rightarrow> output_seed \<Rightarrow> proven_output_seed" where
  "vrf_proove cv sk r m_point out =
     (let d = \<lparr> dleq_g1 = basepoint cv, dleq_h1 = vrf_public sk, dleq_g2 = m_point,
               dleq_h2 = seed_point out \<rparr>
      in \<lparr> proven_u = out, proven_dleq = dleq_generate cv r (vrf_secret sk) d \<rparr>)"

definition vrf_evaluate :: "ristretto \<Rightarrow> vrf_secret_key \<Rightarrow> scalar \<Rightarrow> bytes \<Rightarrow> proven_output_seed" where
  "vrf_evaluate cv sk r inp =
     (let (m_point, out) = verifiable_output cv sk inp in vrf_proove cv sk r m_point out)"

definition vrf_to_public :: "vrf_secret_key \<Rightarrow> vrf_public_key" where
  "vrf_to_public sk = VrfPublicKey (vrf_public sk) (vrf_public sk)"

definition vrf_public_from_bytes :: "ristretto \<Rightarrow> bytes \<Rightarrow> (vrf_public_key, public_key_error) outcome" where
  "vrf_public_from_bytes cv inp =
     (if length inp \<noteq> 32 then Err PublicKeySizeInvalid
      else let r = from_be_bytes inp
           in case decompress cv r of
                None \<Rightarrow> Err PublicKeyStructureInvalid
              | Some pk \<Rightarrow> Ok (VrfPublicKey pk r))"

definition vrf_public_as_bytes :: "vrf_public_key \<Rightarrow> bytes" where
  "vrf_public_as_bytes pk = to_be_bytes (vrf_compressed pk)"

definition vrf_public_to_buffer :: "vrf_public_key \<Rightarrow> bytes \<Rightarrow> (bytes, 'e) outcome" where
  "vrf_public_to_buffer pk out = assert_then (length out = 32) (Ok (to_be_bytes (vrf_point pk)))"

definition proven_verify :: "ristretto \<Rightarrow> proven_output_seed \<Rightarrow> vrf_public_key \<Rightarrow> bytes \<Rightarrow> bool" where
  "proven_verify cv p pk inp =
     dleq_verify cv
       \<lparr> dleq_g1 = basepoint cv, dleq_h1 = vrf_point pk, dleq_g2 = message_hash_point cv inp,
         dleq_h2 = seed_point (proven_u p) \<rparr> (proven_dleq p)"

definition proven_to_bytes :: "proven_output_seed \<Rightarrow> bytes \<Rightarrow> (bytes, 'e) outcome" where
  "proven_to_bytes p out =
     assert_then (length out = 96)
       (obind (dleq_proof_to_bytes (proven_dleq p) (drop 32 out))
         (\<lambda>tail. Ok (to_be_bytes (seed_point (proven_u p)) @ tail)))"

definition proven_from_bytes_unverified :: "ristretto \<Rightarrow> bytes \<Rightarrow> proven_output_seed option" where
  "proven_from_bytes_unverified cv bs =
     (if length bs \<noteq> 96 then None
      else Option.bind (decompress cv (from_be_bytes (take 32 bs))) (\<lambda>u.
        Option.bind (dleq_proof_from_bytes cv (drop 32 bs)) (\<lambda>p.
          Some \<lparr> proven_u = OutputSeed u, proven_dleq = p \<rparr>)))"

definition proven_from_bytes ::
  "ristretto \<Rightarrow> vrf_public_key \<Rightarrow> bytes \<Rightarrow> bytes \<Rightarrow> proven_output_seed option" where
  "proven_from_bytes cv pk bs inp =
     Option.bind (proven_from_bytes_unverified cv bs) (\<lambda>p. if proven_verify cv p pk inp then Some p else None)"

definition to_verifiable_output ::
  "ristretto \<Rightarrow> proven_output_seed \<Rightarrow> vrf_public_key \<Rightarrow> bytes \<Rightarrow> output_seed option" where
  "to_verifiable_output cv p pk inp = (if proven_verify cv p pk inp then Some (proven_u p) else None)"

definition seed_to_output :: "crypto \<Rightarrow> output_seed \<Rightarrow> bytes \<Rightarrow> bytes \<Rightarrow> 256 word" where
  "seed_to_output cr u inp suffix = blake2b256 cr (inp @ to_be_bytes (seed_point u) @ suffix)"

definition vrf_verify :: "ristretto \<Rightarrow> vrf_public_key \<Rightarrow> bytes \<Rightarrow> proven_output_seed \<Rightarrow> vrf_verification" where
  "vrf_verify cv pk inp p = (let v = proven_verify cv p pk inp in if v then VrfSuccess else VrfFailed)"

section \<open>Codecs\<close>

definition vrf_public_ok :: "ristretto \<Rightarrow> vrf_public_key \<Rightarrow> bool" where
  "vrf_public_ok cv pk \<longleftrightarrow> point_canonical cv (vrf_compressed pk) \<and> vrf_point pk = vrf_compressed pk"

interpretation vrf_public_codec: codec "vrf_public_ok cv" vrf_public_as_bytes
  "deserialize_public_key 32 (vrf_public_from_bytes cv)" for cv
proof (rule codecI)
  fix x pre rest
  assume x: "vrf_public_ok cv x"
  have "read_mut_slice get_u8 (replicate 32 0) (buf pre (vrf_public_as_bytes x @ rest)) =
      Ok (vrf_public_as_bytes x, buf (pre @ vrf_public_as_bytes x) rest)"
    using read_u8s [of "vrf_public_as_bytes x" 32 "buf pre (vrf_public_as_bytes x @ rest)" rest]
      adv_buf [of "vrf_public_as_bytes x" pre rest]
    by (simp add: read_mut_slice_eq vrf_public_as_bytes_def)
  with x show "deserialize_public_key 32 (vrf_public_from_bytes cv) (buf pre (vrf_public_as_bytes x @ rest)) =
      Ok (x, buf (pre @ vrf_public_as_bytes x) rest)"
    by (cases x)
      (simp add: deserialize_public_key_def vrf_public_from_bytes_def vrf_public_as_bytes_def decompress_def
        vrf_public_ok_def Let_def)
  show "vrf_public_as_bytes x \<noteq> []" by (simp add: vrf_public_as_bytes_def flip: length_0_conv)
qed

definition proven_ok :: "ristretto \<Rightarrow> proven_output_seed \<Rightarrow> bool" where
  "proven_ok cv p \<longleftrightarrow>
     point_canonical cv (seed_point (proven_u p)) \<and>
     scalar_canonical cv (challenge_scalar (proof_c (proven_dleq p))) \<and>
     scalar_canonical cv (proof_z (proven_dleq p))"

definition proven_bytes :: "proven_output_seed \<Rightarrow> bytes" where
  "proven_bytes p =
     to_be_bytes (seed_point (proven_u p)) @
     to_be_bytes (challenge_scalar (proof_c (proven_dleq p))) @ to_be_bytes (proof_z (proven_dleq p))"

lemma length_proven_bytes [simp]: "length (proven_bytes p) = 96"
  by (simp add: proven_bytes_def)

lemma proven_to_bytes_eq: "length out = 96 \<Longrightarrow> proven_to_bytes p out = Ok (proven_bytes p)"
  by (simp add: proven_to_bytes_def dleq_proof_to_bytes_def proven_bytes_def)

lemma proven_from_to_bytes: "proven_ok cv p \<Longrightarrow> proven_from_bytes_unverified cv (proven_bytes p) = Some p"
  by (cases p; cases "proven_u p"; cases "proven_dleq p"; cases "proof_c (proven_dleq p)")
    (simp add: proven_from_bytes_unverified_def proven_bytes_def proven_ok_def decompress_def
      dleq_proof_from_bytes_def from_canonical_bytes_def Let_def)

section \<open>Properties\<close>

lemma vrf_evaluate_verifies:
  assumes "\<And>p s t. point_mul cv p (scalar_add cv s t) = point_add cv (point_mul cv p s) (point_mul cv p t)"
    and "\<And>p s t. point_mul cv p (scalar_mul cv s t) = point_mul cv (point_mul cv p s) t"
    and "\<And>p q. point_sub cv (point_add cv p q) q = p"
    and "sk = vrf_secret_random cv s"
  shows "vrf_verify cv (vrf_to_public sk) inp (vrf_evaluate cv sk r inp) = VrfSuccess \<and>
    to_verifiable_output cv (vrf_evaluate cv sk r inp) (vrf_to_public sk) inp =
      Some (snd (verifiable_output cv sk inp))"
proof -
  have "proven_verify cv (vrf_evaluate cv sk r inp) (vrf_to_public sk) inp"
    using assms
    by (simp add: proven_verify_def vrf_evaluate_def verifiable_output_def vrf_proove_def dleq_generate_def
        dleq_verify_def vrf_to_public_def vrf_secret_random_def Let_def)
  then show ?thesis
    by (simp add: vrf_verify_def to_verifiable_output_def vrf_evaluate_def verifiable_output_def vrf_proove_def
        Let_def)
qed

text \<open>
  The proof that a secret key makes for an input is accepted under its public key, for every randomness, and the
  output that is read out of it is the one the secret key computes. The group operations are those of a group in which
  multiplying by scalars distributes over their sum and composes with their product.
\<close>

theorem vrf_complete:
  assumes "\<And>p s t. point_mul cv p (scalar_add cv s t) = point_add cv (point_mul cv p s) (point_mul cv p t)"
    and "\<And>p s t. point_mul cv p (scalar_mul cv s t) = point_mul cv (point_mul cv p s) t"
    and "\<And>p q. point_sub cv (point_add cv p q) q = p"
    and "sk = vrf_secret_random cv s"
  shows "vrf_verify cv (vrf_to_public sk) inp (vrf_evaluate cv sk r inp) = VrfSuccess \<and>
    to_verifiable_output cv (vrf_evaluate cv sk r inp) (vrf_to_public sk) inp =
      Some (snd (verifiable_output cv sk inp))"
  using vrf_evaluate_verifies [OF assms] by blast

definition demo_ristretto :: ristretto where
  "demo_ristretto =
     \<lparr> point_canonical = (\<lambda>_. True), scalar_canonical = (\<lambda>_. True), basepoint = 9,
       point_add = (+), point_sub = (-), point_mul = (*), scalar_add = (+), scalar_mul = (*),
       scalar_from_hash = (\<lambda>bs. from_be_bytes (take 32 bs)), point_from_hash = (\<lambda>bs. from_be_bytes bs) \<rparr>"

theorem vrf_complete_witness:
  "vrf_verify demo_ristretto (vrf_to_public (vrf_secret_random demo_ristretto 5)) [1, 2]
     (vrf_evaluate demo_ristretto (vrf_secret_random demo_ristretto 5) 77 [1, 2]) = VrfSuccess"
  using vrf_complete [of demo_ristretto "vrf_secret_random demo_ristretto 5" 5 "[1, 2]" 77]
  by (simp add: demo_ristretto_def algebra_simps)

end
