(* ===== verification/Certificate.thy ===== *)
theory Certificate
  imports Vrf Address
begin

text \<open>
  Stake keys and stake pools (\<^verbatim>\<open>stake/role.rs\<close>) and the certificates about them (\<^verbatim>\<open>certificate.rs\<close>) of
  \<^verbatim>\<open>chain-impl-mockchain/src\<close>, with the keys of a leader of \<^verbatim>\<open>leadership/genesis/mod.rs\<close>.
\<close>

section \<open>Stake keys and stake pools\<close>

datatype stake_key_id = StakeKeyId (stake_key: pubkey)

datatype stake_pool_id = StakePoolId (pool_hash: hash)

record stake_key_info =
  key_pool :: "stake_pool_id option"

record genesis_praos_leader =
  kes_public_key :: pubkey
  vrf_public_key :: vrf_public_key

record stake_pool_info =
  pool_serial :: u128
  pool_owners :: "stake_key_id list"
  pool_initial_key :: genesis_praos_leader

definition stake_pool_to_id :: "crypto \<Rightarrow> stake_pool_info \<Rightarrow> stake_pool_id" where
  "stake_pool_to_id cr p =
     StakePoolId (hash_bytes cr
       (to_be_bytes (pool_serial p) @
        concat (map (\<lambda>own. to_be_bytes (stake_key own)) (pool_owners p)) @
        to_be_bytes (kes_public_key (pool_initial_key p)) @
        vrf_public_as_bytes (vrf_public_key (pool_initial_key p))))"

definition stake_key_id_serialize :: "stake_key_id \<Rightarrow> bytes" where
  "stake_key_id_serialize k = serialize_public_key (stake_key k) []"

definition stake_key_id_read :: "stake_key_id reader" where
  "stake_key_id_read b = obind (deserialize_public_key 32 public_from_binary b) (\<lambda>(k, b). Ok (StakeKeyId k, b))"

definition stake_pool_id_serialize :: "stake_pool_id \<Rightarrow> bytes" where
  "stake_pool_id_serialize p = write_all [] (hash_as_ref (pool_hash p))"

definition stake_pool_id_read :: "stake_pool_id reader" where
  "stake_pool_id_read b = obind (hash_read b) (\<lambda>(h, b). Ok (StakePoolId h, b))"

definition praos_leader_serialize :: "genesis_praos_leader \<Rightarrow> bytes" where
  "praos_leader_serialize l =
     write_all (serialize_public_key (kes_public_key l) []) (vrf_public_as_bytes (vrf_public_key l))"

definition praos_leader_read :: "ristretto \<Rightarrow> genesis_praos_leader reader" where
  "praos_leader_read cv b =
     obind (deserialize_public_key 32 public_from_binary b) (\<lambda>(kes, b).
       obind (deserialize_public_key 32 (vrf_public_from_bytes cv) b) (\<lambda>(vrf, b).
         Ok (\<lparr> kes_public_key = kes, vrf_public_key = vrf \<rparr>, b)))"

definition stake_pool_info_serialize :: "stake_pool_info \<Rightarrow> (bytes, 'e) outcome" where
  "stake_pool_info_serialize p =
     assert_then (length (pool_owners p) < 256)
       (let w = codec_put_u128 [] (pool_serial p);
            w = codec_put_u8 w (word_of_nat (length (pool_owners p)));
            w = fold (\<lambda>own w. serialize_public_key (stake_key own) w) (pool_owners p) w
        in Ok (w @ praos_leader_serialize (pool_initial_key p)))"

definition stake_pool_info_read :: "ristretto \<Rightarrow> stake_pool_info reader" where
  "stake_pool_info_read cv b =
     obind (get_u128 b) (\<lambda>(serial, b).
       obind (get_u8 b) (\<lambda>(owner_nb, b).
         obind (read_vec stake_key_id_read (unat owner_nb) b) (\<lambda>(owners, b).
           obind (praos_leader_read cv b) (\<lambda>(leader, b).
             Ok (\<lparr> pool_serial = serial, pool_owners = owners, pool_initial_key = leader \<rparr>, b)))))"

section \<open>Certificates\<close>

datatype signature_raw = SignatureRaw (signature_raw_bytes: bytes)

definition signature_raw_serialize :: "signature_raw \<Rightarrow> bytes" where
  "signature_raw_serialize s =
     write_all (codec_put_u16 [] (word_of_nat (length (signature_raw_bytes s)))) (signature_raw_bytes s)"

definition signature_raw_read :: "signature_raw reader" where
  "signature_raw_read b =
     obind (get_u16 b) (\<lambda>(u, b). obind (read_vec get_u8 (unat u) b) (\<lambda>(v, b). Ok (SignatureRaw v, b)))"

datatype stake_key_registration = StakeKeyRegistration (registered_key: stake_key_id)

datatype stake_key_deregistration = StakeKeyDeregistration (deregistered_key: stake_key_id)

record stake_delegation =
  delegation_key :: stake_key_id
  delegation_pool :: stake_pool_id

record stake_pool_retirement =
  retired_pool_id :: stake_pool_id
  retired_pool_info :: stake_pool_info

datatype certificate_content =
    CertStakeKeyRegistration stake_key_registration
  | CertStakeKeyDeregistration stake_key_deregistration
  | CertStakeDelegation stake_delegation
  | CertStakePoolRegistration stake_pool_info
  | CertStakePoolRetirement stake_pool_retirement

record certificate =
  cert_content :: certificate_content
  cert_signatures :: "signature_raw list"

definition registration_serialize :: "stake_key_registration \<Rightarrow> bytes" where
  "registration_serialize r = stake_key_id_serialize (registered_key r)"

definition registration_read :: "stake_key_registration reader" where
  "registration_read b = obind (stake_key_id_read b) (\<lambda>(k, b). Ok (StakeKeyRegistration k, b))"

definition deregistration_serialize :: "stake_key_deregistration \<Rightarrow> bytes" where
  "deregistration_serialize r = stake_key_id_serialize (deregistered_key r)"

definition deregistration_read :: "stake_key_deregistration reader" where
  "deregistration_read b = obind (stake_key_id_read b) (\<lambda>(k, b). Ok (StakeKeyDeregistration k, b))"

definition delegation_serialize :: "stake_delegation \<Rightarrow> bytes" where
  "delegation_serialize d = stake_key_id_serialize (delegation_key d) @ stake_pool_id_serialize (delegation_pool d)"

definition delegation_read :: "stake_delegation reader" where
  "delegation_read b =
     obind (stake_key_id_read b) (\<lambda>(k, b). obind (stake_pool_id_read b) (\<lambda>(p, b).
       Ok (\<lparr> delegation_key = k, delegation_pool = p \<rparr>, b)))"

definition retirement_serialize :: "stake_pool_retirement \<Rightarrow> (bytes, 'e) outcome" where
  "retirement_serialize r =
     obind (stake_pool_info_serialize (retired_pool_info r))
       (\<lambda>w. Ok (stake_pool_id_serialize (retired_pool_id r) @ w))"

definition retirement_read :: "ristretto \<Rightarrow> stake_pool_retirement reader" where
  "retirement_read cv b =
     obind (stake_pool_id_read b) (\<lambda>(p, b). obind (stake_pool_info_read cv b) (\<lambda>(i, b).
       Ok (\<lparr> retired_pool_id = p, retired_pool_info = i \<rparr>, b)))"

text \<open>The serializer and the owners of what a certificate is about.\<close>

fun content_serialize :: "certificate_content \<Rightarrow> (bytes, 'e) outcome" where
  "content_serialize (CertStakeKeyRegistration r) = Ok (registration_serialize r)"
| "content_serialize (CertStakeKeyDeregistration r) = Ok (deregistration_serialize r)"
| "content_serialize (CertStakeDelegation d) = Ok (delegation_serialize d)"
| "content_serialize (CertStakePoolRegistration p) = stake_pool_info_serialize p"
| "content_serialize (CertStakePoolRetirement r) = retirement_serialize r"

fun public_keys :: "certificate_content \<Rightarrow> stake_key_id list" where
  "public_keys (CertStakeKeyRegistration r) = [registered_key r]"
| "public_keys (CertStakeKeyDeregistration r) = [deregistered_key r]"
| "public_keys (CertStakeDelegation d) = [delegation_key d]"
| "public_keys (CertStakePoolRegistration p) = pool_owners p"
| "public_keys (CertStakePoolRetirement r) = pool_owners (retired_pool_info r)"

definition make_certificate ::
  "crypto \<Rightarrow> certificate_content \<Rightarrow> spending_secret_key \<Rightarrow> (signature_raw, 'e) outcome" where
  "make_certificate cr c sk =
     obind (make_signature cr sk (content_serialize c :: (bytes, unit) outcome))
       (\<lambda>sig. Ok (SignatureRaw (to_be_bytes sig)))"

definition certificate_sign ::
  "crypto \<Rightarrow> certificate \<Rightarrow> spending_secret_key \<Rightarrow> (certificate, 'e) outcome" where
  "certificate_sign cr c sk =
     obind (make_certificate cr (cert_content c) sk)
       (\<lambda>sig. Ok (c\<lparr>cert_signatures := cert_signatures c @ [sig]\<rparr>))"

definition verify_certificate_step ::
  "crypto \<Rightarrow> certificate_content \<Rightarrow> stake_key_id \<times> signature_raw \<Rightarrow> (verification, 'e) outcome" where
  "verify_certificate_step cr c = (\<lambda>(own, raw).
     case deserialize_signature (read_buf_from (signature_raw_bytes raw)) of
       Ok (sig, _) \<Rightarrow>
         obind (verify_signature cr sig (stake_key own) (content_serialize c :: (bytes, unit) outcome))
           (\<lambda>v. if v = Failed then Ok Failed else Ok Success)
     | Err _ \<Rightarrow> Ok Failed
     | Panic \<Rightarrow> Panic)"

definition verify_certificate ::
  "crypto \<Rightarrow> certificate_content \<Rightarrow> signature_raw list \<Rightarrow> (verification, 'e) outcome" where
  "verify_certificate cr c signatures =
     (let owners = public_keys c in
      if length owners > length signatures then Ok Failed
      else fold_outcome (\<lambda>p _. verify_certificate_step cr c p) (zip owners signatures) Success)"

definition certificate_verify :: "crypto \<Rightarrow> certificate \<Rightarrow> (verification, 'e) outcome" where
  "certificate_verify cr c = verify_certificate cr (cert_content c) (cert_signatures c)"

fun certificate_tag :: "certificate_content \<Rightarrow> u8" where
  "certificate_tag (CertStakeKeyRegistration _) = 1"
| "certificate_tag (CertStakeKeyDeregistration _) = 2"
| "certificate_tag (CertStakeDelegation _) = 3"
| "certificate_tag (CertStakePoolRegistration _) = 4"
| "certificate_tag (CertStakePoolRetirement _) = 5"

definition certificate_serialize :: "certificate \<Rightarrow> (bytes, 'e) outcome" where
  "certificate_serialize c =
     obind (content_serialize (cert_content c)) (\<lambda>body.
       let w = codec_put_u8 [] (certificate_tag (cert_content c)) @ body;
           w = codec_put_u8 w (word_of_nat (length (cert_signatures c)))
       in Ok (w @ concat (map signature_raw_serialize (cert_signatures c))))"

definition certificate_read_content :: "ristretto \<Rightarrow> u8 \<Rightarrow> certificate_content reader" where
  "certificate_read_content cv t b =
     (if t = 1 then obind (registration_read b) (\<lambda>(r, b). Ok (CertStakeKeyRegistration r, b))
      else if t = 2 then obind (deregistration_read b) (\<lambda>(r, b). Ok (CertStakeKeyDeregistration r, b))
      else if t = 4 then obind (stake_pool_info_read cv b) (\<lambda>(p, b). Ok (CertStakePoolRegistration p, b))
      else if t = 5 then obind (retirement_read cv b) (\<lambda>(r, b). Ok (CertStakePoolRetirement r, b))
      else if t = 3 then obind (delegation_read b) (\<lambda>(d, b). Ok (CertStakeDelegation d, b))
      else Panic)"

definition certificate_read :: "ristretto \<Rightarrow> certificate reader" where
  "certificate_read cv b =
     obind (get_u8 b) (\<lambda>(t, b).
       obind (certificate_read_content cv t b) (\<lambda>(content, b).
         obind (get_u8 b) (\<lambda>(len, b).
           obind (read_vec signature_raw_read (unat len) b) (\<lambda>(sigs, b).
             Ok (\<lparr> cert_content = content, cert_signatures = sigs \<rparr>, b)))))"

section \<open>Codecs\<close>

interpretation stake_key_codec: codec "\<lambda>_. True" stake_key_id_serialize stake_key_id_read
  by (rule codecI) (simp_all add: stake_key_id_read_def stake_key_id_serialize_def read_simps flip: length_0_conv)

interpretation stake_pool_codec: codec "\<lambda>_. True" stake_pool_id_serialize stake_pool_id_read
proof (rule codecI)
  fix x :: stake_pool_id and pre rest
  have "stake_pool_id_serialize x = hash_serialize (pool_hash x)"
    by (simp add: stake_pool_id_serialize_def hash_serialize_def)
  then show "stake_pool_id_read (buf pre (stake_pool_id_serialize x @ rest)) =
      Ok (x, buf (pre @ stake_pool_id_serialize x) rest)" "stake_pool_id_serialize x \<noteq> []"
    by (simp_all add: stake_pool_id_read_def read_simps flip: length_0_conv)
qed

lemmas stake_read_buf [read_simps] = stake_key_codec.read_buf [OF TrueI] stake_pool_codec.read_buf [OF TrueI]

definition praos_leader_ok :: "ristretto \<Rightarrow> genesis_praos_leader \<Rightarrow> bool" where
  "praos_leader_ok cv l \<longleftrightarrow> vrf_public_ok cv (vrf_public_key l)"

interpretation praos_leader_codec: codec "praos_leader_ok cv" praos_leader_serialize "praos_leader_read cv" for cv
  by (rule codecI)
    (simp_all add: praos_leader_read_def praos_leader_serialize_def praos_leader_ok_def write_all_def read_simps
      vrf_public_codec.read_buf flip: length_0_conv)

definition pool_info_ok :: "ristretto \<Rightarrow> stake_pool_info \<Rightarrow> bool" where
  "pool_info_ok cv p \<longleftrightarrow> length (pool_owners p) < 256 \<and> praos_leader_ok cv (pool_initial_key p)"

definition pool_info_bytes :: "stake_pool_info \<Rightarrow> bytes" where
  "pool_info_bytes p =
     to_be_bytes (pool_serial p) @ word_of_nat (length (pool_owners p)) #
     concat (map stake_key_id_serialize (pool_owners p)) @ praos_leader_serialize (pool_initial_key p)"

lemma fold_serialize_keys:
  "fold (\<lambda>own w. serialize_public_key (stake_key own) w) owners w = w @ concat (map stake_key_id_serialize owners)"
  by (induction owners arbitrary: w) (simp_all add: stake_key_id_serialize_def serialize_public_key_def write_all_def)

lemma stake_pool_info_serialize_eq:
  "stake_pool_info_serialize p = (if length (pool_owners p) < 256 then Ok (pool_info_bytes p) else Panic)"
  by (simp add: stake_pool_info_serialize_def pool_info_bytes_def codec_put_defs fold_serialize_keys Let_def)

interpretation pool_info_codec: codec "pool_info_ok cv" pool_info_bytes "stake_pool_info_read cv" for cv
proof (rule codecI)
  fix p pre rest
  assume p: "pool_info_ok cv p"
  then have "unat (word_of_nat (length (pool_owners p)) :: u8) = length (pool_owners p)"
    by (simp add: pool_info_ok_def unat_of_nat)
  with p show "stake_pool_info_read cv (buf pre (pool_info_bytes p @ rest)) =
      Ok (p, buf (pre @ pool_info_bytes p) rest)"
    by (simp add: stake_pool_info_read_def pool_info_bytes_def pool_info_ok_def read_simps
        stake_key_codec.read_vec_buf praos_leader_codec.read_buf)
  show "pool_info_bytes p \<noteq> []" by (simp add: pool_info_bytes_def)
qed

definition content_ok :: "ristretto \<Rightarrow> certificate_content \<Rightarrow> bool" where
  "content_ok cv c =
     (case c of
        CertStakePoolRegistration p \<Rightarrow> pool_info_ok cv p
      | CertStakePoolRetirement r \<Rightarrow> pool_info_ok cv (retired_pool_info r)
      | _ \<Rightarrow> True)"

fun content_bytes :: "certificate_content \<Rightarrow> bytes" where
  "content_bytes (CertStakeKeyRegistration r) = registration_serialize r"
| "content_bytes (CertStakeKeyDeregistration r) = deregistration_serialize r"
| "content_bytes (CertStakeDelegation d) = delegation_serialize d"
| "content_bytes (CertStakePoolRegistration p) = pool_info_bytes p"
| "content_bytes (CertStakePoolRetirement r) =
     stake_pool_id_serialize (retired_pool_id r) @ pool_info_bytes (retired_pool_info r)"

lemma content_serialize_eq: "content_ok cv c \<Longrightarrow> content_serialize c = Ok (content_bytes c)"
  by (cases c)
    (auto simp: content_ok_def pool_info_ok_def stake_pool_info_serialize_eq retirement_serialize_def)

lemma content_read_buf [read_simps]:
  "content_ok cv c \<Longrightarrow>
   certificate_read_content cv (certificate_tag c) (buf pre (content_bytes c @ rest)) =
     Ok (c, buf (pre @ content_bytes c) rest)"
  by (cases c)
    (simp_all add: content_ok_def certificate_read_content_def registration_read_def registration_serialize_def
      deregistration_read_def deregistration_serialize_def delegation_read_def delegation_serialize_def
      retirement_read_def read_simps pool_info_codec.read_buf)

definition sig_raw_ok :: "signature_raw \<Rightarrow> bool" where
  "sig_raw_ok s \<longleftrightarrow> length (signature_raw_bytes s) < 2 ^ 16"

interpretation sig_raw_codec: codec sig_raw_ok signature_raw_serialize signature_raw_read
proof (rule codecI)
  fix s pre rest
  assume "sig_raw_ok s"
  then have len: "unat (word_of_nat (length (signature_raw_bytes s)) :: u16) = length (signature_raw_bytes s)"
    by (simp add: sig_raw_ok_def unat_of_nat)
  have "read_vec get_u8 (length (signature_raw_bytes s)) (buf pre (signature_raw_bytes s @ rest)) =
      Ok (signature_raw_bytes s, buf (pre @ signature_raw_bytes s) rest)" for pre
    using u8_codec.read_vec_buf [of "signature_raw_bytes s" pre rest] by (simp add: concat_map_singleton)
  with len show "signature_raw_read (buf pre (signature_raw_serialize s @ rest)) =
      Ok (s, buf (pre @ signature_raw_serialize s) rest)"
    by (simp add: signature_raw_read_def signature_raw_serialize_def codec_put_defs read_simps)
  show "signature_raw_serialize s \<noteq> []"
    by (simp add: signature_raw_serialize_def codec_put_defs flip: length_0_conv)
qed

definition certificate_ok :: "ristretto \<Rightarrow> certificate \<Rightarrow> bool" where
  "certificate_ok cv c \<longleftrightarrow>
     content_ok cv (cert_content c) \<and> length (cert_signatures c) < 256 \<and>
     (\<forall>s \<in> set (cert_signatures c). sig_raw_ok s)"

definition certificate_bytes :: "certificate \<Rightarrow> bytes" where
  "certificate_bytes c =
     certificate_tag (cert_content c) # content_bytes (cert_content c) @
     word_of_nat (length (cert_signatures c)) # concat (map signature_raw_serialize (cert_signatures c))"

lemma certificate_serialize_eq: "certificate_ok cv c \<Longrightarrow> certificate_serialize c = Ok (certificate_bytes c)"
  using content_serialize_eq [of cv "cert_content c"]
  by (simp add: certificate_ok_def certificate_serialize_def certificate_bytes_def codec_put_defs content_serialize_eq Let_def)

interpretation certificate_codec: codec "certificate_ok cv" certificate_bytes "certificate_read cv" for cv
proof (rule codecI)
  fix c pre rest
  assume c: "certificate_ok cv c"
  then have "unat (word_of_nat (length (cert_signatures c)) :: u8) = length (cert_signatures c)"
    by (simp add: certificate_ok_def unat_of_nat)
  with c show "certificate_read cv (buf pre (certificate_bytes c @ rest)) = Ok (c, buf (pre @ certificate_bytes c) rest)"
    by (simp add: certificate_read_def certificate_bytes_def certificate_ok_def read_simps sig_raw_codec.read_vec_buf)
  show "certificate_bytes c \<noteq> []" by (simp add: certificate_bytes_def)
qed

section \<open>Signatures\<close>

lemma deserialize_signature_bytes:
  "deserialize_signature (read_buf_from (to_be_bytes (sig :: signature))) = Ok (sig, buf (to_be_bytes sig) [])"
  using signature_codec.read_buf [OF TrueI, where x = sig and pre = "[]" and rest = "[]"]
  by (simp add: read_buf_from_buf serialize_signature_def write_all_def)

lemma deserialize_signature_no_panic: "deserialize_signature b \<noteq> Panic"
proof -
  have "read_vec get_u8 n b \<noteq> Panic" for n b
    by (induction n arbitrary: b) (auto simp: get_u8_eq obind_eq_Panic split: list.split)
  then show ?thesis
    by (auto simp: deserialize_signature_def read_mut_slice_eq obind_eq_Panic signature_from_bytes_def)
qed

definition signature_valid :: "crypto \<Rightarrow> bytes \<Rightarrow> stake_key_id \<times> signature_raw \<Rightarrow> bool" where
  "signature_valid cr body = (\<lambda>(own, raw).
     \<exists>sig b. deserialize_signature (read_buf_from (signature_raw_bytes raw)) = Ok (sig, b) \<and>
       ed25519_verify cr (stake_key own) sig body)"

lemma verify_step_eq:
  assumes "content_ok cv c"
  shows "verify_certificate_step cr c p =
    Ok (verification_from (signature_valid cr (content_bytes c) p))"
proof -
  obtain own raw where p: "p = (own, raw)" by force
  show ?thesis
    using deserialize_signature_no_panic [of "read_buf_from (signature_raw_bytes raw)"]
    by (cases "deserialize_signature (read_buf_from (signature_raw_bytes raw))")
      (auto simp: p verify_certificate_step_def signature_valid_def verify_signature_def verification_from_def
        content_serialize_eq [OF assms])
qed

lemma fold_last_outcome:
  "fold_outcome (\<lambda>p _. Ok (f p)) ps x = Ok (if ps = [] then x else f (last ps))"
  by (induction ps arbitrary: x) auto

section \<open>Properties\<close>

text \<open>
  C35: a certificate that fits its length fields is recovered from its binary form, for each of the five kinds, and
  bytes that follow it are reported.
\<close>

theorem certificate_roundtrip:
  assumes "certificate_ok cv c"
  shows "\<exists>w. certificate_serialize c = (Ok w :: (bytes, 'e) outcome) \<and>
    read_from_raw (certificate_read cv) w = Ok c \<and>
    (rest \<noteq> [] \<longrightarrow>
      read_from_raw (certificate_read cv) (w @ rest) = Err (EndOfData (UnconsumedData (length rest))))"
  using certificate_codec.read_from_raw_ser [OF assms] certificate_codec.read_from_raw_trailing [OF assms]
  by (simp add: certificate_serialize_eq [OF assms])

definition demo_certificate :: certificate where
  "demo_certificate =
     \<lparr> cert_content = CertStakeKeyRegistration (StakeKeyRegistration (StakeKeyId 5)),
       cert_signatures = [SignatureRaw (to_be_bytes (7 :: signature))] \<rparr>"

theorem certificate_roundtrip_witness:
  "\<exists>w. certificate_serialize demo_certificate = (Ok w :: (bytes, unit) outcome) \<and>
     read_from_raw (certificate_read demo_ristretto) w = Ok demo_certificate"
proof -
  have "certificate_ok demo_ristretto demo_certificate"
    by (simp add: certificate_ok_def content_ok_def demo_certificate_def sig_raw_ok_def)
  from certificate_roundtrip [OF this, where 'e = unit] show ?thesis by blast
qed

text \<open>
  C36: verifying a certificate looks at the signature of the last owner only. With enough signatures, the result is
  success exactly when there is no owner or the signature at the position of the last owner is valid: the
  results for the other owners are computed and dropped.
\<close>

theorem certificate_verify_last_only:
  assumes "content_ok cv (cert_content c)"
  shows "certificate_verify cr c = (Ok (verification_from
    (length (public_keys (cert_content c)) \<le> length (cert_signatures c) \<and>
     (public_keys (cert_content c) = [] \<or>
      signature_valid cr (content_bytes (cert_content c))
        (last (public_keys (cert_content c)),
         cert_signatures c ! (length (public_keys (cert_content c)) - 1)))))
    :: (verification, 'e) outcome)"
proof -
  let ?ks = "public_keys (cert_content c)" and ?ss = "cert_signatures c"
  have ne: "zip ?ks ?ss = [] \<longleftrightarrow> ?ks = []" if "length ?ks \<le> length ?ss"
    using that by (cases ?ks; cases ?ss) auto
  have "last (zip ?ks ?ss) = (last ?ks, ?ss ! (length ?ks - 1))" if "?ks \<noteq> []" "length ?ks \<le> length ?ss"
  proof -
    have "length ?ks - 1 < length ?ks" "length ?ks - 1 < length ?ss" using that by (cases ?ks; simp)+
    then show ?thesis using that ne by (subst last_conv_nth) (simp_all add: last_conv_nth min_def)
  qed
  with ne show ?thesis
    by (auto simp: certificate_verify_def verify_certificate_def Let_def verify_step_eq [OF assms] fold_last_outcome
        verification_from_def)
qed

definition demo_pool :: stake_pool_info where
  "demo_pool =
     \<lparr> pool_serial = 1, pool_owners = [StakeKeyId 1, StakeKeyId 2],
       pool_initial_key = \<lparr> kes_public_key = 3, vrf_public_key = VrfPublicKey 4 4 \<rparr> \<rparr>"

definition demo_crypto :: crypto where
  "demo_crypto =
     \<lparr> blake2b256 = (\<lambda>bs. from_be_bytes bs), ed25519_verify = (\<lambda>pk sig msg. sig = ucast pk),
       bip32_verify = (\<lambda>pk sig msg. sig = pk), ed25519_public = ucast, ed25519_sign = (\<lambda>sk msg. ucast (ucast sk :: pubkey)),
       mmm_public = (\<lambda>sk. sk), mmm_sign = (\<lambda>sk msg. ucast sk) \<rparr>"

text \<open>One owner of two has signed, the other has not, and the certificate passes.\<close>

theorem certificate_verify_last_only_witness:
  "certificate_verify demo_crypto
     \<lparr> cert_content = CertStakePoolRegistration demo_pool,
       cert_signatures = [SignatureRaw [], SignatureRaw (to_be_bytes (2 :: signature))] \<rparr> =
   (Ok Success :: (verification, unit) outcome)"
proof -
  have ok: "content_ok demo_ristretto (CertStakePoolRegistration demo_pool)"
    by (simp add: content_ok_def pool_info_ok_def praos_leader_ok_def vrf_public_ok_def demo_pool_def
        demo_ristretto_def)
  show ?thesis
    using certificate_verify_last_only [of demo_ristretto
        "\<lparr> cert_content = CertStakePoolRegistration demo_pool,
          cert_signatures = [SignatureRaw [], SignatureRaw (to_be_bytes (2 :: signature))] \<rparr>" demo_crypto,
        where 'e = unit] ok
    by (simp add: demo_pool_def signature_valid_def deserialize_signature_bytes demo_crypto_def
        verification_from_def)
qed

text \<open>
  A certificate about one stake key, signed with the secret key of that stake key, verifies, for every signature
  scheme whose own signatures are accepted.
\<close>

theorem certificate_sign_verify:
  assumes "\<And>sk msg. ed25519_verify cr (ed25519_public cr sk) (ed25519_sign cr sk msg) msg"
    and "content_ok cv (cert_content c)" and "cert_signatures c = []"
    and "public_keys (cert_content c) = [StakeKeyId (ed25519_public cr sk)]"
  shows "\<exists>c'. certificate_sign cr c sk = (Ok c' :: (certificate, 'e) outcome) \<and>
    certificate_verify cr c' = (Ok Success :: (verification, 'e) outcome)"
proof -
  let ?sig = "ed25519_sign cr sk (content_bytes (cert_content c))"
  have "certificate_sign cr c sk =
      (Ok (c\<lparr>cert_signatures := [SignatureRaw (to_be_bytes ?sig)]\<rparr>) :: (certificate, 'e) outcome)"
    using assms(3)
    by (simp add: certificate_sign_def make_certificate_def make_signature_def content_serialize_eq [OF assms(2)])
  moreover have "verify_certificate_step cr (cert_content c)
      (StakeKeyId (ed25519_public cr sk), SignatureRaw (to_be_bytes ?sig)) =
      (Ok Success :: (verification, 'e) outcome)"
    using assms(1)
    by (simp add: verify_step_eq [OF assms(2)] signature_valid_def deserialize_signature_bytes verification_from_def)
  ultimately show ?thesis
    using assms(4) by (simp add: certificate_verify_def verify_certificate_def)
qed

theorem certificate_sign_verify_witness:
  "\<exists>c'. certificate_sign demo_crypto
       \<lparr> cert_content = CertStakeKeyRegistration (StakeKeyRegistration (StakeKeyId 5)), cert_signatures = [] \<rparr> 5 =
     (Ok c' :: (certificate, unit) outcome) \<and>
     certificate_verify demo_crypto c' = (Ok Success :: (verification, unit) outcome)"
  by (rule certificate_sign_verify [where cv = demo_ristretto]) (simp_all add: demo_crypto_def content_ok_def)

end
