(* ===== verification/Hamt_Bitmap.thy ===== *)
theory Hamt_Bitmap
  imports Prelude
begin

text \<open>
  The index arithmetic of the hash array mapped trie: \<^verbatim>\<open>imhamt/src/hash.rs\<close> (a 64-bit hash is
  read five bits per level) and \<^verbatim>\<open>imhamt/src/bitmap.rs\<close> (a 32-bit map says which of the 32
  slots of a node are occupied, and the population count of the bits below a slot is its position
  in the node's dense array). The lemmas say that the population-count arithmetic is a ranking of
  the occupied slots, and that a hash is determined by its first thirteen level indices.
\<close>

section \<open>Level indices of a hash\<close>

definition level_index :: "u64 \<Rightarrow> nat \<Rightarrow> nat" where
  "level_index h level = unat (drop_bit ((level * 5) mod 64) h AND 0b11111)"

definition level_mask :: "nat \<Rightarrow> u32" where
  "level_mask b = push_bit (b mod 32) 1"

lemma level_index_bound [simp]: "level_index h level < 32"
proof -
  have "unat (drop_bit ((level * 5) mod 64) h AND (31 :: u64)) \<le> unat (31 :: u64)"
    using word_and_le1 word_le_nat_alt by blast
  then show ?thesis by (simp add: level_index_def)
qed

lemma bit_level_index:
  assumes "i < 5" and "(level * 5) mod 64 + i < 64"
  shows "bit (level_index h level) i \<longleftrightarrow> bit h ((level * 5) mod 64 + i)"
proof -
  have "bit (mask 5 :: u64) i"
    using \<open>i < 5\<close> by (simp only: bit_mask_iff) simp
  then have "bit (31 :: u64) i"
    by (simp add: mask_eq_exp_minus_1)
  with assms show ?thesis
    by (simp add: level_index_def bit_unsigned_iff bit_and_iff bit_drop_bit_eq)
qed

text \<open>Two hashes with the same first thirteen level indices are equal.\<close>

lemma level_index_determines_hash:
  assumes "\<And>l. l < 13 \<Longrightarrow> level_index g l = level_index h l"
  shows "g = h"
proof (rule bit_word_eqI)
  fix i assume "i < LENGTH(64)"
  then have i: "i < 64" by simp
  have "i div 5 < 13" and "i mod 5 < 5" and split: "(i div 5 * 5) mod 64 + i mod 5 = i"
    using i by auto
  moreover from this have "level_index g (i div 5) = level_index h (i div 5)"
    using assms by blast
  ultimately show "bit g i \<longleftrightarrow> bit h i"
    using bit_level_index [of "i mod 5" "i div 5" g] bit_level_index [of "i mod 5" "i div 5" h] i
    by metis
qed

text \<open>
  The shift of \<^verbatim>\<open>wrapping_shr\<close> is taken modulo 64, so the levels never run out: two
  different hashes differ again at some level after any given one.
\<close>

lemma level_index_differs_later:
  assumes "g \<noteq> h"
  shows "\<exists>d. level_index g (l + d) \<noteq> level_index h (l + d)"
proof -
  obtain i where i: "i < 64" and diff: "bit g i \<noteq> bit h i"
    using assms bit_word_eqI [of g h] by auto
  define d where "d = 13 * i + 63 * l"
  have "(l + d) * 5 = i + 64 * (i + 5 * l)" by (simp add: d_def algebra_simps)
  then have "((l + d) * 5) mod 64 = i" using i by (simp only: mod_mult_self2) simp
  then have "bit (level_index g (l + d)) 0 \<noteq> bit (level_index h (l + d)) 0"
    using bit_level_index [of 0 "l + d"] i diff by simp
  then show ?thesis by metis
qed

section \<open>Bitmaps\<close>

definition count_ones :: "u32 \<Rightarrow> nat" where
  "count_ones w = length (filter (bit w) [0..<32])"

definition bitmap_new :: u32 where
  "bitmap_new = 0"

definition bitmap_is_empty :: "u32 \<Rightarrow> bool" where
  "bitmap_is_empty bm \<longleftrightarrow> bm = 0"

definition bitmap_present :: "u32 \<Rightarrow> nat" where
  "bitmap_present bm = count_ones bm"

definition bitmap_once :: "nat \<Rightarrow> u32" where
  "bitmap_once b = level_mask b"

text \<open>\<^verbatim>\<open>ArrayIndex\<close> is a number with \<open>0xff\<close> standing for no entry.\<close>

definition not_found :: nat where
  "not_found = 0xff"

definition is_not_found :: "nat \<Rightarrow> bool" where
  "is_not_found i \<longleftrightarrow> i = 0xff"

definition get_found :: "nat \<Rightarrow> (nat, 'e) outcome" where
  "get_found i = assert_then (\<not> is_not_found i) (Ok i)"

definition get_index_sparse :: "u32 \<Rightarrow> nat \<Rightarrow> nat" where
  "get_index_sparse bm b =
     (let m = level_mask b
      in if bm AND m = 0 then not_found else count_ones (bm AND (m - 1)))"

definition get_sparse_pos :: "u32 \<Rightarrow> nat \<Rightarrow> nat" where
  "get_sparse_pos bm b = count_ones (bm AND (level_mask b - 1))"

definition bitmap_is_set :: "u32 \<Rightarrow> nat \<Rightarrow> bool" where
  "bitmap_is_set bm b \<longleftrightarrow> bm AND level_mask b \<noteq> 0"

definition bitmap_set_index :: "u32 \<Rightarrow> nat \<Rightarrow> u32" where
  "bitmap_set_index bm b = bm OR level_mask b"

definition bitmap_clear_index :: "u32 \<Rightarrow> nat \<Rightarrow> u32" where
  "bitmap_clear_index bm b = bm AND NOT (level_mask b)"

section \<open>The population count below a slot is its rank\<close>

definition rank :: "u32 \<Rightarrow> nat \<Rightarrow> nat" where
  "rank bm b = length (filter (bit bm) [0..<b])"

lemma bit_level_mask: "b < 32 \<Longrightarrow> bit (level_mask b) i \<longleftrightarrow> i = b"
  by (auto simp: level_mask_def push_bit_eq_mult bit_exp_iff)

lemma level_mask_minus_1: "b < 32 \<Longrightarrow> level_mask b - 1 = mask b"
  by (simp add: level_mask_def mask_eq_exp_minus_1 push_bit_eq_mult)

lemma bitmap_is_set_iff [simp]: "b < 32 \<Longrightarrow> bitmap_is_set bm b \<longleftrightarrow> bit bm b"
  by (auto simp: bitmap_is_set_def bit_eq_iff [of "bm AND level_mask b"] bit_and_iff bit_level_mask
      dest: bit_imp_le_length)

lemma bit_set_index: "b < 32 \<Longrightarrow> bit (bitmap_set_index bm b) i \<longleftrightarrow> i = b \<or> bit bm i"
  by (auto simp: bitmap_set_index_def bit_or_iff bit_level_mask)

lemma bit_clear_index: "b < 32 \<Longrightarrow> bit (bitmap_clear_index bm b) i \<longleftrightarrow> bit bm i \<and> i \<noteq> b"
  by (auto simp: bitmap_clear_index_def bit_and_iff bit_not_iff bit_level_mask dest: bit_imp_le_length)

lemma count_ones_eq_rank: "count_ones bm = rank bm 32"
  by (simp add: count_ones_def rank_def)

lemma rank_Suc: "rank bm (Suc b) = rank bm b + (if bit bm b then 1 else 0)"
  by (simp add: rank_def)

lemma rank_0 [simp]: "rank bm 0 = 0"
  by (simp add: rank_def)

lemma rank_le: "rank bm b \<le> b"
  using length_filter_le [of "bit bm" "[0..<b]"] by (simp add: rank_def)

lemma rank_mono: "a \<le> b \<Longrightarrow> rank bm a \<le> rank bm b"
  by (induction b) (auto simp: rank_Suc le_Suc_eq)

lemma rank_less: "bit bm a \<Longrightarrow> a < b \<Longrightarrow> rank bm a < rank bm b"
  using rank_mono [of "Suc a" b bm] by (simp add: rank_Suc)

lemma rank_inj: "bit bm a \<Longrightarrow> bit bm b \<Longrightarrow> rank bm a = rank bm b \<Longrightarrow> a = b"
  by (metis less_irrefl linorder_neqE_nat rank_less)

lemma rank_less_count: "b < 32 \<Longrightarrow> bit bm b \<Longrightarrow> rank bm b < count_ones bm"
  by (simp add: count_ones_eq_rank rank_less)

lemma rank_le_count: "b < 32 \<Longrightarrow> rank bm b \<le> count_ones bm"
  by (simp add: count_ones_eq_rank rank_mono)

lemma rank_cong: "(\<And>i. i < b \<Longrightarrow> bit bm i \<longleftrightarrow> bit cm i) \<Longrightarrow> rank bm b = rank cm b"
  by (induction b) (auto simp: rank_Suc)

lemma count_ones_below: "b < 32 \<Longrightarrow> count_ones (bm AND mask b) = rank bm b"
proof -
  assume b: "b < 32"
  have "rank (bm AND mask b) n = rank bm (min n b)" for n
  proof (induction n)
    case (Suc n)
    then show ?case
      using b by (cases "n < b") (auto simp: rank_Suc bit_and_iff bit_mask_iff min_def)
  qed simp
  from this [of 32] show ?thesis using b by (simp add: count_ones_eq_rank)
qed

lemma get_sparse_pos_rank [simp]: "b < 32 \<Longrightarrow> get_sparse_pos bm b = rank bm b"
  by (simp add: get_sparse_pos_def level_mask_minus_1 count_ones_below)

lemma get_index_sparse_rank:
  "b < 32 \<Longrightarrow> get_index_sparse bm b = (if bit bm b then rank bm b else not_found)"
  using bitmap_is_set_iff [of b bm]
  by (auto simp: get_index_sparse_def Let_def level_mask_minus_1 count_ones_below bitmap_is_set_def)

lemma rank_is_found [simp]: "b < 32 \<Longrightarrow> \<not> is_not_found (rank bm b)"
  using rank_le [of bm b] by (simp add: is_not_found_def)

lemma get_found_rank [simp]: "b < 32 \<Longrightarrow> get_found (rank bm b) = Ok (rank bm b)"
  by (simp add: get_found_def)

lemma not_found_is_not_found [simp]: "is_not_found not_found"
  by (simp add: is_not_found_def not_found_def)

lemma get_index_sparse_not_found [simp]:
  "b < 32 \<Longrightarrow> is_not_found (get_index_sparse bm b) \<longleftrightarrow> \<not> bit bm b"
  by (simp add: get_index_sparse_rank)

lemma rank_set_index:
  assumes "b < 32" and "\<not> bit bm b"
  shows "rank (bitmap_set_index bm b) i = rank bm i + (if b < i then 1 else 0)"
proof (induction i)
  case (Suc i)
  then show ?case using assms by (auto simp: rank_Suc bit_set_index less_Suc_eq)
qed simp

lemma rank_clear_index:
  assumes "b < 32" and "bit bm b"
  shows "rank bm i = rank (bitmap_clear_index bm b) i + (if b < i then 1 else 0)"
proof (induction i)
  case (Suc i)
  then show ?case using assms by (auto simp: rank_Suc bit_clear_index less_Suc_eq)
qed simp

lemma count_ones_set_index:
  "b < 32 \<Longrightarrow> \<not> bit bm b \<Longrightarrow> count_ones (bitmap_set_index bm b) = Suc (count_ones bm)"
  by (simp add: count_ones_eq_rank rank_set_index)

lemma count_ones_clear_index:
  "b < 32 \<Longrightarrow> bit bm b \<Longrightarrow> count_ones bm = Suc (count_ones (bitmap_clear_index bm b))"
  using rank_clear_index [of b bm 32] by (simp add: count_ones_eq_rank)

lemma count_ones_new [simp]: "count_ones bitmap_new = 0"
  by (simp add: count_ones_def bitmap_new_def)

lemma count_ones_0_iff: "count_ones bm = 0 \<longleftrightarrow> bitmap_is_empty bm"
  by (auto simp: count_ones_def bitmap_is_empty_def filter_empty_conv bit_eq_iff [of bm 0]
      dest: bit_imp_le_length)

text \<open>Every position of the dense array belongs to one occupied slot.\<close>

lemma rank_surj:
  "p < rank bm n \<Longrightarrow> \<exists>b < n. bit bm b \<and> rank bm b = p"
proof (induction n)
  case (Suc n)
  show ?case
  proof (cases "p < rank bm n")
    case True
    with Suc.IH show ?thesis using less_Suc_eq by blast
  next
    case False
    with Suc.prems have "bit bm n" and "rank bm n = p"
      by (auto simp: rank_Suc split: if_splits)
    then show ?thesis by blast
  qed
qed simp

lemma count_ones_surj: "p < count_ones bm \<Longrightarrow> \<exists>b < 32. bit bm b \<and> rank bm b = p"
  by (simp add: count_ones_eq_rank rank_surj)

end
