(* ===== verification/Hamt_Content.thy ===== *)
theory Hamt_Content
  imports Hamt_Bitmap
begin

text \<open>
  The leaves of the trie: \<^verbatim>\<open>imhamt/src/content.rs\<close>, with the array helpers of
  \<^verbatim>\<open>imhamt/src/helper.rs\<close> and the error types of \<^verbatim>\<open>imhamt/src/operation.rs\<close>. A leaf holds all
  the pairs whose keys share one hash, one pair in the usual case. The lemmas describe each
  operation on the list of pairs of the leaf, and show that the invariant \<open>leaf_inv\<close> (distinct
  keys, all with the hash of the leaf, and at least two pairs in the collision form) is kept and
  excludes every panic.
\<close>

section \<open>Errors of the operations\<close>

datatype insert_error = EntryExists

datatype remove_error = RemoveKeyNotFound | ValueNotMatching

datatype 'u update_error = UpdateKeyNotFound | ValueCallbackError 'u

datatype replace_error = ReplaceKeyNotFound

section \<open>Array helpers\<close>

definition clone_array_and_insert_at_pos :: "'a list \<Rightarrow> 'a \<Rightarrow> nat \<Rightarrow> ('a list, 'e) outcome" where
  "clone_array_and_insert_at_pos v a pos =
     (if pos \<le> length v then Ok (take pos v @ [a] @ drop pos v) else Panic)"

definition clone_array_and_set_at_pos :: "'a list \<Rightarrow> 'a \<Rightarrow> nat \<Rightarrow> ('a list, 'e) outcome" where
  "clone_array_and_set_at_pos v a pos =
     (if pos > 0 \<and> length v < pos then Panic
      else Ok ((if pos > 0 then take pos v else []) @ [a] @
               (if pos + 1 < length v then drop (pos + 1) v else [])))"

lemma clone_array_and_set_at_pos_eq:
  "pos < length v \<Longrightarrow> clone_array_and_set_at_pos v a pos = Ok (v[pos := a])"
  by (auto simp: clone_array_and_set_at_pos_def upd_conv_take_nth_drop)

section \<open>Leaves\<close>

type_synonym ('k, 'v) kv = "'k \<times> 'v"

datatype 'a small_vec = One 'a | Many "'a list"

datatype ('k, 'v) leaf_content =
  LeafContent (hashed: u64) (content: "('k, 'v) kv small_vec")

definition leaf_len :: "('k, 'v) leaf_content \<Rightarrow> nat" where
  "leaf_len c = (case content c of One _ \<Rightarrow> 1 | Many v \<Rightarrow> length v)"

definition leaf_single :: "u64 \<Rightarrow> ('k, 'v) kv \<Rightarrow> ('k, 'v) leaf_content" where
  "leaf_single h kv = LeafContent h (One kv)"

definition leaf_add ::
  "('k, 'v) leaf_content \<Rightarrow> ('k, 'v) kv \<Rightarrow> (('k, 'v) leaf_content, insert_error) outcome" where
  "leaf_add c kv =
     (case content c of
        One fkv \<Rightarrow>
          if fst kv = fst fkv then Err EntryExists
          else Ok (LeafContent (hashed c) (Many [fkv, kv]))
      | Many v \<Rightarrow>
          if list_ex (\<lambda>fkv. fst kv = fst fkv) v then Err EntryExists
          else Ok (LeafContent (hashed c) (Many (v @ [kv]))))"

definition leaf_find :: "('k, 'v) leaf_content \<Rightarrow> u64 \<Rightarrow> 'k \<Rightarrow> 'v option" where
  "leaf_find c h k =
     (if hashed c = h then
        (case content c of
           One fkv \<Rightarrow> if k = fst fkv then Some (snd fkv) else None
         | Many v \<Rightarrow> map_option snd (find (\<lambda>fkv. k = fst fkv) v))
      else None)"

text \<open>The loops that look for the first pair with a key and break, with its position.\<close>

fun find_pos :: "'k \<Rightarrow> ('k, 'v) kv list \<Rightarrow> nat option" where
  "find_pos k [] = None"
| "find_pos k (fkv # v) = (if k = fst fkv then Some 0 else map_option Suc (find_pos k v))"

text \<open>
  What is left of a collision leaf without the pair at a position: with two pairs the other one
  alone, otherwise the vector without the position.
\<close>

definition drop_at ::
  "u64 \<Rightarrow> ('k, 'v) kv list \<Rightarrow> nat \<Rightarrow> (('k, 'v) leaf_content option, 'e) outcome" where
  "drop_at h v pos =
     (if length v = 2 then
        obind (if pos = 0 then vec_get v 1 else vec_get v 0)
          (\<lambda>to_keep. Ok (Some (LeafContent h (One to_keep))))
      else obind (vec_remove v pos) (\<lambda>newv. Ok (Some (LeafContent h (Many newv)))))"

definition leaf_update ::
  "('k, 'v) leaf_content \<Rightarrow> u64 \<Rightarrow> 'k \<Rightarrow> ('v \<Rightarrow> ('v option, 'u) outcome)
   \<Rightarrow> (('k, 'v) leaf_content option, 'u update_error) outcome" where
  "leaf_update c h k f =
     (if hashed c \<noteq> h then Err UpdateKeyNotFound
      else case content c of
        One fkv \<Rightarrow>
          if k \<noteq> fst fkv then Err UpdateKeyNotFound
          else obind (map_err ValueCallbackError (f (snd fkv)))
            (\<lambda>r. case r of
                None \<Rightarrow> Ok None
              | Some newv \<Rightarrow> Ok (Some (LeafContent (hashed c) (One (k, newv)))))
      | Many v \<Rightarrow>
          assert_then (length v > 1)
            (case find_pos k v of
               None \<Rightarrow> Err UpdateKeyNotFound
             | Some pos \<Rightarrow>
                 obind (vec_get v pos)
                   (\<lambda>fkv. obind (map_err ValueCallbackError (f (snd fkv)))
                     (\<lambda>r. case r of
                         None \<Rightarrow> drop_at (hashed c) v pos
                       | Some newv \<Rightarrow>
                           obind (clone_array_and_set_at_pos v (k, newv) pos)
                             (\<lambda>a. Ok (Some (LeafContent (hashed c) (Many a)))))))) "

definition leaf_replace ::
  "('k, 'v) leaf_content \<Rightarrow> 'k \<Rightarrow> 'v \<Rightarrow> (('k, 'v) leaf_content \<times> 'v, replace_error) outcome" where
  "leaf_replace c k v =
     (case content c of
        One fkv \<Rightarrow>
          if k \<noteq> fst fkv then Err ReplaceKeyNotFound
          else Ok (LeafContent (hashed c) (One (fst fkv, v)), snd fkv)
      | Many vs \<Rightarrow>
          (case find_pos k vs of
             None \<Rightarrow> Err ReplaceKeyNotFound
           | Some pos \<Rightarrow>
               obind (vec_get vs pos)
                 (\<lambda>old. obind (clone_array_and_set_at_pos vs (k, v) pos)
                   (\<lambda>a. Ok (LeafContent (hashed c) (Many a), snd old)))))"

definition leaf_remove ::
  "('k, 'v) leaf_content \<Rightarrow> u64 \<Rightarrow> 'k \<Rightarrow> (('k, 'v) leaf_content option, remove_error) outcome" where
  "leaf_remove c h k =
     (if hashed c \<noteq> h then Err RemoveKeyNotFound
      else case content c of
        One fkv \<Rightarrow> if k \<noteq> fst fkv then Err RemoveKeyNotFound else Ok None
      | Many v \<Rightarrow>
          assert_then (length v > 1)
            (case find_pos k v of
               None \<Rightarrow> Err RemoveKeyNotFound
             | Some pos \<Rightarrow> if length v = 1 then Ok None else drop_at (hashed c) v pos))"

definition leaf_remove_match ::
  "('k, 'v) leaf_content \<Rightarrow> u64 \<Rightarrow> 'k \<Rightarrow> 'v
   \<Rightarrow> (('k, 'v) leaf_content option, remove_error) outcome" where
  "leaf_remove_match c h k val =
     (if hashed c \<noteq> h then Err RemoveKeyNotFound
      else case content c of
        One fkv \<Rightarrow>
          if k \<noteq> fst fkv then Err RemoveKeyNotFound
          else if val \<noteq> snd fkv then Err ValueNotMatching
          else Ok None
      | Many v \<Rightarrow>
          assert_then (length v > 1)
            (case find_pos k v of
               None \<Rightarrow> Err RemoveKeyNotFound
             | Some pos \<Rightarrow>
                 obind (vec_get v pos)
                   (\<lambda>fkv. if snd fkv \<noteq> val then Err ValueNotMatching
                     else if length v = 1 then Ok None
                     else drop_at (hashed c) v pos)))"

section \<open>Leaf iterators\<close>

datatype ('k, 'v) leaf_iterator = IterOne bool "('k, 'v) kv" | IterMany "('k, 'v) kv list"

definition leaf_iter :: "('k, 'v) leaf_content \<Rightarrow> ('k, 'v) leaf_iterator" where
  "leaf_iter c = (case content c of Many v \<Rightarrow> IterMany v | One kv \<Rightarrow> IterOne False kv)"

fun leaf_iter_next :: "('k, 'v) leaf_iterator \<Rightarrow> ('k, 'v) kv option \<times> ('k, 'v) leaf_iterator" where
  "leaf_iter_next (IterMany []) = (None, IterMany [])"
| "leaf_iter_next (IterMany (kv # v)) = (Some kv, IterMany v)"
| "leaf_iter_next (IterOne consumed o1) =
     (if consumed then (None, IterOne consumed o1) else (Some o1, IterOne True o1))"

section \<open>The pairs of a leaf\<close>

definition leaf_kvs :: "('k, 'v) leaf_content \<Rightarrow> ('k, 'v) kv list" where
  "leaf_kvs c = (case content c of One kv \<Rightarrow> [kv] | Many v \<Rightarrow> v)"

definition leaf_inv :: "('k \<Rightarrow> u64) \<Rightarrow> ('k, 'v) leaf_content \<Rightarrow> bool" where
  "leaf_inv hs c \<longleftrightarrow>
     distinct (map fst (leaf_kvs c)) \<and>
     list_all (\<lambda>kv. hs (fst kv) = hashed c) (leaf_kvs c) \<and>
     (case content c of One _ \<Rightarrow> True | Many v \<Rightarrow> 2 \<le> length v)"

fun opt_kvs :: "('k, 'v) leaf_content option \<Rightarrow> ('k, 'v) kv list" where
  "opt_kvs None = []"
| "opt_kvs (Some c) = leaf_kvs c"

lemma find_pos_None_iff: "find_pos k v = None \<longleftrightarrow> k \<notin> fst ` set v"
  by (induction v) auto

lemma find_pos_SomeD:
  "find_pos k v = Some i \<Longrightarrow> i < length v \<and> fst (v ! i) = k \<and> map_of v k = Some (snd (v ! i))"
  by (induction v arbitrary: i) (auto split: if_splits)

lemma map_of_eq_Some_find: "map_option snd (find (\<lambda>p. k = fst p) v) = map_of v k"
  by (induction v) auto

lemma leaf_find_eq: "leaf_find c h k = (if hashed c = h then map_of (leaf_kvs c) k else None)"
  by (cases c) (auto simp: leaf_find_def leaf_kvs_def map_of_eq_Some_find split: small_vec.splits)

lemma leaf_len_eq: "leaf_len c = length (leaf_kvs c)"
  by (simp add: leaf_len_def leaf_kvs_def split: small_vec.splits)

lemma leaf_kvs_nonempty: "leaf_inv hs c \<Longrightarrow> leaf_kvs c \<noteq> []"
  by (auto simp: leaf_inv_def leaf_kvs_def split: small_vec.splits)

lemma leaf_single_simps [simp]:
  "hashed (leaf_single h kv) = h" "leaf_kvs (leaf_single h kv) = [kv]"
  by (simp_all add: leaf_single_def leaf_kvs_def)

lemma leaf_inv_single [simp]: "leaf_inv hs (leaf_single h kv) \<longleftrightarrow> hs (fst kv) = h"
  by (simp add: leaf_inv_def leaf_single_def leaf_kvs_def)

lemma leaf_inv_hash: "leaf_inv hs c \<Longrightarrow> (k, v) \<in> set (leaf_kvs c) \<Longrightarrow> hs k = hashed c"
  by (auto simp: leaf_inv_def list_all_iff)

lemma leaf_inv_distinct: "leaf_inv hs c \<Longrightarrow> distinct (map fst (leaf_kvs c))"
  by (simp add: leaf_inv_def)

text \<open>A leaf operation that rewrites the pairs keeps the invariant if the new pairs are good.\<close>

lemma leaf_inv_many:
  "leaf_inv hs (LeafContent h (Many v)) \<longleftrightarrow>
     distinct (map fst v) \<and> (\<forall>kv \<in> set v. hs (fst kv) = h) \<and> 2 \<le> length v"
  by (simp add: leaf_inv_def leaf_kvs_def list_all_iff)

lemma leaf_inv_one: "leaf_inv hs (LeafContent h (One kv)) \<longleftrightarrow> hs (fst kv) = h"
  by (simp add: leaf_inv_def leaf_kvs_def)

lemma leaf_kvs_simps [simp]:
  "leaf_kvs (LeafContent h (One kv)) = [kv]" "leaf_kvs (LeafContent h (Many v)) = v"
  by (simp_all add: leaf_kvs_def)

lemma leaf_cases [case_names One Many]:
  obtains (One) kv where "c = LeafContent (hashed c) (One kv)"
  | (Many) v where "c = LeafContent (hashed c) (Many v)"
  by (cases c; cases "content c") auto

lemma leaf_add_eq:
  assumes "leaf_inv hs c" and "hs k = hashed c"
  shows "if k \<in> fst ` set (leaf_kvs c) then leaf_add c (k, v) = Err EntryExists
         else \<exists>c'. leaf_add c (k, v) = Ok c' \<and> leaf_inv hs c' \<and> hashed c' = hashed c \<and>
                leaf_kvs c' = leaf_kvs c @ [(k, v)]"
  using assms
  by (cases c rule: leaf_cases; cases c)
    (auto simp: leaf_add_def leaf_inv_one leaf_inv_many list_ex_iff image_iff)

text \<open>Removing the pair at the position of a key is filtering it out of the list.\<close>

lemma filter_neq_find_pos:
  assumes "distinct (map fst v)" and "find_pos k v = Some i"
  shows "take i v @ drop (Suc i) v = filter (\<lambda>p. fst p \<noteq> k) v"
  using assms
proof (induction v arbitrary: i)
  case (Cons p v)
  show ?case
  proof (cases "k = fst p")
    case True
    with Cons.prems have "\<forall>q \<in> set v. fst q \<noteq> k" by (auto simp: image_iff)
    then have "filter (\<lambda>q. fst q \<noteq> k) v = v" by (simp add: filter_id_conv)
    with True Cons.prems show ?thesis by simp
  next
    case False
    with Cons.prems obtain j where "find_pos k v = Some j" "i = Suc j" by auto
    with Cons False show ?thesis by simp
  qed
qed simp

lemma update_find_pos:
  assumes "distinct (map fst v)" and "find_pos k v = Some i"
  shows "v[i := (k, x)] = map (\<lambda>p. if fst p = k then (k, x) else p) v"
  using assms
proof (induction v arbitrary: i)
  case (Cons p v)
  show ?case
  proof (cases "k = fst p")
    case True
    with Cons.prems have "\<forall>q \<in> set v. fst q \<noteq> k" by (auto simp: image_iff)
    then have "map (\<lambda>q. if fst q = k then (k, x) else q) v = v" by (simp add: map_idI)
    with True Cons.prems show ?thesis by simp
  next
    case False
    with Cons.prems obtain j where "find_pos k v = Some j" "i = Suc j" by auto
    with Cons False show ?thesis by simp
  qed
qed simp

lemma drop_at_eq:
  assumes "leaf_inv hs (LeafContent h (Many v))" and "find_pos k v = Some i"
  shows "\<exists>c'. drop_at h v i = Ok (Some c') \<and> leaf_inv hs c' \<and> hashed c' = h \<and>
           leaf_kvs c' = filter (\<lambda>p. fst p \<noteq> k) v"
proof -
  have d: "distinct (map fst v)" and all: "\<forall>kv \<in> set v. hs (fst kv) = h" and len: "2 \<le> length v"
    using assms(1) by (auto simp: leaf_inv_many)
  have i: "i < length v" using find_pos_SomeD [OF assms(2)] by simp
  note flt = filter_neq_find_pos [OF d assms(2)]
  show ?thesis
  proof (cases "length v = 2")
    case True
    then obtain a b where v: "v = [a, b]"
      by (metis One_nat_def Suc_1 length_0_conv length_Suc_conv)
    then show ?thesis
      using assms(2) d all by (cases a; cases b) (auto simp: drop_at_def vec_get_def leaf_inv_one split: if_splits)
  next
    case False
    let ?w = "take i v @ drop (Suc i) v"
    have "set ?w \<subseteq> set v" by (auto dest: in_set_takeD in_set_dropD)
    moreover have "distinct (map fst ?w)" unfolding flt using d by (rule distinct_map_filter)
    moreover have "2 \<le> length ?w" using False len i by auto
    ultimately have "leaf_inv hs (LeafContent h (Many ?w))"
      using all by (auto simp: leaf_inv_many)
    with False i flt show ?thesis by (simp add: drop_at_def vec_remove_def)
  qed
qed

definition removed_leaf ::
  "('k \<Rightarrow> u64) \<Rightarrow> ('k, 'v) leaf_content \<Rightarrow> 'k \<Rightarrow> ('k, 'v) leaf_content option \<Rightarrow> bool" where
  "removed_leaf hs c k r \<longleftrightarrow>
     opt_kvs r = filter (\<lambda>p. fst p \<noteq> k) (leaf_kvs c) \<and>
     (\<forall>c'. r = Some c' \<longrightarrow> leaf_inv hs c' \<and> hashed c' = hashed c)"

definition rewritten_leaf ::
  "('k \<Rightarrow> u64) \<Rightarrow> ('k, 'v) leaf_content \<Rightarrow> 'k \<Rightarrow> 'v \<Rightarrow> ('k, 'v) leaf_content \<Rightarrow> bool" where
  "rewritten_leaf hs c k x c' \<longleftrightarrow>
     leaf_kvs c' = map (\<lambda>p. if fst p = k then (k, x) else p) (leaf_kvs c) \<and>
     leaf_inv hs c' \<and> hashed c' = hashed c"

text \<open>
  Both removals are updates whose callback asks for deletion: \<^verbatim>\<open>remove\<close> unconditionally and
  \<^verbatim>\<open>remove_match\<close> when the value is the expected one.
\<close>

fun update_to_remove_error :: "unit update_error \<Rightarrow> remove_error" where
  "update_to_remove_error UpdateKeyNotFound = RemoveKeyNotFound"
| "update_to_remove_error (ValueCallbackError ()) = ValueNotMatching"

definition delete_if :: "('v \<Rightarrow> bool) \<Rightarrow> 'v \<Rightarrow> ('v option, unit) outcome" where
  "delete_if P x = (if P x then Ok None else Err ())"

lemma drop_at_map_err: "map_err g (drop_at h v i) = drop_at h v i"
  by (simp add: drop_at_def vec_get_def vec_remove_def)

lemma leaf_remove_as_update:
  "leaf_remove c h k = map_err update_to_remove_error (leaf_update c h k (delete_if (\<lambda>_. True)))"
  by (auto simp: leaf_remove_def leaf_update_def delete_if_def assert_then_def drop_at_map_err vec_get_def
      split: small_vec.splits option.splits dest: find_pos_SomeD)

lemma leaf_remove_match_as_update:
  "leaf_remove_match c h k x =
     map_err update_to_remove_error (leaf_update c h k (delete_if (\<lambda>y. y = x)))"
  by (auto simp: leaf_remove_match_def leaf_update_def delete_if_def assert_then_def drop_at_map_err
      vec_get_def split: small_vec.splits option.splits dest: find_pos_SomeD)

lemma leaf_rewrite_inv:
  assumes "leaf_inv hs (LeafContent h (Many v))" and "find_pos k v = Some i"
  shows "leaf_inv hs (LeafContent h (Many (v[i := (k, x)])))"
proof -
  have i: "i < length v" "fst (v ! i) = k" using find_pos_SomeD [OF assms(2)] by auto
  then have "map fst (v[i := (k, x)]) = map fst v"
    by (metis fst_conv list_update_id map_update)
  moreover have "\<forall>kv \<in> set (v[i := (k, x)]). hs (fst kv) = h"
    using assms(1) i by (metis calculation image_eqI image_iff leaf_inv_many list.set_map)
  ultimately show ?thesis using assms(1) by (simp add: leaf_inv_many)
qed

lemma leaf_replace_eq:
  assumes "leaf_inv hs c"
  shows "case map_of (leaf_kvs c) k of
           None \<Rightarrow> leaf_replace c k x = Err ReplaceKeyNotFound
         | Some old \<Rightarrow> \<exists>c'. leaf_replace c k x = Ok (c', old) \<and> rewritten_leaf hs c k x c'"
proof (cases c rule: leaf_cases)
  case (One kv)
  then show ?thesis
    using assms by (cases c; cases kv) (auto simp: leaf_replace_def rewritten_leaf_def leaf_inv_one)
next
  case (Many v)
  then obtain h' where c: "c = LeafContent h' (Many v)" by blast
  show ?thesis
  proof (cases "find_pos k v")
    case None
    then have "map_of v k = None" by (simp add: find_pos_None_iff map_of_eq_None_iff)
    with None c show ?thesis by (auto simp: leaf_replace_def)
  next
    case (Some i)
    have d: "distinct (map fst v)" using assms c by (simp add: leaf_inv_many)
    from find_pos_SomeD [OF Some] update_find_pos [OF d Some, of x]
      leaf_rewrite_inv [OF _ Some, of hs h' x] assms c Some show ?thesis
      by (auto simp: leaf_replace_def rewritten_leaf_def vec_get_def clone_array_and_set_at_pos_eq)
  qed
qed

text \<open>
  \<^verbatim>\<open>update\<close> runs the callback on the value of the key and then removes or rewrites the pair.
\<close>

lemma leaf_update_eq:
  assumes "leaf_inv hs c"
  shows "case (if hashed c = h then map_of (leaf_kvs c) k else None) of
           None \<Rightarrow> leaf_update c h k f = Err UpdateKeyNotFound
         | Some old \<Rightarrow>
             (case f old of
                Ok None \<Rightarrow> \<exists>r. leaf_update c h k f = Ok r \<and> removed_leaf hs c k r
              | Ok (Some x) \<Rightarrow>
                  \<exists>c'. leaf_update c h k f = Ok (Some c') \<and> rewritten_leaf hs c k x c'
              | Err u \<Rightarrow> leaf_update c h k f = Err (ValueCallbackError u)
              | Panic \<Rightarrow> leaf_update c h k f = Panic)"
proof (cases c rule: leaf_cases)
  case (One kv)
  then show ?thesis
    using assms
    by (cases c; cases kv)
      (auto simp: leaf_update_def removed_leaf_def rewritten_leaf_def leaf_inv_one
        split: outcome.split option.split)
next
  case (Many v)
  then obtain h' where c: "c = LeafContent h' (Many v)" by blast
  have len: "2 \<le> length v" and d: "distinct (map fst v)"
    using assms c by (auto simp: leaf_inv_many)
  show ?thesis
  proof (cases "find_pos k v")
    case None
    then have "map_of v k = None" by (simp add: find_pos_None_iff map_of_eq_None_iff)
    with None c len show ?thesis by (auto simp: leaf_update_def)
  next
    case (Some i)
    from find_pos_SomeD [OF Some] update_find_pos [OF d Some] drop_at_eq [of hs h' v, OF _ Some]
      leaf_rewrite_inv [OF _ Some, of hs h'] assms c Some len show ?thesis
      by (auto simp: leaf_update_def removed_leaf_def rewritten_leaf_def vec_get_def
          clone_array_and_set_at_pos_eq split: outcome.split option.split)
  qed
qed

end
