(* ===== verification/Hamt_Node.thy ===== *)
theory Hamt_Node
  imports Hamt_Content "HOL-Library.Multiset"
begin

text \<open>
  The nodes of the trie: \<^verbatim>\<open>imhamt/src/node/reference.rs\<close>. A node stores its children in a vector
  that has one entry per set bit of the bitmap. \<open>child_at\<close> reads such a node as a partial function
  from the 32 slots to entries; the lemmas of the first part show that every slot operation is an
  update of that function. The second part is the recursive operations. The termination of \<open>insert_rec\<close>
  needs an argument: when it meets a leaf with another hash it recurses into a node it has just
  built, so the recursion ends only because two different hashes differ at some later level.
\<close>

section \<open>Data\<close>

datatype ('k, 'v) entry = Leaf "('k, 'v) leaf_content" | SubNode "('k, 'v) node"
     and ('k, 'v) node = Node (bitmap: u32) (children: "('k, 'v) entry list")

section \<open>Slot operations\<close>

definition node_new :: "('k, 'v) node" where
  "node_new = Node bitmap_new []"

definition node_get_child :: "('k, 'v) node \<Rightarrow> nat \<Rightarrow> (('k, 'v) entry, 'e) outcome" where
  "node_get_child n at =
     assert_then (is_not_found at = False) (obind (get_found at) (vec_get (children n)))"

definition node_set_at ::
  "('k, 'v) node \<Rightarrow> nat \<Rightarrow> ('k, 'v) entry \<Rightarrow> (('k, 'v) node, 'e) outcome" where
  "node_set_at n idx child =
     assert_then (bitmap_is_set (bitmap n) idx = False)
       (let pos = get_sparse_pos (bitmap n) idx
        in obind (get_found pos)
             (\<lambda>p. obind (clone_array_and_insert_at_pos (children n) child p)
               (\<lambda>v. Ok (Node (bitmap_set_index (bitmap n) idx) v))))"

definition unchecked_set_mut ::
  "('k, 'v) node \<Rightarrow> nat \<Rightarrow> ('k, 'v) entry \<Rightarrow> (('k, 'v) node, 'e) outcome" where
  "unchecked_set_mut n idx child =
     assert_then (bitmap_is_set (bitmap n) idx = False)
       (let pos = get_sparse_pos (bitmap n) idx
        in obind (get_found pos)
             (\<lambda>p. obind (vec_insert (children n) p child)
               (\<lambda>v. Ok (Node (bitmap_set_index (bitmap n) idx) v))))"

definition node_clear_at ::
  "('k, 'v) node \<Rightarrow> nat \<Rightarrow> (('k, 'v) node option, 'e) outcome" where
  "node_clear_at n idx =
     assert_then (bitmap_is_set (bitmap n) idx = True)
       (let new_bitmap = bitmap_clear_index (bitmap n) idx
        in if bitmap_is_empty new_bitmap then Ok None
           else obind (get_found (get_sparse_pos (bitmap n) idx))
             (\<lambda>pos. obind (vec_remove (children n) pos)
               (\<lambda>v. Ok (Some (Node new_bitmap v)))))"

definition node_replace_at ::
  "('k, 'v) node \<Rightarrow> nat \<Rightarrow> ('k, 'v) entry \<Rightarrow> (('k, 'v) node, 'e) outcome" where
  "node_replace_at n idx child =
     obind (get_found idx)
       (\<lambda>i. obind (vec_set (children n) i child) (\<lambda>v. Ok (Node (bitmap n) v)))"

definition clear_or_replace_at ::
  "('k, 'v) node \<Rightarrow> nat \<Rightarrow> ('k, 'v) entry option \<Rightarrow> (('k, 'v) node option, 'e) outcome" where
  "clear_or_replace_at n idx child =
     assert_then (bitmap_is_set (bitmap n) idx = True)
       (case child of
          None \<Rightarrow> node_clear_at n idx
        | Some v \<Rightarrow>
            obind (node_replace_at n (get_index_sparse (bitmap n) idx) v) (\<lambda>m. Ok (Some m)))"

section \<open>A node as a partial function on slots\<close>

definition node_wf :: "('k, 'v) node \<Rightarrow> bool" where
  "node_wf n \<longleftrightarrow> length (children n) = count_ones (bitmap n)"

definition child_at :: "('k, 'v) node \<Rightarrow> nat \<Rightarrow> ('k, 'v) entry option" where
  "child_at n b = (if bit (bitmap n) b then Some (children n ! rank (bitmap n) b) else None)"

lemma bit_slot: "bit (bm :: u32) b \<Longrightarrow> b < 32"
  using bit_imp_le_length [of bm b] by simp

lemma child_at_bound: "child_at n b = Some e \<Longrightarrow> b < 32"
  by (auto simp: child_at_def dest: bit_slot split: if_splits)

lemma child_at_None_iff: "child_at n b = None \<longleftrightarrow> \<not> bit (bitmap n) b"
  by (simp add: child_at_def)

lemma node_wf_new [simp]: "node_wf node_new" "child_at node_new b = None"
  by (simp_all add: node_wf_def node_new_def child_at_def bitmap_new_def count_ones_def)

lemma nth_slots_rank:
  assumes "bit bm b" and "b < n"
  shows "filter (bit bm) [0..<n] ! rank bm b = b"
proof -
  have "[0..<n] = [0..<b] @ b # [Suc b..<n]"
    using assms(2) upt_add_eq_append [of 0 b "n - b"] by (simp add: upt_conv_Cons)
  then show ?thesis using assms(1) by (simp add: rank_def nth_append)
qed

lemma node_children_eq:
  assumes "node_wf n"
  shows "children n = map (\<lambda>b. the (child_at n b)) (filter (bit (bitmap n)) [0..<32])"
proof (rule nth_equalityI)
  show len: "length (children n) =
    length (map (\<lambda>b. the (child_at n b)) (filter (bit (bitmap n)) [0..<32]))"
    using assms by (simp add: node_wf_def count_ones_def)
  fix i assume "i < length (children n)"
  then have i: "i < count_ones (bitmap n)" using assms by (simp add: node_wf_def)
  then obtain b where "b < 32" "bit (bitmap n) b" "rank (bitmap n) b = i"
    using count_ones_surj by blast
  then show "children n ! i =
      map (\<lambda>b. the (child_at n b)) (filter (bit (bitmap n)) [0..<32]) ! i"
    using i nth_slots_rank [of "bitmap n" b 32] by (auto simp: child_at_def count_ones_def)
qed

lemma child_at_rank_length:
  "node_wf n \<Longrightarrow> child_at n b = Some e \<Longrightarrow> rank (bitmap n) b < length (children n)"
  by (auto simp: node_wf_def child_at_def split: if_splits intro: rank_less_count bit_slot)

lemma get_child_child_at:
  "node_wf n \<Longrightarrow> child_at n b = Some e \<Longrightarrow>
   node_get_child n (get_index_sparse (bitmap n) b) = Ok e"
  using child_at_rank_length [of n b e] child_at_bound [of n b e]
  by (auto simp: node_get_child_def get_index_sparse_rank vec_get_def child_at_def split: if_splits)

lemma is_not_found_child_at [simp]:
  "b < 32 \<Longrightarrow> is_not_found (get_index_sparse (bitmap n) b) \<longleftrightarrow> child_at n b = None"
  by (simp add: child_at_None_iff)

declare get_index_sparse_not_found [simp del]

lemma nth_insert_at:
  assumes "p \<le> length xs" and "i \<le> length xs"
  shows "(take p xs @ x # drop p xs) ! i = (if i < p then xs ! i else if i = p then x else xs ! (i - 1))"
  using assms by (auto simp: nth_append nth_Cons')

text \<open>The nodes that the slot operations build, and what they hold.\<close>

definition add_slot :: "('k, 'v) node \<Rightarrow> nat \<Rightarrow> ('k, 'v) entry \<Rightarrow> ('k, 'v) node" where
  "add_slot n b e =
     (let r = rank (bitmap n) b
      in Node (bitmap_set_index (bitmap n) b) (take r (children n) @ e # drop r (children n)))"

definition put_slot :: "('k, 'v) node \<Rightarrow> nat \<Rightarrow> ('k, 'v) entry \<Rightarrow> ('k, 'v) node" where
  "put_slot n b e = Node (bitmap n) ((children n)[rank (bitmap n) b := e])"

definition del_slot :: "('k, 'v) node \<Rightarrow> nat \<Rightarrow> ('k, 'v) node" where
  "del_slot n b =
     (let r = rank (bitmap n) b
      in Node (bitmap_clear_index (bitmap n) b) (take r (children n) @ drop (Suc r) (children n)))"

lemma node_set_at_eq:
  assumes "node_wf n" and "child_at n b = None" and "b < 32"
  shows "node_set_at n b e = Ok (add_slot n b e)" and "node_wf (add_slot n b e)"
proof -
  have "\<not> bit (bitmap n) b" using assms(2) by (simp add: child_at_None_iff)
  moreover have "rank (bitmap n) b \<le> length (children n)"
    using assms by (simp add: node_wf_def rank_le_count)
  ultimately show "node_set_at n b e = Ok (add_slot n b e)" and "node_wf (add_slot n b e)"
    using assms
    by (simp_all add: node_set_at_def clone_array_and_insert_at_pos_def add_slot_def node_wf_def
        count_ones_set_index Let_def)
qed

lemma child_at_add_slot:
  assumes "node_wf n" and "child_at n b = None" and "b < 32"
  shows "child_at (add_slot n b e) = (child_at n)(b \<mapsto> e)"
proof
  fix i
  let ?bm = "bitmap n" and ?cs = "children n"
  have nb: "\<not> bit ?bm b" using assms(2) by (simp add: child_at_None_iff)
  have p: "rank ?bm b \<le> length ?cs"
    using assms by (simp add: node_wf_def rank_le_count)
  show "child_at (add_slot n b e) i = ((child_at n)(b \<mapsto> e)) i"
  proof (cases "bit ?bm i")
    case True
    have "rank ?bm i < length ?cs"
      using True assms(1) by (simp add: node_wf_def rank_less_count bit_slot)
    moreover have "i < b \<Longrightarrow> rank ?bm i < rank ?bm b" using True by (rule rank_less)
    moreover have "b < i \<Longrightarrow> rank ?bm b \<le> rank ?bm i" by (simp add: rank_mono)
    moreover have "i \<noteq> b" using True nb by blast
    ultimately show ?thesis
      using True nb p assms(3)
      by (cases "i < b")
        (auto simp: add_slot_def Let_def child_at_def bit_set_index rank_set_index nth_insert_at)
  next
    case False
    then show ?thesis
      using nb p assms(3)
      by (auto simp: add_slot_def Let_def child_at_def bit_set_index rank_set_index nth_insert_at)
  qed
qed

lemma unchecked_set_mut_eq: "unchecked_set_mut n b e = node_set_at n b e"
  by (simp add: unchecked_set_mut_def node_set_at_def vec_insert_def
      clone_array_and_insert_at_pos_def cong: if_cong)

lemma node_replace_at_eq:
  assumes "node_wf n" and "child_at n b = Some e"
  shows "node_replace_at n (get_index_sparse (bitmap n) b) x = Ok (put_slot n b x)"
    and "node_wf (put_slot n b x)"
  using assms child_at_rank_length [OF assms] child_at_bound [OF assms(2)]
  by (auto simp: node_replace_at_def get_index_sparse_rank vec_set_def put_slot_def node_wf_def
      child_at_def split: if_splits)

lemma child_at_put_slot:
  assumes "node_wf n" and "child_at n b = Some e"
  shows "child_at (put_slot n b x) = (child_at n)(b \<mapsto> x)"
proof
  fix i
  let ?bm = "bitmap n"
  have b: "bit ?bm b" using assms(2) by (auto simp: child_at_def split: if_splits)
  have "i \<noteq> b \<Longrightarrow> bit ?bm i \<Longrightarrow> rank ?bm b \<noteq> rank ?bm i" using b rank_inj by metis
  then show "child_at (put_slot n b x) i = ((child_at n)(b \<mapsto> x)) i"
    using b child_at_rank_length [OF assms] by (cases "i = b") (auto simp: child_at_def put_slot_def)
qed

lemma nth_remove_at:
  assumes "p < length xs" and "i < length xs - 1"
  shows "(take p xs @ drop (Suc p) xs) ! i = (if i < p then xs ! i else xs ! Suc i)"
  using assms by (auto simp: nth_append)

lemma del_slot_length:
  assumes "node_wf n" and "child_at n b = Some e"
  shows "length (children n) = Suc (count_ones (bitmap_clear_index (bitmap n) b))"
proof -
  have "bit (bitmap n) b" using assms(2) by (auto simp: child_at_def split: if_splits)
  from count_ones_clear_index [OF child_at_bound [OF assms(2)] this] assms(1)
  show ?thesis by (simp only: node_wf_def)
qed

lemma child_at_del_slot:
  assumes "node_wf n" and "child_at n b = Some e"
  shows "child_at (del_slot n b) = (child_at n)(b := None)"
proof
  fix i
  let ?bm = "bitmap n" and ?cs = "children n" and ?n = "del_slot n b"
  let ?bm' = "bitmap_clear_index ?bm b"
  have sel: "bitmap ?n = ?bm'" "children ?n = take (rank ?bm b) ?cs @ drop (Suc (rank ?bm b)) ?cs"
    by (simp_all add: del_slot_def Let_def)
  have b: "bit ?bm b" "b < 32"
    using assms(2) child_at_bound [OF assms(2)] by (auto simp: child_at_def split: if_splits)
  note r = child_at_rank_length [OF assms] and cnt = del_slot_length [OF assms]
  show "child_at ?n i = ((child_at n)(b := None)) i"
  proof (cases "bit ?bm' i")
    case True
    then have i: "bit ?bm i" "i \<noteq> b" "i < 32" using b bit_slot by (auto simp: bit_clear_index)
    have lt: "rank ?bm' i < length ?cs - 1"
      using True i(3) cnt rank_less_count [of i ?bm'] by simp
    have rk: "rank ?bm i = rank ?bm' i + (if b < i then 1 else 0)"
      using b by (intro rank_clear_index)
    have "children ?n ! rank ?bm' i = ?cs ! rank ?bm i"
    proof (cases "i < b")
      case True
      then have "rank ?bm' i = rank ?bm i" using rk by simp
      then show ?thesis
        unfolding sel nth_remove_at [OF r lt] using rank_less [OF i(1) True] by argo
    next
      case False
      then have "b < i" using i(2) by simp
      then have "Suc (rank ?bm' i) = rank ?bm i" using rk by simp
      moreover from this have "\<not> rank ?bm' i < rank ?bm b"
        using rank_less [OF b(1) \<open>b < i\<close>] by linarith
      ultimately show ?thesis unfolding sel nth_remove_at [OF r lt] by argo
    qed
    then have "child_at ?n i = child_at n i" unfolding child_at_def sel(1) using True i(1) by argo
    with i(2) show ?thesis by (simp only: fun_upd_apply if_False)
  next
    case False
    then have "child_at ?n i = None" by (simp only: child_at_None_iff sel not_False_eq_True)
    moreover have "((child_at n)(b := None)) i = None"
      using False b by (auto simp: child_at_None_iff bit_clear_index)
    ultimately show ?thesis by argo
  qed
qed

lemma node_clear_at_eq:
  assumes "node_wf n" and "child_at n b = Some e"
  shows "node_clear_at n b = Ok (if children (del_slot n b) = [] then None else Some (del_slot n b))"
    and "node_wf (del_slot n b)"
proof -
  have b: "bit (bitmap n) b" "b < 32"
    using assms(2) child_at_bound [OF assms(2)] by (auto simp: child_at_def split: if_splits)
  note r = child_at_rank_length [OF assms] and cnt = del_slot_length [OF assms]
  show wf: "node_wf (del_slot n b)"
    using r cnt by (simp add: node_wf_def del_slot_def Let_def)
  have "children (del_slot n b) = [] \<longleftrightarrow> bitmap_is_empty (bitmap_clear_index (bitmap n) b)"
    using wf count_ones_0_iff [of "bitmap_clear_index (bitmap n) b"]
    by (metis del_slot_def length_0_conv node.sel(1) node_wf_def)
  then show "node_clear_at n b =
      Ok (if children (del_slot n b) = [] then None else Some (del_slot n b))"
    using b r by (simp add: node_clear_at_def vec_remove_def del_slot_def Let_def)
qed

definition write_slot :: "('k, 'v) node \<Rightarrow> nat \<Rightarrow> ('k, 'v) entry option \<Rightarrow> ('k, 'v) node option" where
  "write_slot n b x =
     (case x of
        None \<Rightarrow> if children (del_slot n b) = [] then None else Some (del_slot n b)
      | Some e \<Rightarrow> Some (put_slot n b e))"

lemma clear_or_replace_at_eq:
  assumes "node_wf n" and "child_at n b = Some e"
  shows "clear_or_replace_at n b x = Ok (write_slot n b x)"
proof -
  have "bitmap_is_set (bitmap n) b"
    using assms(2) child_at_bound [OF assms(2)] by (auto simp: child_at_def split: if_splits)
  then show ?thesis
    by (simp add: clear_or_replace_at_def write_slot_def node_replace_at_eq [OF assms]
        node_clear_at_eq [OF assms] split: option.split)
qed

section \<open>Recursive operations\<close>

fun entry_count :: "('k, 'v) entry \<Rightarrow> nat" and node_count :: "('k, 'v) node \<Rightarrow> nat" where
  "entry_count (Leaf c) = 0"
| "entry_count (SubNode n) = node_count n"
| "node_count (Node bm cs) = 1 + sum_list (map entry_count cs)"

text \<open>
  How many levels below \<^verbatim>\<open>lvl + 1\<close> the hash of the leaf in the way of \<^verbatim>\<open>h\<close> first differs
  from \<^verbatim>\<open>h\<close>. It bounds the chain of nodes that an insertion builds.
\<close>

definition split_gap :: "('k, 'v) node \<Rightarrow> u64 \<Rightarrow> nat \<Rightarrow> nat" where
  "split_gap n h lvl =
     (case (node_get_child n (get_index_sparse (bitmap n) (level_index h lvl)) ::
              (('k, 'v) entry, insert_error) outcome) of
        Ok (Leaf c) \<Rightarrow>
          (if hashed c = h then 0
           else LEAST d. level_index (hashed c) (lvl + 1 + d) \<noteq> level_index h (lvl + 1 + d))
      | _ \<Rightarrow> 0)"

lemma get_child_in_children: "node_get_child n i = Ok e \<Longrightarrow> e \<in> set (children n)"
  by (auto simp: node_get_child_def vec_get_def get_found_def split: if_splits)

lemma node_count_get_child: "node_get_child n i = Ok (SubNode m) \<Longrightarrow> node_count m < node_count n"
  using member_le_sum_list [of "node_count m" "map entry_count (children n)"]
  by (cases n) (force dest!: get_child_in_children simp: image_iff intro: le_imp_less_Suc)

lemma unchecked_set_mut_new:
  "b < 32 \<Longrightarrow> unchecked_set_mut node_new b e = Ok (Node (bitmap_set_index bitmap_new b) [e])"
  by (simp add: unchecked_set_mut_def node_new_def bitmap_new_def vec_insert_def rank_def
      get_found_def is_not_found_def)

lemma split_gap_step:
  assumes "node_get_child n (get_index_sparse (bitmap n) (level_index h lvl)) =
             (Ok (Leaf c) :: (('k, 'v) entry, insert_error) outcome)"
    and "hashed c \<noteq> h" and "level_index (hashed c) (lvl + 1) = level_index h (lvl + 1)"
  shows "split_gap (Node (bitmap_set_index bitmap_new (level_index h (lvl + 1))) [Leaf c]) h (lvl + 1)
           < split_gap n h lvl"
proof -
  let ?b = "level_index h (lvl + 1)"
  let ?n = "Node (bitmap_set_index bitmap_new ?b) [Leaf c] :: ('k, 'v) node"
  let ?P = "\<lambda>d. level_index (hashed c) (lvl + 1 + d) \<noteq> level_index h (lvl + 1 + d)"
  have "get_index_sparse (bitmap ?n) ?b = 0"
    by (simp add: get_index_sparse_rank bit_set_index rank_def bitmap_new_def)
  then have "node_get_child ?n (get_index_sparse (bitmap ?n) ?b) =
      (Ok (Leaf c) :: (('k, 'v) entry, insert_error) outcome)"
    by (simp add: node_get_child_def is_not_found_def get_found_def vec_get_def)
  then have gap': "split_gap ?n h (lvl + 1) = (LEAST d. ?P (Suc d))"
    using assms(2) by (simp add: split_gap_def)
  obtain d where d: "?P d" using level_index_differs_later [OF assms(2)] by blast
  have "\<not> ?P 0" using assms(3) by simp
  then have "(LEAST d. ?P d) = Suc (LEAST d. ?P (Suc d))" using d by (intro Least_Suc)
  with gap' assms(1,2) show ?thesis by (simp add: split_gap_def)
qed

function insert_rec ::
  "('k, 'v) node \<Rightarrow> u64 \<Rightarrow> nat \<Rightarrow> ('k, 'v) kv \<Rightarrow> (('k, 'v) node, insert_error) outcome" where
  "insert_rec n h lvl kv =
     (let level_hash = level_index h lvl;
          idx = get_index_sparse (bitmap n) level_hash
      in if is_not_found idx then node_set_at n level_hash (Leaf (leaf_single h kv))
         else obind (node_get_child n idx)
           (\<lambda>ent. case ent of
               Leaf c \<Rightarrow>
                 if hashed c = h then
                   obind (leaf_add c kv) (\<lambda>c'. node_replace_at n idx (Leaf c'))
                 else
                   (let leaf_idx = level_index (hashed c) (lvl + 1);
                        entry_next_idx = level_index h (lvl + 1)
                    in obind (unchecked_set_mut node_new leaf_idx ent)
                      (\<lambda>subnode.
                        if entry_next_idx \<noteq> leaf_idx then
                          obind (unchecked_set_mut subnode entry_next_idx (Leaf (leaf_single h kv)))
                            (\<lambda>subnode'. node_replace_at n idx (SubNode subnode'))
                        else
                          obind (insert_rec subnode h (lvl + 1) kv)
                            (\<lambda>r. node_replace_at n idx (SubNode r))))
             | SubNode sub \<Rightarrow>
                 if lvl > 13 then Panic
                 else obind (insert_rec sub h (lvl + 1) kv)
                   (\<lambda>r. node_replace_at n idx (SubNode r))))"
  by pat_completeness auto

termination insert_rec
proof (relation "measures [\<lambda>(n, h, lvl, kv). node_count n, \<lambda>(n, h, lvl, kv). split_gap n h lvl]",
    goal_cases)
  case (2 n h lvl kv b idx ent c leaf_idx next_idx subnode)
  then have "subnode = Node (bitmap_set_index bitmap_new next_idx) [Leaf c]"
    by (simp add: unchecked_set_mut_new)
  moreover have "node_count n \<ge> 1" by (cases n) simp
  ultimately show ?case
    using 2 split_gap_step [of n h lvl c] by auto
next
  case (3 n h lvl kv b idx ent sub)
  then show ?case using node_count_get_child by auto
qed simp

declare insert_rec.simps [simp del]

datatype ('k, 'v) lookup_ret = Found 'v | NotFound | ContinueIn "('k, 'v) node"

definition lookup_one :: "('k, 'v) node \<Rightarrow> u64 \<Rightarrow> nat \<Rightarrow> 'k \<Rightarrow> (('k, 'v) lookup_ret, 'e) outcome" where
  "lookup_one n h lvl k =
     (let level_hash = level_index h lvl;
          idx = get_index_sparse (bitmap n) level_hash
      in if is_not_found idx then Ok NotFound
         else obind (node_get_child n idx)
           (\<lambda>ent. case ent of
               Leaf c \<Rightarrow> (case leaf_find c h k of None \<Rightarrow> Ok NotFound | Some v \<Rightarrow> Ok (Found v))
             | SubNode sub \<Rightarrow> Ok (ContinueIn sub)))"

function remove_eq_rec ::
  "('k, 'v) node \<Rightarrow> u64 \<Rightarrow> nat \<Rightarrow> 'k \<Rightarrow> 'v \<Rightarrow> (('k, 'v) node option, remove_error) outcome" where
  "remove_eq_rec n h lvl k v =
     (let level_hash = level_index h lvl;
          idx = get_index_sparse (bitmap n) level_hash
      in if is_not_found idx then Err RemoveKeyNotFound
         else obind (node_get_child n idx)
           (\<lambda>ent. case ent of
               Leaf c \<Rightarrow>
                 obind (leaf_remove_match c h k v)
                   (\<lambda>new_content. clear_or_replace_at n level_hash (map_option Leaf new_content))
             | SubNode sub \<Rightarrow>
                 obind (remove_eq_rec sub h (lvl + 1) k v)
                   (\<lambda>r. case r of
                       None \<Rightarrow> node_clear_at n level_hash
                     | Some newsub \<Rightarrow> obind (node_replace_at n idx (SubNode newsub)) (\<lambda>m. Ok (Some m)))))"
  by pat_completeness auto
termination remove_eq_rec
  by (relation "measure (\<lambda>(n, h, lvl, k, v). node_count n)") (auto simp: node_count_get_child)

function remove_rec ::
  "('k, 'v) node \<Rightarrow> u64 \<Rightarrow> nat \<Rightarrow> 'k \<Rightarrow> (('k, 'v) node option, remove_error) outcome" where
  "remove_rec n h lvl k =
     (let level_hash = level_index h lvl;
          idx = get_index_sparse (bitmap n) level_hash
      in if is_not_found idx then Err RemoveKeyNotFound
         else obind (node_get_child n idx)
           (\<lambda>ent. case ent of
               Leaf c \<Rightarrow>
                 obind (leaf_remove c h k)
                   (\<lambda>new_content. clear_or_replace_at n level_hash (map_option Leaf new_content))
             | SubNode sub \<Rightarrow>
                 obind (remove_rec sub h (lvl + 1) k)
                   (\<lambda>r. case r of
                       None \<Rightarrow> node_clear_at n level_hash
                     | Some newsub \<Rightarrow> obind (node_replace_at n idx (SubNode newsub)) (\<lambda>m. Ok (Some m)))))"
  by pat_completeness auto
termination remove_rec
  by (relation "measure (\<lambda>(n, h, lvl, k). node_count n)") (auto simp: node_count_get_child)

function update_rec ::
  "('k, 'v) node \<Rightarrow> u64 \<Rightarrow> nat \<Rightarrow> 'k \<Rightarrow> ('v \<Rightarrow> ('v option, 'u) outcome)
   \<Rightarrow> (('k, 'v) node option, 'u update_error) outcome" where
  "update_rec n h lvl k f =
     (let level_hash = level_index h lvl;
          idx = get_index_sparse (bitmap n) level_hash
      in if is_not_found idx then Err UpdateKeyNotFound
         else obind (node_get_child n idx)
           (\<lambda>ent. case ent of
               Leaf c \<Rightarrow>
                 obind (leaf_update c h k f)
                   (\<lambda>new_content. clear_or_replace_at n level_hash (map_option Leaf new_content))
             | SubNode sub \<Rightarrow>
                 obind (update_rec sub h (lvl + 1) k f)
                   (\<lambda>r. case r of
                       None \<Rightarrow> node_clear_at n level_hash
                     | Some newsub \<Rightarrow> obind (node_replace_at n idx (SubNode newsub)) (\<lambda>m. Ok (Some m)))))"
  by pat_completeness auto
termination update_rec
  by (relation "measure (\<lambda>(n, h, lvl, k, f). node_count n)") (auto simp: node_count_get_child)

function replace_rec ::
  "('k, 'v) node \<Rightarrow> u64 \<Rightarrow> nat \<Rightarrow> 'k \<Rightarrow> 'v \<Rightarrow> (('k, 'v) node \<times> 'v, replace_error) outcome" where
  "replace_rec n h lvl k v =
     (let level_hash = level_index h lvl;
          idx = get_index_sparse (bitmap n) level_hash
      in if is_not_found idx then Err ReplaceKeyNotFound
         else obind (node_get_child n idx)
           (\<lambda>ent. case ent of
               Leaf c \<Rightarrow>
                 obind (leaf_replace c k v)
                   (\<lambda>(new_content, oldv).
                     obind (node_replace_at n idx (Leaf new_content)) (\<lambda>m. Ok (m, oldv)))
             | SubNode sub \<Rightarrow>
                 obind (replace_rec sub h (lvl + 1) k v)
                   (\<lambda>(newsub, oldv).
                     obind (node_replace_at n idx (SubNode newsub)) (\<lambda>m. Ok (m, oldv)))))"
  by pat_completeness auto
termination replace_rec
  by (relation "measure (\<lambda>(n, h, lvl, k, v). node_count n)") (auto simp: node_count_get_child)

declare remove_eq_rec.simps [simp del] remove_rec.simps [simp del]
  update_rec.simps [simp del] replace_rec.simps [simp del]

fun size_entry :: "('k, 'v) entry \<Rightarrow> nat" and size_rec :: "('k, 'v) node \<Rightarrow> nat" where
  "size_entry (Leaf c) = leaf_len c"
| "size_entry (SubNode sub) = size_rec sub"
| "size_rec (Node bm cs) = fold (\<lambda>c sum. sum + size_entry c) cs 0"

fun depth_rec :: "('k, 'v) node \<Rightarrow> nat" where
  "depth_rec (Node bm cs) =
     fold (\<lambda>c max_depth. case c of Leaf _ \<Rightarrow> max_depth | SubNode sub \<Rightarrow> max max_depth (depth_rec sub)) cs 0"

end
