(* ===== verification/Hamt_Trie.thy ===== *)
theory Hamt_Trie
  imports Hamt_Node
begin

text \<open>
  Correctness of the recursive operations of \<^verbatim>\<open>imhamt/src/node/reference.rs\<close>. The trie invariant
  \<open>node_inv\<close> says that the children of a node match its bitmap, that every key below slot \<open>b\<close> of
  a node at depth \<open>l\<close> has \<open>b\<close> as the index of its hash at level \<open>l\<close>, that leaves satisfy
  \<open>leaf_inv\<close>, and that a subnode is not empty and sits at depth at most 12. The lemmas give the effect
  of each operation on the multiset of stored pairs.
\<close>

section \<open>Stored pairs\<close>

fun entry_kvs :: "('k, 'v) entry \<Rightarrow> ('k, 'v) kv list" and node_kvs :: "('k, 'v) node \<Rightarrow> ('k, 'v) kv list" where
  "entry_kvs (Leaf c) = leaf_kvs c"
| "entry_kvs (SubNode n) = node_kvs n"
| "node_kvs (Node bm cs) = concat (map entry_kvs cs)"

definition slot_kvs :: "('k, 'v) node \<Rightarrow> nat \<Rightarrow> ('k, 'v) kv list" where
  "slot_kvs n b = (case child_at n b of None \<Rightarrow> [] | Some e \<Rightarrow> entry_kvs e)"

definition node_rest :: "('k, 'v) node \<Rightarrow> nat \<Rightarrow> ('k, 'v) kv multiset" where
  "node_rest n b = (\<Sum>i \<in> {..<32} - {b}. mset (slot_kvs n i))"

lemma node_kvs_children: "node_kvs n = concat (map entry_kvs (children n))"
  by (cases n) simp

lemma node_kvs_new [simp]: "node_kvs node_new = []"
  by (simp add: node_new_def)

lemma node_kvs_slots:
  assumes "node_wf n"
  shows "node_kvs n = concat (map (slot_kvs n) [0..<32])"
proof -
  have "concat (map (\<lambda>b. entry_kvs (the (child_at n b))) (filter (bit (bitmap n)) xs)) =
      concat (map (slot_kvs n) xs)" for xs
    by (induction xs) (auto simp: slot_kvs_def child_at_def)
  then show ?thesis
    unfolding node_kvs_children by (subst node_children_eq [OF assms]) (simp add: comp_def)
qed

lemma mset_node_kvs:
  assumes "node_wf n" and "b < 32"
  shows "mset (node_kvs n) = mset (slot_kvs n b) + node_rest n b"
proof -
  have "mset (node_kvs n) = (\<Sum>i \<in> {..<32}. mset (slot_kvs n i))"
    unfolding node_kvs_slots [OF assms(1)] mset_concat
    by (simp add: sum_list_sum_nth atLeast0LessThan)
  also have "\<dots> = mset (slot_kvs n b) + node_rest n b"
    unfolding node_rest_def using assms(2) by (intro sum.remove) auto
  finally show ?thesis .
qed

lemma node_rest_upd: "child_at n' = (child_at n)(b := x) \<Longrightarrow> node_rest n' b = node_rest n b"
  unfolding node_rest_def by (rule sum.cong) (auto simp: slot_kvs_def)

lemma mset_node_upd:
  assumes "node_wf n'" and "b < 32" and "child_at n' = (child_at n)(b := x)"
  shows "mset (node_kvs n') = mset (case x of None \<Rightarrow> [] | Some e \<Rightarrow> entry_kvs e) + node_rest n b"
  using mset_node_kvs [OF assms(1,2)] node_rest_upd [OF assms(3)] assms(3)
  by (simp add: slot_kvs_def)

section \<open>The trie invariant\<close>

definition on_path :: "u64 \<Rightarrow> nat list \<Rightarrow> bool" where
  "on_path h pre \<longleftrightarrow> map (level_index h) [0..<length pre] = pre"

lemma zip_size [termination_simp]: "(b, e) \<in> set (zip bs cs) \<Longrightarrow> f e < Suc (size_list f cs)"
  by (auto dest!: set_zip_rightD intro!: le_imp_less_Suc size_list_estimation')

fun entry_inv :: "('k \<Rightarrow> u64) \<Rightarrow> nat list \<Rightarrow> ('k, 'v) entry \<Rightarrow> bool"
  and node_inv :: "('k \<Rightarrow> u64) \<Rightarrow> nat list \<Rightarrow> ('k, 'v) node \<Rightarrow> bool" where
  "entry_inv hs pre (Leaf c) \<longleftrightarrow> leaf_inv hs c \<and> on_path (hashed c) pre"
| "entry_inv hs pre (SubNode n) \<longleftrightarrow> length pre \<le> 12 \<and> children n \<noteq> [] \<and> node_inv hs pre n"
| "node_inv hs pre (Node bm cs) \<longleftrightarrow>
     length cs = count_ones bm \<and>
     (\<forall>(b, e) \<in> set (zip (filter (bit bm) [0..<32]) cs). entry_inv hs (pre @ [b]) e)"

lemma on_path_Nil [simp]: "on_path h []"
  by (simp add: on_path_def)

lemma on_path_snoc [simp]:
  "on_path h (pre @ [b]) \<longleftrightarrow> on_path h pre \<and> level_index h (length pre) = b"
  by (simp add: on_path_def)

lemma on_path_eq: "on_path g pre \<Longrightarrow> on_path h pre \<Longrightarrow> i < length pre \<Longrightarrow> level_index g i = level_index h i"
  unfolding on_path_def by (metis add_0 diff_zero length_upt nth_map nth_upt)

lemma on_path_different: "on_path g pre \<Longrightarrow> on_path h pre \<Longrightarrow> g \<noteq> h \<Longrightarrow> length pre \<le> 12"
  using level_index_determines_hash [of g h] on_path_eq [of g pre h] by (cases "length pre \<le> 12") auto

lemma node_inv_iff:
  "node_inv hs pre n \<longleftrightarrow>
     node_wf n \<and> (\<forall>b e. child_at n b = Some e \<longrightarrow> entry_inv hs (pre @ [b]) e)"
proof (cases n)
  case (Node bm cs)
  let ?P = "\<lambda>b e. entry_inv hs (pre @ [b]) e"
  have "(\<forall>(b, e) \<in> set (zip (filter (bit bm) [0..<32]) cs). ?P b e) \<longleftrightarrow>
      (\<forall>b e. child_at n b = Some e \<longrightarrow> ?P b e)" if len: "length cs = count_ones bm"
  proof -
    let ?bs = "filter (bit bm) [0..<32]"
    have "node_wf n" using len Node by (simp add: node_wf_def)
    from node_children_eq [OF this] Node
    have "cs = map (\<lambda>b. the (child_at n b)) ?bs" by simp
    then have "set (zip ?bs cs) = (\<lambda>b. (b, the (child_at n b))) ` set ?bs"
      by (simp add: zip_map2 zip_same_conv_map image_image)
    then show ?thesis
      using Node by (auto simp: child_at_def dest: bit_slot split: if_splits)
  qed
  with Node show ?thesis by (auto simp: node_wf_def)
qed

lemma node_inv_child:
  "node_inv hs pre n \<Longrightarrow> child_at n b = Some e \<Longrightarrow> node_wf n \<and> entry_inv hs (pre @ [b]) e"
  by (simp add: node_inv_iff)

lemma node_inv_new [simp]: "node_inv hs pre node_new"
  by (simp add: node_inv_iff)

lemma inv_keys_on_path:
  "entry_inv hs pre e \<Longrightarrow> (k, v) \<in> set (entry_kvs e) \<Longrightarrow> on_path (hs k) pre"
  "node_inv hs pre n \<Longrightarrow> (k, v) \<in> set (node_kvs n) \<Longrightarrow> on_path (hs k) pre"
proof (induction hs pre e and hs pre n rule: entry_inv_node_inv.induct)
  case (1 hs pre c)
  then show ?case by (auto dest: leaf_inv_hash)
next
  case (3 hs pre bm cs)
  then obtain e where e: "e \<in> set cs" "(k, v) \<in> set (entry_kvs e)" by auto
  moreover have "length (filter (bit bm) [0..<32]) = length cs"
    using 3 by (simp add: count_ones_def)
  ultimately obtain b where "(b, e) \<in> set (zip (filter (bit bm) [0..<32]) cs)"
    by (metis in_set_impl_in_set_zip2)
  with 3 e show ?case by fastforce
qed auto

lemma child_key_slot:
  "node_inv hs pre n \<Longrightarrow> (k, v) \<in> set (slot_kvs n b) \<Longrightarrow> b = level_index (hs k) (length pre)"
  using inv_keys_on_path(1) [of hs "pre @ [b]" "the (child_at n b)" k v]
  by (cases "child_at n b") (auto simp: node_inv_iff slot_kvs_def)

lemma rest_no_key:
  assumes "node_inv hs pre n"
  shows "(k, v) \<notin># node_rest n (level_index (hs k) (length pre))"
  using child_key_slot [OF assms] by (auto simp: node_rest_def set_mset_sum)

lemma distinct_concat_map:
  assumes "distinct xs" and "\<And>x. x \<in> set xs \<Longrightarrow> distinct (f x)"
    and "\<And>x y. x \<in> set xs \<Longrightarrow> y \<in> set xs \<Longrightarrow> x \<noteq> y \<Longrightarrow> set (f x) \<inter> set (f y) = {}"
  shows "distinct (concat (map f xs))"
  using assms by (induction xs) fastforce+

lemma inv_distinct:
  fixes e :: "('k, 'v) entry" and n :: "('k, 'v) node"
  shows "entry_inv hs pre e \<Longrightarrow> distinct (map fst (entry_kvs e))"
    and "node_inv hs pre n \<Longrightarrow> distinct (map fst (node_kvs n))"
proof (induction hs pre e and hs pre n rule: entry_inv_node_inv.induct)
  case (1 hs pre c)
  then show ?case by (auto intro: leaf_inv_distinct)
next
  case (3 hs pre bm cs)
  let ?n = "Node bm cs"
  have wf: "node_wf ?n" using 3(2) by (simp add: node_inv_iff del: node_inv.simps)
  have slot: "distinct (map fst (slot_kvs ?n b))" for b
  proof (cases "child_at ?n b")
    case (Some e)
    let ?bs = "filter (bit bm) [0..<32]"
    have b: "b < 32" "bit bm b" "e = cs ! rank bm b"
      using Some child_at_bound [OF Some] by (auto simp: child_at_def split: if_splits)
    then have "?bs ! rank bm b = b" "rank bm b < length ?bs" "rank bm b < length cs"
      using nth_slots_rank [of bm b 32] rank_less_count [of b bm] wf
      by (auto simp: count_ones_def node_wf_def)
    with b have "(b, e) \<in> set (zip ?bs cs)" by (auto simp: set_zip intro!: exI [of _ "rank bm b"])
    with 3 have "distinct (map fst (entry_kvs e))" by fastforce
    with Some show ?thesis by (simp add: slot_kvs_def)
  qed (simp add: slot_kvs_def)
  have "set (map fst (slot_kvs ?n a)) \<inter> set (map fst (slot_kvs ?n b)) = {}" if "a \<noteq> b" for a b
  proof -
    have "level_index (hs k) (length pre) = c" if "k \<in> set (map fst (slot_kvs ?n c))" for k c
      using that child_key_slot [OF 3(2), of k _ c] by auto
    with that show ?thesis by blast
  qed
  with slot have "distinct (concat (map (\<lambda>b. map fst (slot_kvs ?n b)) [0..<32]))"
    by (intro distinct_concat_map) auto
  then show ?case
    unfolding node_kvs_slots [OF wf] by (simp only: map_concat map_map comp_def)
qed simp

section \<open>Writing a slot\<close>

text \<open>
  The lemmas below are about the slot \<open>b\<close> that a key \<open>k\<close> uses in a node. What happens in
  that slot decides what happens to the key: the other slots do not hold it.
\<close>

lemma map_of_mset_cong:
  assumes "distinct (map fst xs)" and "mset xs = mset ys"
  shows "map_of xs = map_of ys"
proof
  fix k
  have "distinct (map fst ys)" using assms by (metis mset_eq_imp_distinct_iff mset_map)
  moreover have "set xs = set ys" using assms(2) by (rule mset_eq_setD)
  ultimately show "map_of xs k = map_of ys k"
    using assms(1) by (metis map_of_eq_Some_iff not_Some_eq)
qed

lemma map_of_slot:
  assumes "node_inv hs pre n" and "b = level_index (hs k) (length pre)"
  shows "map_of (node_kvs n) k = map_of (slot_kvs n b) k"
proof -
  have wf: "node_wf n" using assms(1) by (simp add: node_inv_iff)
  have d: "distinct (map fst (node_kvs n))" by (rule inv_distinct(2) [OF assms(1)])
  have m: "mset (node_kvs n) = mset (slot_kvs n b) + node_rest n b"
    using mset_node_kvs [OF wf] assms(2) by simp
  have sub: "set (slot_kvs n b) \<subseteq> set (node_kvs n)"
    using arg_cong [OF m, of set_mset] by auto
  have "(k, v) \<in> set (node_kvs n) \<longleftrightarrow> (k, v) \<in> set (slot_kvs n b)" for v
    using arg_cong [OF m, of set_mset] rest_no_key [OF assms(1), of k v] assms(2) by auto
  moreover have "distinct (map fst (slot_kvs n b))"
    using assms(1) inv_distinct(1) [of hs "pre @ [b]"]
    by (auto simp: slot_kvs_def node_inv_iff split: option.splits)
  ultimately show ?thesis
    using d by (metis map_of_eq_Some_iff not_Some_eq)
qed

lemma inv_upd:
  assumes "node_inv hs pre n" and "node_wf n'" and "child_at n' = (child_at n)(b := x)"
    and "\<And>e. x = Some e \<Longrightarrow> entry_inv hs (pre @ [b]) e"
  shows "node_inv hs pre n'"
  using assms by (auto simp: node_inv_iff)

lemma children_nonempty: "node_wf n \<Longrightarrow> child_at n b = Some e \<Longrightarrow> children n \<noteq> []"
  using child_at_rank_length by fastforce

lemma put_slot_inv:
  assumes "node_inv hs pre n" and "child_at n b = Some e" and "entry_inv hs (pre @ [b]) x"
  shows "node_inv hs pre (put_slot n b x)" and "children (put_slot n b x) \<noteq> []"
    and "mset (node_kvs (put_slot n b x)) = mset (entry_kvs x) + node_rest n b"
proof -
  have wf: "node_wf n" using assms(1) by (simp add: node_inv_iff)
  note m = node_replace_at_eq(2) [OF wf assms(2), of x] child_at_put_slot [OF wf assms(2), of x]
  show "node_inv hs pre (put_slot n b x)" using assms(1,3) m by (auto intro: inv_upd)
  show "children (put_slot n b x) \<noteq> []" using m by (intro children_nonempty [of _ b]) auto
  show "mset (node_kvs (put_slot n b x)) = mset (entry_kvs x) + node_rest n b"
    using mset_node_upd [OF m(1) child_at_bound [OF assms(2)] m(2)] by simp
qed

lemma add_slot_inv:
  assumes "node_inv hs pre n" and "child_at n b = None" and "b < 32" and "entry_inv hs (pre @ [b]) x"
  shows "node_inv hs pre (add_slot n b x)" and "children (add_slot n b x) \<noteq> []"
    and "mset (node_kvs (add_slot n b x)) = mset (entry_kvs x) + mset (node_kvs n)"
proof -
  have wf: "node_wf n" using assms(1) by (simp add: node_inv_iff)
  note m = node_set_at_eq(2) [OF wf assms(2,3), of x] child_at_add_slot [OF wf assms(2,3), of x]
  show "node_inv hs pre (add_slot n b x)" using assms(1,4) m by (auto intro: inv_upd)
  show "children (add_slot n b x) \<noteq> []" using m by (intro children_nonempty [of _ b]) auto
  show "mset (node_kvs (add_slot n b x)) = mset (entry_kvs x) + mset (node_kvs n)"
    using mset_node_upd [OF m(1) assms(3) m(2)] mset_node_kvs [OF wf assms(3)] assms(2)
    by (simp add: slot_kvs_def)
qed

lemma del_slot_inv:
  assumes "node_inv hs pre n" and "child_at n b = Some e"
  shows "node_inv hs pre (del_slot n b)" and "mset (node_kvs (del_slot n b)) = node_rest n b"
proof -
  have wf: "node_wf n" using assms(1) by (simp add: node_inv_iff)
  note m = node_clear_at_eq(2) [OF wf assms(2)] child_at_del_slot [OF wf assms(2)]
  show "node_inv hs pre (del_slot n b)" using assms(1) m by (auto intro: inv_upd)
  show "mset (node_kvs (del_slot n b)) = node_rest n b"
    using mset_node_upd [OF m(1) child_at_bound [OF assms(2)] m(2)] by simp
qed

definition opt_node_ok ::
  "('k \<Rightarrow> u64) \<Rightarrow> nat list \<Rightarrow> ('k, 'v) node option \<Rightarrow> ('k, 'v) kv multiset \<Rightarrow> bool" where
  "opt_node_ok hs pre r M \<longleftrightarrow>
     (case r of
        None \<Rightarrow> M = {#}
      | Some m \<Rightarrow> node_inv hs pre m \<and> children m \<noteq> [] \<and> mset (node_kvs m) = M)"

section \<open>Insertion\<close>

lemma entry_inv_single:
  "on_path (hs k) pre \<Longrightarrow> b = level_index (hs k) (length pre) \<Longrightarrow>
   entry_inv hs (pre @ [b]) (Leaf (leaf_single (hs k) (k, v)))"
  by simp

lemma key_in_slot:
  assumes "node_inv hs pre n" and "b = level_index (hs k) (length pre)"
  shows "k \<in> fst ` set (node_kvs n) \<longleftrightarrow> k \<in> fst ` set (slot_kvs n b)"
  using map_of_slot [OF assms] by (metis map_of_eq_None_iff)

lemma insert_rec_unfold:
  assumes "node_wf n" and "child_at n (level_index h lvl) = Some ent"
  shows "insert_rec n h lvl kv =
    (let b = level_index h lvl in
     case ent of
       Leaf c \<Rightarrow>
         if hashed c = h then obind (leaf_add c kv) (\<lambda>c'. Ok (put_slot n b (Leaf c')))
         else if level_index h (lvl + 1) \<noteq> level_index (hashed c) (lvl + 1) then
           Ok (put_slot n b (SubNode (add_slot (add_slot node_new (level_index (hashed c) (lvl + 1)) ent)
                 (level_index h (lvl + 1)) (Leaf (leaf_single h kv)))))
         else obind (insert_rec (add_slot node_new (level_index (hashed c) (lvl + 1)) ent) h (lvl + 1) kv)
                (\<lambda>r. Ok (put_slot n b (SubNode r)))
     | SubNode sub \<Rightarrow>
         if lvl > 13 then Panic
         else obind (insert_rec sub h (lvl + 1) kv) (\<lambda>r. Ok (put_slot n b (SubNode r))))"
proof -
  let ?sub = "\<lambda>g. add_slot node_new (level_index g (lvl + 1)) ent"
  have "node_wf (?sub g)" "child_at (?sub g) = Map.empty(level_index g (lvl + 1) \<mapsto> ent)" for g
    using node_set_at_eq(2) [of node_new "level_index g (lvl + 1)" ent]
      child_at_add_slot [of node_new "level_index g (lvl + 1)" ent] by (auto simp: fun_eq_iff)
  then show ?thesis
    using assms
    by (subst insert_rec.simps)
      (auto simp: Let_def get_child_child_at node_replace_at_eq unchecked_set_mut_eq node_set_at_eq
        split: entry.split)
qed

definition inserted ::
  "('k \<Rightarrow> u64) \<Rightarrow> nat list \<Rightarrow> ('k, 'v) node \<Rightarrow> ('k, 'v) kv \<Rightarrow> ('k, 'v) node \<Rightarrow> bool" where
  "inserted hs pre n kv m \<longleftrightarrow>
     node_inv hs pre m \<and> children m \<noteq> [] \<and> mset (node_kvs m) = add_mset kv (mset (node_kvs n))"

lemma inserted_put_slot:
  assumes "node_inv hs pre n" and "child_at n b = Some e" and "entry_inv hs (pre @ [b]) x"
    and "mset (entry_kvs x) = add_mset kv (mset (entry_kvs e))"
  shows "inserted hs pre n kv (put_slot n b x)"
proof -
  have "node_wf n" using assms(1) by (simp add: node_inv_iff)
  from mset_node_kvs [OF this child_at_bound [OF assms(2)]]
  have "mset (node_kvs n) = mset (entry_kvs e) + node_rest n b"
    using assms(2) by (simp add: slot_kvs_def)
  with put_slot_inv [OF assms(1-3)] assms(4) show ?thesis by (simp add: inserted_def)
qed

lemma inserted_put_sub:
  assumes "node_inv hs pre n" and "child_at n b = Some e" and "length (pre @ [b]) \<le> 12"
    and "inserted hs (pre @ [b]) sub kv m" and "mset (node_kvs sub) = mset (entry_kvs e)"
  shows "inserted hs pre n kv (put_slot n b (SubNode m))"
  using assms by (intro inserted_put_slot [OF assms(1,2)]) (auto simp: inserted_def)

text \<open>The node with one leaf that an insertion makes out of a leaf that is in its way.\<close>

lemma pushed_leaf:
  assumes "entry_inv hs pre (Leaf c)" and "b = level_index (hashed c) (length pre)"
  shows "node_inv hs pre (add_slot node_new b (Leaf c))"
    and "mset (node_kvs (add_slot node_new b (Leaf c))) = mset (leaf_kvs c)"
    and "child_at (add_slot node_new b (Leaf c)) = Map.empty(b \<mapsto> Leaf c)"
  using add_slot_inv [of hs pre node_new b "Leaf c"] child_at_add_slot [of node_new b "Leaf c"] assms
  by (auto simp: fun_eq_iff)

text \<open>What an insertion does: refuse a key that is present, and otherwise add the pair.\<close>

definition insert_spec ::
  "('k \<Rightarrow> u64) \<Rightarrow> nat list \<Rightarrow> ('k, 'v) node \<Rightarrow> nat \<Rightarrow> 'k \<Rightarrow> 'v \<Rightarrow> bool" where
  "insert_spec hs pre n lvl k v \<longleftrightarrow>
     (if k \<in> fst ` set (node_kvs n) then insert_rec n (hs k) lvl (k, v) = Err EntryExists
      else \<exists>m. insert_rec n (hs k) lvl (k, v) = Ok m \<and> inserted hs pre n (k, v) m)"

lemma insert_empty_slot:
  assumes "node_inv hs pre n" and "on_path (hs k) pre" and "length pre = lvl"
    and "child_at n (level_index (hs k) lvl) = None"
  shows "insert_spec hs pre n lvl k v"
proof -
  let ?b = "level_index (hs k) lvl"
  have "node_wf n" using assms(1) by (simp add: node_inv_iff)
  then have "insert_rec n (hs k) lvl (k, v) = Ok (add_slot n ?b (Leaf (leaf_single (hs k) (k, v))))"
    using assms(4) by (subst insert_rec.simps) (simp add: Let_def node_set_at_eq)
  moreover have "k \<notin> fst ` set (node_kvs n)"
    using key_in_slot [OF assms(1), of ?b k] assms(3,4) by (simp add: slot_kvs_def)
  ultimately show ?thesis
    using add_slot_inv [OF assms(1,4) _ entry_inv_single] assms(2,3)
    by (auto simp: inserted_def insert_spec_def)
qed

lemma insert_same_hash:
  assumes "node_inv hs pre n" and "length pre = lvl"
    and "child_at n (level_index (hs k) lvl) = Some (Leaf c)" and "hashed c = hs k"
  shows "insert_spec hs pre n lvl k v"
proof -
  let ?b = "level_index (hs k) lvl"
  have wf: "node_wf n" and c: "leaf_inv hs c" "on_path (hashed c) (pre @ [?b])"
    using node_inv_child [OF assms(1,3)] by auto
  have "k \<in> fst ` set (node_kvs n) \<longleftrightarrow> k \<in> fst ` set (leaf_kvs c)"
    using key_in_slot [OF assms(1), of ?b k] assms(2,3) by (simp add: slot_kvs_def)
  with leaf_add_eq [OF c(1), of k v] insert_rec_unfold [OF wf assms(3), of "(k, v)"] c(2) assms(4)
    inserted_put_slot [OF assms(1,3), of "Leaf _" "(k, v)"]
  show ?thesis by (auto simp: Let_def insert_spec_def)
qed

lemma insert_other_hash:
  assumes "node_inv hs pre n" and "on_path (hs k) pre" and "length pre = lvl"
    and "child_at n (level_index (hs k) lvl) = Some (Leaf c)" and "hashed c \<noteq> hs k"
    and "S = add_slot node_new (level_index (hashed c) (lvl + 1)) (Leaf c)"
  shows "length (pre @ [level_index (hs k) lvl]) \<le> 12"
    and "k \<notin> fst ` set (node_kvs n)" and "k \<notin> fst ` set (node_kvs S)"
    and "node_inv hs (pre @ [level_index (hs k) lvl]) S" and "mset (node_kvs S) = mset (leaf_kvs c)"
    and "child_at S = Map.empty(level_index (hashed c) (lvl + 1) \<mapsto> Leaf c)"
proof -
  let ?b = "level_index (hs k) lvl"
  have c: "leaf_inv hs c" "on_path (hashed c) (pre @ [?b])"
    using node_inv_child [OF assms(1,4)] by auto
  show "length (pre @ [?b]) \<le> 12"
    using on_path_different [OF c(2) _ assms(5)] assms(2,3) by simp
  show S: "node_inv hs (pre @ [?b]) S" "mset (node_kvs S) = mset (leaf_kvs c)"
      "child_at S = Map.empty(level_index (hashed c) (lvl + 1) \<mapsto> Leaf c)"
    using pushed_leaf [of hs "pre @ [?b]" c] c assms(3,6) by auto
  have "k \<notin> fst ` set (leaf_kvs c)" using leaf_inv_hash [OF c(1)] assms(5) by fastforce
  moreover have "set (node_kvs S) = set (leaf_kvs c)" using S(2) by (rule mset_eq_setD)
  ultimately show "k \<notin> fst ` set (node_kvs n)" and "k \<notin> fst ` set (node_kvs S)"
    using key_in_slot [OF assms(1), of ?b k] assms(3,4) by (simp_all add: slot_kvs_def)
qed

lemma insert_split:
  assumes "node_inv hs pre n" and "on_path (hs k) pre" and "length pre = lvl"
    and "child_at n (level_index (hs k) lvl) = Some (Leaf c)" and "hashed c \<noteq> hs k"
    and "level_index (hs k) (lvl + 1) \<noteq> level_index (hashed c) (lvl + 1)"
  shows "insert_spec hs pre n lvl k v"
proof -
  let ?b = "level_index (hs k) lvl" and ?j = "level_index (hs k) (lvl + 1)"
  let ?S = "add_slot node_new (level_index (hashed c) (lvl + 1)) (Leaf c)"
  have wf: "node_wf n" using assms(1) by (simp add: node_inv_iff)
  note S = insert_other_hash [OF assms(1-5) refl]
  have path: "on_path (hs k) (pre @ [?b])" using assms(2,3) by simp
  have "child_at ?S ?j = None" using S(6) assms(6) by simp
  from add_slot_inv [OF S(4) this _ entry_inv_single [of hs k "pre @ [?b]", OF path]] assms(3)
  have "inserted hs (pre @ [?b]) ?S (k, v) (add_slot ?S ?j (Leaf (leaf_single (hs k) (k, v))))"
    by (simp add: inserted_def)
  from inserted_put_sub [OF assms(1,4) S(1) this] S(2,5)
    insert_rec_unfold [OF wf assms(4), of "(k, v)"] assms(5,6)
  show ?thesis by (simp add: Let_def insert_spec_def)
qed

lemma insert_push:
  assumes "node_inv hs pre n" and "on_path (hs k) pre" and "length pre = lvl"
    and "child_at n (level_index (hs k) lvl) = Some (Leaf c)" and "hashed c \<noteq> hs k"
    and "level_index (hs k) (lvl + 1) = level_index (hashed c) (lvl + 1)"
    and "S = add_slot node_new (level_index (hashed c) (lvl + 1)) (Leaf c)"
    and "insert_spec hs (pre @ [level_index (hs k) lvl]) S (lvl + 1) k v"
  shows "insert_spec hs pre n lvl k v"
proof -
  have wf: "node_wf n" using assms(1) by (simp add: node_inv_iff)
  note S = insert_other_hash [OF assms(1-5,7)]
  obtain m where "insert_rec S (hs k) (lvl + 1) (k, v) = Ok m"
      and "inserted hs (pre @ [level_index (hs k) lvl]) S (k, v) m"
    using assms(8) S(3) by (auto simp: insert_spec_def)
  with inserted_put_sub [OF assms(1,4) S(1), of S "(k, v)" m] S(2,5)
    insert_rec_unfold [OF wf assms(4), of "(k, v)"] assms(5-7)
  show ?thesis by (simp add: Let_def insert_spec_def)
qed

lemma insert_sub:
  assumes "node_inv hs pre n" and "length pre = lvl"
    and "child_at n (level_index (hs k) lvl) = Some (SubNode sub)"
    and "insert_spec hs (pre @ [level_index (hs k) lvl]) sub (lvl + 1) k v"
  shows "insert_spec hs pre n lvl k v"
proof -
  let ?b = "level_index (hs k) lvl"
  have wf: "node_wf n" and sub: "length (pre @ [?b]) \<le> 12"
    using node_inv_child [OF assms(1,3)] by auto
  have "k \<in> fst ` set (node_kvs n) \<longleftrightarrow> k \<in> fst ` set (node_kvs sub)"
    using key_in_slot [OF assms(1), of ?b k] assms(2,3) by (simp add: slot_kvs_def)
  with assms(2,4) insert_rec_unfold [OF wf assms(3), of "(k, v)"] sub
    inserted_put_sub [OF assms(1,3) sub, of sub "(k, v)"]
  show ?thesis by (auto simp: Let_def insert_spec_def split: if_splits)
qed

theorem insert_rec_correct:
  assumes "node_inv hs pre n" and "on_path (hs k) pre" and "length pre = lvl"
  shows "insert_spec hs pre n lvl k v"
  using assms
proof (induction n "hs k" lvl "(k, v)" arbitrary: pre rule: insert_rec.induct)
  case (1 n lvl)
  let ?b = "level_index (hs k) lvl" let ?idx = "get_index_sparse (bitmap n) ?b"
  note pre = 1(3-5)
  have wf: "node_wf n" using pre(1) by (simp add: node_inv_iff)
  have path: "on_path (hs k) (pre @ [?b])" using pre by simp
  show ?case
  proof (cases "child_at n ?b")
    case None
    with pre show ?thesis by (rule insert_empty_slot)
  next
    case (Some ent)
    have get: "node_get_child n ?idx = (Ok ent :: (_, insert_error) outcome)"
      using wf Some by (rule get_child_child_at)
    have found: "\<not> is_not_found ?idx" using Some by simp
    show ?thesis
    proof (cases ent)
      case (Leaf c)
      let ?S = "add_slot node_new (level_index (hashed c) (lvl + 1)) ent"
      have new: "unchecked_set_mut node_new (level_index (hashed c) (lvl + 1)) ent =
          (Ok ?S :: (_, insert_error) outcome)"
        by (simp add: unchecked_set_mut_eq node_set_at_eq)
      consider (same) "hashed c = hs k"
        | (split) "hashed c \<noteq> hs k" "level_index (hs k) (lvl + 1) \<noteq> level_index (hashed c) (lvl + 1)"
        | (push) "hashed c \<noteq> hs k" "level_index (hs k) (lvl + 1) = level_index (hashed c) (lvl + 1)"
        by blast
      then show ?thesis
      proof cases
        case push
        note S = insert_other_hash [OF pre Some [unfolded Leaf] push(1) refl]
        have "insert_spec hs (pre @ [?b]) ?S (lvl + 1) k v"
          by (rule 1(1) [OF refl refl found get Leaf push(1) refl refl new])
            (use push(2) S(4) Leaf path pre(3) in simp_all)
        with insert_push [OF pre Some [unfolded Leaf] push refl] Leaf show ?thesis by simp
      next
        case same
        with pre(1,3) Some Leaf show ?thesis by (intro insert_same_hash) simp_all
      next
        case split
        with pre Some Leaf show ?thesis by (intro insert_split) simp_all
      qed
    next
      case (SubNode sub)
      then have "node_inv hs (pre @ [?b]) sub" "\<not> 13 < lvl"
        using node_inv_child [OF pre(1) Some] pre(3) by auto
      then have "insert_spec hs (pre @ [?b]) sub (lvl + 1) k v"
        by (intro 1(2) [OF refl refl found get SubNode]) (use path pre(3) in simp_all)
      with insert_sub [OF pre(1,3) Some [unfolded SubNode]] show ?thesis .
    qed
  qed
qed

section \<open>Update and removal\<close>

abbreviation without :: "'k \<Rightarrow> ('k, 'v) kv multiset \<Rightarrow> ('k, 'v) kv multiset" where
  "without k M \<equiv> filter_mset (\<lambda>p. fst p \<noteq> k) M"

abbreviation rewrite_key :: "'k \<Rightarrow> 'v \<Rightarrow> ('k, 'v) kv \<Rightarrow> ('k, 'v) kv" where
  "rewrite_key k x \<equiv> (\<lambda>p. if fst p = k then (k, x) else p)"

lemma slot_effects:
  assumes "node_inv hs pre n" and "b = level_index (hs k) (length pre)" and "child_at n b = Some e"
  shows "without k (mset (node_kvs n)) = without k (mset (entry_kvs e)) + node_rest n b"
    and "image_mset (rewrite_key k x) (mset (node_kvs n)) =
         image_mset (rewrite_key k x) (mset (entry_kvs e)) + node_rest n b"
    and "map_of (node_kvs n) k = map_of (entry_kvs e) k"
proof -
  have wf: "node_wf n" using assms(1) by (simp add: node_inv_iff)
  have m: "mset (node_kvs n) = mset (entry_kvs e) + node_rest n b"
    using mset_node_kvs [OF wf, of b] assms(2,3) by (simp add: slot_kvs_def)
  have "fst p \<noteq> k" if "p \<in># node_rest n b" for p
    using that rest_no_key [OF assms(1), of k "snd p"] assms(2) by (cases p) auto
  then have "without k (node_rest n b) = node_rest n b"
      and "image_mset (rewrite_key k x) (node_rest n b) = node_rest n b"
    by (auto simp: filter_mset_eq_conv intro: image_mset_cong [where g = id, simplified])
  with m show "without k (mset (node_kvs n)) = without k (mset (entry_kvs e)) + node_rest n b"
      and "image_mset (rewrite_key k x) (mset (node_kvs n)) =
         image_mset (rewrite_key k x) (mset (entry_kvs e)) + node_rest n b"
    by simp_all
  show "map_of (node_kvs n) k = map_of (entry_kvs e) k"
    using map_of_slot [OF assms(1,2)] assms(3) by (simp add: slot_kvs_def)
qed

lemma map_of_empty_slot:
  "node_inv hs pre n \<Longrightarrow> child_at n (level_index (hs k) (length pre)) = None \<Longrightarrow>
   map_of (node_kvs n) k = None"
  using map_of_slot [OF _ refl, of hs pre n k] by (simp add: slot_kvs_def)

text \<open>What an update does, by the value of the key and the answer of the callback.\<close>

definition update_spec ::
  "('k \<Rightarrow> u64) \<Rightarrow> nat list \<Rightarrow> ('k, 'v) node \<Rightarrow> nat \<Rightarrow> 'k \<Rightarrow> ('v \<Rightarrow> ('v option, 'u) outcome) \<Rightarrow> bool" where
  "update_spec hs pre n lvl k f \<longleftrightarrow>
     (case map_of (node_kvs n) k of
        None \<Rightarrow> update_rec n (hs k) lvl k f = Err UpdateKeyNotFound
      | Some old \<Rightarrow>
          (case f old of
             Ok None \<Rightarrow>
               \<exists>r. update_rec n (hs k) lvl k f = Ok r \<and>
                   opt_node_ok hs pre r (without k (mset (node_kvs n)))
           | Ok (Some x) \<Rightarrow>
               \<exists>m. update_rec n (hs k) lvl k f = Ok (Some m) \<and>
                   opt_node_ok hs pre (Some m) (image_mset (rewrite_key k x) (mset (node_kvs n)))
           | Err u \<Rightarrow> update_rec n (hs k) lvl k f = Err (ValueCallbackError u)
           | Panic \<Rightarrow> update_rec n (hs k) lvl k f = Panic))"

lemma sub_slot_eq:
  assumes "node_wf n" and "child_at n b = Some e"
  shows "case_option (node_clear_at n b)
      (\<lambda>newsub. obind (node_replace_at n (get_index_sparse (bitmap n) b) (SubNode newsub))
        (\<lambda>m. Ok (Some m))) =
    (\<lambda>r. Ok (write_slot n b (map_option SubNode r)))"
  by (rule ext)
    (simp add: write_slot_def node_replace_at_eq [OF assms] node_clear_at_eq [OF assms]
      split: option.split)

lemma update_rec_unfold:
  assumes "node_wf n" and "child_at n (level_index h lvl) = Some ent"
  shows "update_rec n h lvl k f =
    (case ent of
       Leaf c \<Rightarrow>
         obind (leaf_update c h k f)
           (\<lambda>r. Ok (write_slot n (level_index h lvl) (map_option Leaf r)))
     | SubNode sub \<Rightarrow>
         obind (update_rec sub h (lvl + 1) k f)
           (\<lambda>r. Ok (write_slot n (level_index h lvl) (map_option SubNode r))))"
  using assms
  by (subst update_rec.simps)
    (simp add: Let_def get_child_child_at clear_or_replace_at_eq sub_slot_eq split: entry.split)

lemma write_slot_ok:
  assumes "node_inv hs pre n" and "child_at n b = Some e"
    and "case x of None \<Rightarrow> M = {#} | Some y \<Rightarrow> entry_inv hs (pre @ [b]) y \<and> mset (entry_kvs y) = M"
    and "N = M + node_rest n b"
  shows "opt_node_ok hs pre (write_slot n b x) N"
  using del_slot_inv [OF assms(1,2)] put_slot_inv [OF assms(1,2)] assms(3,4)
  by (cases x) (auto simp: write_slot_def opt_node_ok_def node_kvs_children)

lemma write_slot_Some [simp]: "write_slot n b (Some e) = Some (put_slot n b e)"
  by (simp add: write_slot_def)

lemma update_leaf:
  assumes "node_inv hs pre n" and "length pre = lvl"
    and "child_at n (level_index (hs k) lvl) = Some (Leaf c)"
  shows "update_spec hs pre n lvl k f"
proof -
  let ?b = "level_index (hs k) lvl"
  have wf: "node_wf n" and c: "leaf_inv hs c" "on_path (hashed c) (pre @ [?b])"
    using node_inv_child [OF assms(1,3)] by auto
  note unf = update_rec_unfold [OF wf assms(3), of k f, unfolded entry.case]
  note eff = slot_effects [OF assms(1) _ assms(3), of k] and ok = write_slot_ok [OF assms(1,3)]
  have key: "map_of (node_kvs n) k = (if hashed c = hs k then map_of (leaf_kvs c) k else None)"
    using eff(3) assms(2) leaf_inv_hash [OF c(1), of k]
    by (auto simp: map_of_eq_None_iff)
  have removed: "opt_node_ok hs pre (write_slot n ?b (map_option Leaf r)) (without k (mset (node_kvs n)))"
    if r: "removed_leaf hs c k r" for r
  proof (rule ok)
    have "mset (opt_kvs r) = without k (mset (leaf_kvs c))"
      using r by (simp only: removed_leaf_def mset_filter)
    then show "case map_option Leaf r of None \<Rightarrow> without k (mset (leaf_kvs c)) = {#}
        | Some y \<Rightarrow> entry_inv hs (pre @ [?b]) y \<and> mset (entry_kvs y) = without k (mset (leaf_kvs c))"
      using r c(2) by (cases r) (auto simp: removed_leaf_def)
    show "without k (mset (node_kvs n)) = without k (mset (leaf_kvs c)) + node_rest n ?b"
      using eff(1) assms(2) by simp
  qed
  have written: "opt_node_ok hs pre (Some (put_slot n ?b (Leaf c')))
      (image_mset (rewrite_key k x) (mset (node_kvs n)))" if r: "rewritten_leaf hs c k x c'" for x c'
    using r eff(2) [of x] assms(2) c(2) put_slot_inv [OF assms(1,3), of "Leaf c'"]
    by (simp add: rewritten_leaf_def opt_node_ok_def)
  note leaf = leaf_update_eq [OF c(1), of "hs k" k f, folded key]
  show ?thesis
  proof (cases "map_of (node_kvs n) k")
    case (Some old)
    show ?thesis
    proof (cases "f old")
      case (Ok r)
      with Some leaf unf removed written show ?thesis
        by (cases r) (auto simp: update_spec_def)
    qed (use Some leaf unf in \<open>simp_all add: update_spec_def\<close>)
  qed (use leaf unf in \<open>simp add: update_spec_def\<close>)
qed

lemma update_sub:
  assumes "node_inv hs pre n" and "length pre = lvl"
    and "child_at n (level_index (hs k) lvl) = Some (SubNode sub)"
    and "update_spec hs (pre @ [level_index (hs k) lvl]) sub (lvl + 1) k f"
  shows "update_spec hs pre n lvl k f"
proof -
  let ?b = "level_index (hs k) lvl"
  have wf: "node_wf n" and sub: "length (pre @ [?b]) \<le> 12"
    using node_inv_child [OF assms(1,3)] by auto
  note unf = update_rec_unfold [OF wf assms(3), of k f, unfolded entry.case]
  note eff = slot_effects [OF assms(1) _ assms(3), of k]
  have key: "map_of (node_kvs n) k = map_of (node_kvs sub) k"
    using eff(3) assms(2) by simp
  have lift: "opt_node_ok hs pre (write_slot n ?b (map_option SubNode r)) (M + node_rest n ?b)"
    if "opt_node_ok hs (pre @ [?b]) r M" for r M
    using that sub by (intro write_slot_ok [OF assms(1,3)]) (auto simp: opt_node_ok_def split: option.splits)
  note ih = assms(4) [unfolded update_spec_def]
  show ?thesis
  proof (cases "map_of (node_kvs sub) k")
    case (Some old)
    show ?thesis
    proof (cases "f old")
      case (Ok r)
      show ?thesis
      proof (cases r)
        case None
        with Some Ok ih obtain m where m: "update_rec sub (hs k) (lvl + 1) k f = Ok m"
            "opt_node_ok hs (pre @ [?b]) m (without k (mset (node_kvs sub)))" by auto
        from lift [OF m(2)] m(1) None Some Ok key unf eff(1) assms(2) show ?thesis
          by (simp add: update_spec_def)
      next
        case (Some x)
        with \<open>map_of (node_kvs sub) k = Some old\<close> Ok ih obtain m where
          m: "update_rec sub (hs k) (lvl + 1) k f = Ok (Some m)"
            "opt_node_ok hs (pre @ [?b]) (Some m) (image_mset (rewrite_key k x) (mset (node_kvs sub)))"
          by auto
        from lift [OF m(2)] m(1) \<open>map_of (node_kvs sub) k = Some old\<close> Some Ok key unf
          eff(2) [of x] assms(2) show ?thesis
          by (simp add: update_spec_def)
      qed
    qed (use Some key ih unf in \<open>simp_all add: update_spec_def\<close>)
  qed (use key ih unf in \<open>simp add: update_spec_def\<close>)
qed

theorem update_rec_correct:
  assumes "node_inv hs pre n" and "on_path (hs k) pre" and "length pre = lvl"
  shows "update_spec hs pre n lvl k f"
  using assms
proof (induction n arbitrary: pre lvl rule: measure_induct_rule [of node_count])
  case (less n)
  let ?b = "level_index (hs k) lvl"
  have wf: "node_wf n" using less.prems(1) by (simp add: node_inv_iff)
  show ?case
  proof (cases "child_at n ?b")
    case None
    then have "update_rec n (hs k) lvl k f = Err UpdateKeyNotFound"
      by (subst update_rec.simps) (simp add: Let_def)
    with None map_of_empty_slot [of hs pre n k] less.prems show ?thesis by (simp add: update_spec_def)
  next
    case (Some ent)
    show ?thesis
    proof (cases ent)
      case (Leaf c)
      with update_leaf [OF less.prems(1,3)] Some show ?thesis by simp
    next
      case (SubNode sub)
      have "node_count sub < node_count n"
        using node_count_get_child get_child_child_at [OF wf Some] SubNode by blast
      moreover have "node_inv hs (pre @ [?b]) sub"
        using node_inv_child [OF less.prems(1) Some] SubNode by simp
      ultimately have "update_spec hs (pre @ [?b]) sub (lvl + 1) k f"
        using less.prems by (intro less.IH) auto
      with update_sub [OF less.prems(1,3)] Some SubNode show ?thesis by simp
    qed
  qed
qed

text \<open>The removals are updates with a callback that asks for deletion.\<close>

lemma obind_map_err: "(\<And>x. f x = map_err g (f' x)) \<Longrightarrow> obind (map_err g r) f = map_err g (obind r f')"
  by (cases r) auto

lemma remove_rec_unfold:
  assumes "node_wf n" and "child_at n (level_index h lvl) = Some ent"
  shows "remove_rec n h lvl k =
    (case ent of
       Leaf c \<Rightarrow>
         obind (leaf_remove c h k) (\<lambda>r. Ok (write_slot n (level_index h lvl) (map_option Leaf r)))
     | SubNode sub \<Rightarrow>
         obind (remove_rec sub h (lvl + 1) k)
           (\<lambda>r. Ok (write_slot n (level_index h lvl) (map_option SubNode r))))"
  using assms
  by (subst remove_rec.simps)
    (simp add: Let_def get_child_child_at clear_or_replace_at_eq sub_slot_eq split: entry.split)

lemma remove_eq_rec_unfold:
  assumes "node_wf n" and "child_at n (level_index h lvl) = Some ent"
  shows "remove_eq_rec n h lvl k v =
    (case ent of
       Leaf c \<Rightarrow>
         obind (leaf_remove_match c h k v)
           (\<lambda>r. Ok (write_slot n (level_index h lvl) (map_option Leaf r)))
     | SubNode sub \<Rightarrow>
         obind (remove_eq_rec sub h (lvl + 1) k v)
           (\<lambda>r. Ok (write_slot n (level_index h lvl) (map_option SubNode r))))"
  using assms
  by (subst remove_eq_rec.simps)
    (simp add: Let_def get_child_child_at clear_or_replace_at_eq sub_slot_eq split: entry.split)

lemma remove_rec_as_update:
  assumes "node_inv hs pre n"
  shows "remove_rec n h lvl k =
     map_err update_to_remove_error (update_rec n h lvl k (delete_if (\<lambda>_. True)))"
  using assms
proof (induction n arbitrary: pre lvl rule: measure_induct_rule [of node_count])
  case (less n)
  show ?case
  proof (cases "child_at n (level_index h lvl)")
    case None
    then show ?thesis
      by (subst remove_rec.simps, subst update_rec.simps) (simp add: Let_def)
  next
    case (Some ent)
    note inv = node_inv_child [OF less.prems Some]
    have "ent = SubNode sub \<Longrightarrow> node_count sub < node_count n" for sub
      using node_count_get_child get_child_child_at [OF _ Some] inv by blast
    with inv less.IH show ?thesis
      by (cases ent)
        (auto simp: remove_rec_unfold [OF _ Some] update_rec_unfold [OF _ Some]
          leaf_remove_as_update intro!: obind_map_err)
  qed
qed

lemma remove_eq_rec_as_update:
  assumes "node_inv hs pre n"
  shows "remove_eq_rec n h lvl k v =
     map_err update_to_remove_error (update_rec n h lvl k (delete_if (\<lambda>y. y = v)))"
  using assms
proof (induction n arbitrary: pre lvl rule: measure_induct_rule [of node_count])
  case (less n)
  show ?case
  proof (cases "child_at n (level_index h lvl)")
    case None
    then show ?thesis
      by (subst remove_eq_rec.simps, subst update_rec.simps) (simp add: Let_def)
  next
    case (Some ent)
    note inv = node_inv_child [OF less.prems Some]
    have "ent = SubNode sub \<Longrightarrow> node_count sub < node_count n" for sub
      using node_count_get_child get_child_child_at [OF _ Some] inv by blast
    with inv less.IH show ?thesis
      by (cases ent)
        (auto simp: remove_eq_rec_unfold [OF _ Some] update_rec_unfold [OF _ Some]
          leaf_remove_match_as_update intro!: obind_map_err)
  qed
qed

section \<open>Replacement\<close>

definition replace_spec ::
  "('k \<Rightarrow> u64) \<Rightarrow> nat list \<Rightarrow> ('k, 'v) node \<Rightarrow> nat \<Rightarrow> 'k \<Rightarrow> 'v \<Rightarrow> bool" where
  "replace_spec hs pre n lvl k x \<longleftrightarrow>
     (case map_of (node_kvs n) k of
        None \<Rightarrow> replace_rec n (hs k) lvl k x = Err ReplaceKeyNotFound
      | Some old \<Rightarrow>
          \<exists>m. replace_rec n (hs k) lvl k x = Ok (m, old) \<and>
              opt_node_ok hs pre (Some m) (image_mset (rewrite_key k x) (mset (node_kvs n))))"

lemma replace_rec_unfold:
  assumes "node_wf n" and "child_at n (level_index h lvl) = Some ent"
  shows "replace_rec n h lvl k x =
    (case ent of
       Leaf c \<Rightarrow>
         obind (leaf_replace c k x) (\<lambda>(c', old). Ok (put_slot n (level_index h lvl) (Leaf c'), old))
     | SubNode sub \<Rightarrow>
         obind (replace_rec sub h (lvl + 1) k x)
           (\<lambda>(m, old). Ok (put_slot n (level_index h lvl) (SubNode m), old)))"
  using assms
  by (subst replace_rec.simps)
    (simp add: Let_def get_child_child_at node_replace_at_eq split: entry.split)

theorem replace_rec_correct:
  assumes "node_inv hs pre n" and "length pre = lvl"
  shows "replace_spec hs pre n lvl k x"
  using assms
proof (induction n arbitrary: pre lvl rule: measure_induct_rule [of node_count])
  case (less n)
  let ?b = "level_index (hs k) lvl"
  have wf: "node_wf n" using less.prems(1) by (simp add: node_inv_iff)
  show ?case
  proof (cases "child_at n ?b")
    case None
    then have "replace_rec n (hs k) lvl k x = Err ReplaceKeyNotFound"
      by (subst replace_rec.simps) (simp add: Let_def)
    with None map_of_empty_slot [of hs pre n k] less.prems show ?thesis by (simp add: replace_spec_def)
  next
    case (Some ent)
    note unf = replace_rec_unfold [OF wf Some] and put = put_slot_inv [OF less.prems(1) Some]
    note eff = slot_effects [OF less.prems(1) _ Some, of k]
    note inv = node_inv_child [OF less.prems(1) Some]
    show ?thesis
    proof (cases ent)
      case (Leaf c)
      with leaf_replace_eq [of hs c k x] inv unf put [of "Leaf _"] eff(2) [of x] eff(3) less.prems(2)
      show ?thesis
        by (auto simp: replace_spec_def rewritten_leaf_def opt_node_ok_def split: option.splits)
    next
      case (SubNode sub)
      have "node_count sub < node_count n"
        using node_count_get_child get_child_child_at [OF wf Some] SubNode by blast
      then have "replace_spec hs (pre @ [?b]) sub (lvl + 1) k x"
        using inv SubNode less.prems by (intro less.IH) auto
      with SubNode inv unf put [of "SubNode _"] eff(2) [of x] eff(3) less.prems(2) show ?thesis
        by (auto simp: replace_spec_def opt_node_ok_def split: option.splits)
    qed
  qed
qed

section \<open>Size\<close>

lemma fold_sum: "fold (\<lambda>c s. s + f c) cs a = a + sum_list (map f cs)" for a :: nat
  by (induction cs arbitrary: a) auto

lemma size_rec_eq:
  fixes e :: "('k, 'v) entry" and n :: "('k, 'v) node"
  shows "size_entry e = length (entry_kvs e)" and "size_rec n = length (node_kvs n)"
proof (induction e and n rule: size_entry_size_rec.induct)
  case (3 bm cs)
  then show ?case by (simp add: fold_sum length_concat comp_def cong: map_cong)
qed (simp_all add: leaf_len_eq)

lemma depth_rec_0: "depth_rec n = 0"
proof (induction n rule: depth_rec.induct)
  case (1 bm cs)
  have "fold (\<lambda>c m. case c of Leaf _ \<Rightarrow> m | SubNode sub \<Rightarrow> max m (depth_rec sub)) xs 0 = 0"
    if "set xs \<subseteq> set cs" for xs
    using that 1 by (induction xs) (auto split: entry.split)
  then show ?case by simp
qed

end
