(* ===== verification/Hamt.thy ===== *)
theory Hamt
  imports Hamt_Trie
begin

text \<open>
  The map type of \<^verbatim>\<open>imhamt/src/hamt.rs\<close>: a root node, with the hash function \<open>hs\<close> of the key type as
  a parameter (\<^verbatim>\<open>HashedKey::compute\<close> with the hasher of the map). The locale \<open>kv_map\<close> is the
  contract its users rely on, stated over the list of stored pairs: which calls succeed, with which
  error the others fail, what the map holds afterwards, and that nothing panics. The lemmas about
  the sum of a weight over all entries, which the ledgers use, are proved once in that locale, and
  the trie is shown to satisfy it.
\<close>

section \<open>Operations\<close>

datatype ('k, 'v) hamt = Hamt (root: "('k, 'v) node")

definition hamt_new :: "('k, 'v) hamt" where
  "hamt_new = Hamt node_new"

definition hamt_size :: "('k, 'v) hamt \<Rightarrow> nat" where
  "hamt_size t = size_rec (root t)"

definition hamt_insert ::
  "('k \<Rightarrow> u64) \<Rightarrow> ('k, 'v) hamt \<Rightarrow> 'k \<Rightarrow> 'v \<Rightarrow> (('k, 'v) hamt, insert_error) outcome" where
  "hamt_insert hs t k v =
     (let h = hs k
      in obind (insert_rec (root t) h 0 (k, v)) (\<lambda>newroot. Ok (Hamt newroot)))"

definition hamt_remove_match ::
  "('k \<Rightarrow> u64) \<Rightarrow> ('k, 'v) hamt \<Rightarrow> 'k \<Rightarrow> 'v \<Rightarrow> (('k, 'v) hamt, remove_error) outcome" where
  "hamt_remove_match hs t k v =
     (let h = hs k
      in obind (remove_eq_rec (root t) h 0 k v)
           (\<lambda>newroot. case newroot of None \<Rightarrow> Ok hamt_new | Some r \<Rightarrow> Ok (Hamt r)))"

definition hamt_remove ::
  "('k \<Rightarrow> u64) \<Rightarrow> ('k, 'v) hamt \<Rightarrow> 'k \<Rightarrow> (('k, 'v) hamt, remove_error) outcome" where
  "hamt_remove hs t k =
     (let h = hs k
      in obind (remove_rec (root t) h 0 k)
           (\<lambda>newroot. case newroot of None \<Rightarrow> Ok hamt_new | Some r \<Rightarrow> Ok (Hamt r)))"

definition hamt_replace ::
  "('k \<Rightarrow> u64) \<Rightarrow> ('k, 'v) hamt \<Rightarrow> 'k \<Rightarrow> 'v \<Rightarrow> (('k, 'v) hamt \<times> 'v, replace_error) outcome" where
  "hamt_replace hs t k v =
     (let h = hs k
      in obind (replace_rec (root t) h 0 k v) (\<lambda>(newroot, oldv). Ok (Hamt newroot, oldv)))"

definition hamt_update ::
  "('k \<Rightarrow> u64) \<Rightarrow> ('k, 'v) hamt \<Rightarrow> 'k \<Rightarrow> ('v \<Rightarrow> ('v option, 'u) outcome)
   \<Rightarrow> (('k, 'v) hamt, 'u update_error) outcome" where
  "hamt_update hs t k f =
     (let h = hs k
      in obind (update_rec (root t) h 0 k f)
           (\<lambda>newroot. case newroot of None \<Rightarrow> Ok hamt_new | Some r \<Rightarrow> Ok (Hamt r)))"

text \<open>The loop of \<^verbatim>\<open>lookup\<close>, which walks down until the leaf.\<close>

lemma lookup_one_ContinueIn:
  assumes "lookup_one n h lvl k = (Ok (ContinueIn sub) :: (('k, 'v) lookup_ret, 'e) outcome)"
  shows "node_count sub < node_count n"
proof -
  let ?idx = "get_index_sparse (bitmap n) (level_index h lvl)"
  obtain ent where get: "node_get_child n ?idx = (Ok ent :: (_, 'e) outcome)"
      and "(case ent of Leaf c \<Rightarrow> (case leaf_find c h k of None \<Rightarrow> Ok NotFound | Some v \<Rightarrow> Ok (Found v))
            | SubNode sub \<Rightarrow> Ok (ContinueIn sub)) = (Ok (ContinueIn sub) :: (_, 'e) outcome)"
    using assms by (auto simp: lookup_one_def Let_def split: if_splits)
  then have "ent = SubNode sub" by (cases ent) (auto split: option.splits)
  with get show ?thesis by (auto intro: node_count_get_child)
qed

function lookup_loop :: "('k, 'v) node \<Rightarrow> u64 \<Rightarrow> nat \<Rightarrow> 'k \<Rightarrow> ('v option, 'e) outcome" where
  "lookup_loop n h lvl k =
     obind (lookup_one n h lvl k)
       (\<lambda>r. case r of
           NotFound \<Rightarrow> Ok None
         | Found v \<Rightarrow> Ok (Some v)
         | ContinueIn subnode \<Rightarrow> lookup_loop subnode h (lvl + 1) k)"
  by pat_completeness auto
termination lookup_loop
  by (relation "measure (\<lambda>(n, h, lvl, k). node_count n)") (auto intro: lookup_one_ContinueIn)

declare lookup_loop.simps [simp del]

definition hamt_lookup :: "('k \<Rightarrow> u64) \<Rightarrow> ('k, 'v) hamt \<Rightarrow> 'k \<Rightarrow> ('v option, 'e) outcome" where
  "hamt_lookup hs t k = lookup_loop (root t) (hs k) 0 k"

definition hamt_contains_key :: "('k \<Rightarrow> u64) \<Rightarrow> ('k, 'v) hamt \<Rightarrow> 'k \<Rightarrow> (bool, 'e) outcome" where
  "hamt_contains_key hs t k =
     obind (hamt_lookup hs t k) (\<lambda>r. Ok (case r of None \<Rightarrow> False | Some _ \<Rightarrow> True))"

text \<open>\<^verbatim>\<open>from_iter\<close> keeps the first pair of each key: later insertions fail and are ignored.\<close>

fun hamt_from_iter :: "('k \<Rightarrow> u64) \<Rightarrow> ('k, 'v) kv list \<Rightarrow> (('k, 'v) hamt, 'e) outcome" where
  "hamt_from_iter hs kvs =
     fold_outcome
       (\<lambda>(k, v) h. case hamt_insert hs h k v of Err _ \<Rightarrow> Ok h | Ok newh \<Rightarrow> Ok newh | Panic \<Rightarrow> Panic)
       kvs hamt_new"

section \<open>Iteration\<close>

text \<open>
  The iterator keeps a stack of child iterators, with the top of the \<^verbatim>\<open>Vec\<close> at the head of the list, and the
  leaf iterator it is in.
\<close>

record ('k, 'v) hamt_iter =
  iter_stack :: "('k, 'v) entry list list"
  iter_content :: "('k, 'v) leaf_iterator option"

definition hamt_iter :: "('k, 'v) hamt \<Rightarrow> ('k, 'v) hamt_iter" where
  "hamt_iter t = \<lparr> iter_stack = [children (root t)], iter_content = None \<rparr>"

fun entry_weight :: "('k, 'v) entry \<Rightarrow> nat" and node_weight :: "('k, 'v) node \<Rightarrow> nat" where
  "entry_weight (Leaf c) = 3 + leaf_len c"
| "entry_weight (SubNode n) = 2 + node_weight n"
| "node_weight (Node bm cs) = sum_list (map entry_weight cs)"

fun leaf_iter_left :: "('k, 'v) leaf_iterator \<Rightarrow> ('k, 'v) kv list" where
  "leaf_iter_left (IterMany v) = v"
| "leaf_iter_left (IterOne consumed kv) = (if consumed then [] else [kv])"

definition iter_weight :: "('k, 'v) hamt_iter \<Rightarrow> nat" where
  "iter_weight it =
     (case iter_content it of None \<Rightarrow> 0 | Some li \<Rightarrow> 1 + length (leaf_iter_left li)) +
     sum_list (map (\<lambda>es. 1 + sum_list (map entry_weight es)) (iter_stack it))"

lemma leaf_iter_left_iter [simp]: "leaf_iter_left (leaf_iter c) = leaf_kvs c"
  by (simp add: leaf_iter_def leaf_kvs_def split: small_vec.split)

lemma leaf_iter_next_cases:
  "leaf_iter_next li = (case leaf_iter_left li of [] \<Rightarrow> (None, snd (leaf_iter_next li))
     | kv # _ \<Rightarrow> (Some kv, snd (leaf_iter_next li)))"
  "leaf_iter_left (snd (leaf_iter_next li)) = tl (leaf_iter_left li)"
  by (cases li rule: leaf_iter_next.cases; simp)+

function hamt_iter_next :: "('k, 'v) hamt_iter \<Rightarrow> ('k, 'v) kv option \<times> ('k, 'v) hamt_iter" where
  "hamt_iter_next it =
     (case iter_content it of
        Some li \<Rightarrow>
          (case leaf_iter_next li of
             (None, _) \<Rightarrow> hamt_iter_next (it\<lparr>iter_content := None\<rparr>)
           | (Some kv, li') \<Rightarrow> (Some kv, it\<lparr>iter_content := Some li'\<rparr>))
      | None \<Rightarrow>
          (case iter_stack it of
             [] \<Rightarrow> (None, it)
           | l # rest \<Rightarrow>
               (case l of
                  [] \<Rightarrow> hamt_iter_next (it\<lparr>iter_stack := rest\<rparr>)
                | SubNode sub # l' \<Rightarrow> hamt_iter_next (it\<lparr>iter_stack := children sub # l' # rest\<rparr>)
                | Leaf c # l' \<Rightarrow>
                    hamt_iter_next (it\<lparr>iter_stack := l' # rest, iter_content := Some (leaf_iter c)\<rparr>))))"
  by pat_completeness auto

lemma node_weight_children: "node_weight n = sum_list (map entry_weight (children n))"
  by (cases n) simp

termination hamt_iter_next
  by (relation "measure iter_weight")
    (auto simp: iter_weight_def node_weight_children leaf_len_eq)

declare hamt_iter_next.simps [simp del]

definition iter_left :: "('k, 'v) hamt_iter \<Rightarrow> ('k, 'v) kv list" where
  "iter_left it =
     (case iter_content it of None \<Rightarrow> [] | Some li \<Rightarrow> leaf_iter_left li) @
     concat (map (\<lambda>es. concat (map entry_kvs es)) (iter_stack it))"

lemma hamt_iter_next_content:
  assumes "iter_content it = Some li"
  shows "hamt_iter_next it =
    (case leaf_iter_left li of
       [] \<Rightarrow> hamt_iter_next (it\<lparr>iter_content := None\<rparr>)
     | kv # _ \<Rightarrow> (Some kv, it\<lparr>iter_content := Some (snd (leaf_iter_next li))\<rparr>))"
  using assms leaf_iter_next_cases(1) [of li]
  by (subst hamt_iter_next.simps) (cases "leaf_iter_left li"; auto split: prod.splits)

lemma hamt_iter_next_stack:
  assumes "iter_content it = None"
  shows "hamt_iter_next it =
    (case iter_stack it of
       [] \<Rightarrow> (None, it)
     | [] # rest \<Rightarrow> hamt_iter_next (it\<lparr>iter_stack := rest\<rparr>)
     | (SubNode sub # l) # rest \<Rightarrow> hamt_iter_next (it\<lparr>iter_stack := children sub # l # rest\<rparr>)
     | (Leaf c # l) # rest \<Rightarrow>
         hamt_iter_next (it\<lparr>iter_stack := l # rest, iter_content := Some (leaf_iter c)\<rparr>))"
  using assms by (subst hamt_iter_next.simps) (auto split: list.split entry.split)

lemma hamt_iter_next_left:
  "case iter_left it of
     [] \<Rightarrow> fst (hamt_iter_next it) = None
   | kv # kvs \<Rightarrow> fst (hamt_iter_next it) = Some kv \<and> iter_left (snd (hamt_iter_next it)) = kvs"
proof (induction it rule: measure_induct_rule [of iter_weight])
  case (less it)
  have step: ?case if "hamt_iter_next it = hamt_iter_next it'" "iter_left it = iter_left it'"
      "iter_weight it' < iter_weight it" for it'
    using less [OF that(3)] unfolding that(1,2) .
  show ?case
  proof (cases "iter_content it")
    case (Some li)
    note nx = hamt_iter_next_content [OF Some]
    show ?thesis
    proof (cases "leaf_iter_left li")
      case Nil
      with Some nx show ?thesis by (intro step) (auto simp: iter_left_def iter_weight_def)
    next
      case (Cons kv kvs)
      with Some nx leaf_iter_next_cases(2) [of li] show ?thesis by (simp add: iter_left_def)
    qed
  next
    case None
    note nx = hamt_iter_next_stack [OF None]
    show ?thesis
    proof (cases "iter_stack it")
      case Nil
      with None nx show ?thesis by (simp add: iter_left_def)
    next
      case (Cons l rest)
      with None nx show ?thesis
        by (cases l; cases "hd l"; intro step)
          (auto simp: iter_left_def iter_weight_def node_kvs_children node_weight_children leaf_len_eq)
    qed
  qed
qed

text \<open>A \<^verbatim>\<open>for\<close> loop over the map sees the pairs of this list, in order.\<close>

lemma hamt_iter_next_weight:
  "fst (hamt_iter_next it) = Some kv \<Longrightarrow>
   length (iter_left (snd (hamt_iter_next it))) < length (iter_left it)"
  using hamt_iter_next_left [of it] by (cases "iter_left it") auto

function iter_collect :: "('k, 'v) hamt_iter \<Rightarrow> ('k, 'v) kv list" where
  "iter_collect it =
     (case hamt_iter_next it of (None, _) \<Rightarrow> [] | (Some kv, it') \<Rightarrow> kv # iter_collect it')"
  by pat_completeness auto
termination iter_collect
  by (relation "measure (\<lambda>it. length (iter_left it))")
    (auto dest: arg_cong [where f = fst] hamt_iter_next_weight, metis fst_conv hamt_iter_next_weight snd_conv)

declare iter_collect.simps [simp del]

lemma iter_collect_left: "iter_collect it = iter_left it"
proof (induction it rule: iter_collect.induct)
  case (1 it)
  show ?case
  proof (cases "hamt_iter_next it")
    case (Pair r it')
    with 1 hamt_iter_next_left [of it] show ?thesis
      by (subst iter_collect.simps) (cases r; cases "iter_left it"; auto)
  qed
qed

definition hamt_entries :: "('k, 'v) hamt \<Rightarrow> ('k, 'v) kv list" where
  "hamt_entries t = iter_collect (hamt_iter t)"

lemma hamt_entries_eq: "hamt_entries t = node_kvs (root t)"
  by (simp add: hamt_entries_def iter_collect_left hamt_iter_def iter_left_def node_kvs_children)

section \<open>The invariant and the lookup\<close>

definition hamt_inv :: "('k \<Rightarrow> u64) \<Rightarrow> ('k, 'v) hamt \<Rightarrow> bool" where
  "hamt_inv hs t \<longleftrightarrow> node_inv hs [] (root t)"

lemma hamt_inv_new [simp]: "hamt_inv hs hamt_new" "hamt_entries hamt_new = []"
  by (simp_all add: hamt_inv_def hamt_new_def hamt_entries_eq)

lemma hamt_entries_distinct: "hamt_inv hs t \<Longrightarrow> distinct (map fst (hamt_entries t))"
  unfolding hamt_entries_eq hamt_inv_def by (rule inv_distinct(2))

lemma lookup_one_eq:
  assumes "node_inv hs pre n" and "length pre = lvl"
  shows "lookup_one n (hs k) lvl k =
    (case child_at n (level_index (hs k) lvl) of
       None \<Rightarrow> Ok NotFound
     | Some (Leaf c) \<Rightarrow> (case leaf_find c (hs k) k of None \<Rightarrow> Ok NotFound | Some v \<Rightarrow> Ok (Found v))
     | Some (SubNode sub) \<Rightarrow> Ok (ContinueIn sub))"
proof -
  have "node_wf n" using assms(1) by (simp add: node_inv_iff)
  then show ?thesis
    by (auto simp: lookup_one_def Let_def get_child_child_at split: option.split)
qed

lemma lookup_loop_eq:
  assumes "node_inv hs pre n" and "length pre = lvl"
  shows "lookup_loop n (hs k) lvl k = Ok (map_of (node_kvs n) k)"
  using assms
proof (induction n arbitrary: pre lvl rule: measure_induct_rule [of node_count])
  case (less n)
  let ?b = "level_index (hs k) lvl"
  note one = lookup_one_eq [OF less.prems, of k]
  have wf: "node_wf n" using less.prems(1) by (simp add: node_inv_iff)
  show ?case
  proof (cases "child_at n ?b")
    case None
    with map_of_empty_slot [of hs pre n k] less.prems show ?thesis
      by (subst lookup_loop.simps) (simp add: one)
  next
    case (Some ent)
    note inv = node_inv_child [OF less.prems(1) Some]
    have key: "map_of (node_kvs n) k = map_of (entry_kvs ent) k"
      using slot_effects(3) [OF less.prems(1) _ Some] less.prems(2) by simp
    show ?thesis
    proof (cases ent)
      case (Leaf c)
      have "hashed c \<noteq> hs k \<Longrightarrow> map_of (leaf_kvs c) k = None"
        using inv Leaf leaf_inv_hash [of hs c k] by (force simp: map_of_eq_None_iff)
      then have "leaf_find c (hs k) k = map_of (leaf_kvs c) k" by (auto simp: leaf_find_eq)
      with Leaf Some key show ?thesis
        by (subst lookup_loop.simps) (simp add: one split: option.split)
    next
      case (SubNode sub)
      have "node_count sub < node_count n"
        using node_count_get_child get_child_child_at [OF wf Some] SubNode by blast
      with less.IH [of sub "pre @ [?b]"] inv SubNode Some key less.prems(2) show ?thesis
        by (subst lookup_loop.simps) (simp add: one)
    qed
  qed
qed

lemma hamt_lookup_eq:
  "hamt_inv hs t \<Longrightarrow> hamt_lookup hs t k = Ok (map_of (hamt_entries t) k)"
  using lookup_loop_eq [of hs "[]" "root t" 0 k]
  by (simp add: hamt_lookup_def hamt_inv_def hamt_entries_eq)

lemma hamt_contains_key_eq:
  "hamt_inv hs t \<Longrightarrow> hamt_contains_key hs t k = Ok (k \<in> fst ` set (hamt_entries t))"
  using map_of_eq_None_iff [of "hamt_entries t" k]
  by (cases "map_of (hamt_entries t) k") (simp_all add: hamt_contains_key_def hamt_lookup_eq)

section \<open>The contract of a key-value map\<close>

text \<open>
  What the users of a map rely on. \<open>entries\<close> is the list that iteration yields, \<open>inv\<close> the
  invariant of the representation. The laws determine every outcome of every operation.
\<close>

locale kv_map =
  fixes inv :: "'t \<Rightarrow> bool" and entries :: "'t \<Rightarrow> ('k \<times> 'v) list" and new :: "'t"
    and lookup :: "'t \<Rightarrow> 'k \<Rightarrow> ('v option, 'e) outcome"
    and insert :: "'t \<Rightarrow> 'k \<Rightarrow> 'v \<Rightarrow> ('t, insert_error) outcome"
    and update :: "'t \<Rightarrow> 'k \<Rightarrow> ('v \<Rightarrow> ('v option, 'u) outcome) \<Rightarrow> ('t, 'u update_error) outcome"
    and replace :: "'t \<Rightarrow> 'k \<Rightarrow> 'v \<Rightarrow> ('t \<times> 'v, replace_error) outcome"
  assumes inv_new: "inv new" and entries_new: "entries new = []"
    and keys_distinct: "inv t \<Longrightarrow> distinct (map fst (entries t))"
    and lookup_law: "inv t \<Longrightarrow> lookup t k = Ok (map_of (entries t) k)"
    and insert_present:
      "inv t \<Longrightarrow> k \<in> fst ` set (entries t) \<Longrightarrow> insert t k v = Err EntryExists"
    and insert_absent:
      "inv t \<Longrightarrow> k \<notin> fst ` set (entries t) \<Longrightarrow>
       \<exists>t'. insert t k v = Ok t' \<and> inv t' \<and> mset (entries t') = add_mset (k, v) (mset (entries t))"
    and update_absent:
      "inv t \<Longrightarrow> map_of (entries t) k = None \<Longrightarrow> update t k f = Err UpdateKeyNotFound"
    and update_keep:
      "inv t \<Longrightarrow> map_of (entries t) k = Some old \<Longrightarrow> f old = Ok (Some x) \<Longrightarrow>
       \<exists>t'. update t k f = Ok t' \<and> inv t' \<and>
         mset (entries t') = image_mset (rewrite_key k x) (mset (entries t))"
    and update_delete:
      "inv t \<Longrightarrow> map_of (entries t) k = Some old \<Longrightarrow> f old = Ok None \<Longrightarrow>
       \<exists>t'. update t k f = Ok t' \<and> inv t' \<and> mset (entries t') = without k (mset (entries t))"
    and update_error:
      "inv t \<Longrightarrow> map_of (entries t) k = Some old \<Longrightarrow> f old = Err u \<Longrightarrow>
       update t k f = Err (ValueCallbackError u)"
    and update_panic:
      "inv t \<Longrightarrow> map_of (entries t) k = Some old \<Longrightarrow> f old = Panic \<Longrightarrow> update t k f = Panic"
    and replace_absent:
      "inv t \<Longrightarrow> map_of (entries t) k = None \<Longrightarrow> replace t k x = Err ReplaceKeyNotFound"
    and replace_present:
      "inv t \<Longrightarrow> map_of (entries t) k = Some old \<Longrightarrow>
       \<exists>t'. replace t k x = Ok (t', old) \<and> inv t' \<and>
         mset (entries t') = image_mset (rewrite_key k x) (mset (entries t))"
begin

definition total :: "('k \<times> 'v \<Rightarrow> nat) \<Rightarrow> 't \<Rightarrow> nat" where
  "total w t = sum_list (map w (entries t))"

lemma total_mset: "total w t = \<Sum>\<^sub># (image_mset w (mset (entries t)))"
  by (simp add: total_def flip: sum_mset_sum_list)

lemma split_key:
  assumes "inv t" and "map_of (entries t) k = Some x"
  shows "mset (entries t) = add_mset (k, x) (without k (mset (entries t)))"
proof -
  have d: "distinct (map fst (entries t))" by (rule keys_distinct [OF assms(1)])
  have "(k, x) \<in> set (entries t)" using assms(2) by (rule map_of_SomeD)
  then obtain ys zs where yz: "entries t = ys @ (k, x) # zs" by (meson split_list)
  with d have "k \<notin> fst ` set ys" "k \<notin> fst ` set zs" by auto
  then have "filter_mset (\<lambda>p. fst p \<noteq> k) (mset ys) = mset ys"
      "filter_mset (\<lambda>p. fst p \<noteq> k) (mset zs) = mset zs"
    by (auto simp: filter_mset_eq_conv image_iff)
  with yz show ?thesis by simp
qed

lemma rewrite_without:
  "image_mset (rewrite_key k y) (without k M) = without k M"
  by (induction M) auto

lemma total_without:
  assumes "inv t" and "map_of (entries t) k = Some x"
  shows "\<Sum>\<^sub># (image_mset w (without k (mset (entries t)))) + w (k, x) = total w t"
  using arg_cong [OF split_key [OF assms], of "\<lambda>M. \<Sum>\<^sub># (image_mset w M)"]
  by (simp add: total_mset add.commute)

lemma insert_Ok:
  assumes "inv t" and "insert t k v = Ok t'"
  shows "inv t'" and "k \<notin> fst ` set (entries t)"
    and "mset (entries t') = add_mset (k, v) (mset (entries t))"
    and "total w t' = total w t + w (k, v)"
proof -
  show *: "k \<notin> fst ` set (entries t)" using assms insert_present [OF assms(1), of k v] by auto
  have "inv t' \<and> mset (entries t') = add_mset (k, v) (mset (entries t))"
    using insert_absent [OF assms(1) *, of v] assms(2) by auto
  then show "inv t'" and **: "mset (entries t') = add_mset (k, v) (mset (entries t))" by blast+
  from ** show "total w t' = total w t + w (k, v)" by (simp add: total_mset)
qed

lemma insert_no_panic: "inv t \<Longrightarrow> insert t k v \<noteq> Panic"
  using insert_present [of t k v] insert_absent [of t k v] by (cases "k \<in> fst ` set (entries t)") auto

lemma update_Ok:
  assumes "inv t" and "update t k f = Ok t'"
  obtains (keep) old x where "map_of (entries t) k = Some old" "f old = Ok (Some x)" "inv t'"
      "mset (entries t') = add_mset (k, x) (without k (mset (entries t)))"
      "\<And>w. total w t' + w (k, old) = total w t + w (k, x)"
  | (delete) old where "map_of (entries t) k = Some old" "f old = Ok None" "inv t'"
      "mset (entries t') = without k (mset (entries t))"
      "\<And>w. total w t' + w (k, old) = total w t"
proof (cases "map_of (entries t) k")
  case None
  with update_absent [OF assms(1)] assms(2) show ?thesis by simp
next
  case (Some old)
  note sk = split_key [OF assms(1) Some] and tw = total_without [OF assms(1) Some]
  show ?thesis
  proof (cases "f old")
    case (Ok r)
    show ?thesis
    proof (cases r)
      case None
      with update_delete [OF assms(1) Some, of f] Ok assms(2)
      have *: "inv t'" "mset (entries t') = without k (mset (entries t))" by auto
      show ?thesis
        by (rule delete [OF Some _ *]) (use Ok None * tw in \<open>simp_all add: total_mset\<close>)
    next
      case (Some x)
      with update_keep [OF assms(1) \<open>map_of (entries t) k = Some old\<close>, of f x] Ok assms(2)
      have *: "inv t'" "mset (entries t') = image_mset (rewrite_key k x) (mset (entries t))" by auto
      have **: "mset (entries t') = add_mset (k, x) (without k (mset (entries t)))"
        using *(2) arg_cong [OF sk, of "image_mset (rewrite_key k x)"] by (simp add: rewrite_without)
      show ?thesis
        by (rule keep [OF \<open>map_of (entries t) k = Some old\<close> _ *(1) **])
          (use Ok Some ** tw in \<open>simp_all add: total_mset\<close>)
    qed
  qed (use update_error [OF assms(1) Some, of f] update_panic [OF assms(1) Some, of f] assms(2) in auto)
qed

lemma replace_Ok:
  assumes "inv t" and "replace t k x = Ok (t', old)"
  shows "inv t'" and "map_of (entries t) k = Some old"
    and "mset (entries t') = add_mset (k, x) (without k (mset (entries t)))"
    and "total w t' + w (k, old) = total w t + w (k, x)"
proof -
  show m: "map_of (entries t) k = Some old"
    using replace_absent [OF assms(1), of k x] replace_present [OF assms(1), of k _ x] assms(2)
    by (cases "map_of (entries t) k") auto
  from replace_present [OF assms(1) m, of x] assms(2)
  have *: "inv t'" "mset (entries t') = image_mset (rewrite_key k x) (mset (entries t))" by auto
  show "inv t'" by (fact *(1))
  show **: "mset (entries t') = add_mset (k, x) (without k (mset (entries t)))"
    using *(2) arg_cong [OF split_key [OF assms(1) m], of "image_mset (rewrite_key k x)"]
    by (simp add: rewrite_without)
  with total_without [OF assms(1) m, of w]
  show "total w t' + w (k, old) = total w t + w (k, x)" by (simp add: total_mset)
qed

lemma map_of_mset:
  assumes "inv t" and "inv t'" and "mset (entries t') = add_mset (k, x) (without k (mset (entries t)))"
  shows "map_of (entries t') = (map_of (entries t))(k \<mapsto> x)"
proof
  fix i
  have s: "set (entries t') = insert_set (k, x) {p \<in> set (entries t). fst p \<noteq> k}"
    if "insert_set = Set.insert" for insert_set
    using arg_cong [OF assms(3), of set_mset] that by simp
  have "(i, y) \<in> set (entries t') \<longleftrightarrow> ((map_of (entries t))(k \<mapsto> x)) i = Some y" for y
    using s [OF refl] keys_distinct [OF assms(1)] by auto
  then show "map_of (entries t') i = ((map_of (entries t))(k \<mapsto> x)) i"
    using keys_distinct [OF assms(2)] by (metis map_of_eq_Some_iff not_Some_eq)
qed

lemma map_of_without:
  assumes "inv t" and "inv t'" and "mset (entries t') = without k (mset (entries t))"
  shows "map_of (entries t') = (map_of (entries t))(k := None)"
proof
  fix i
  have "(i, y) \<in> set (entries t') \<longleftrightarrow> ((map_of (entries t))(k := None)) i = Some y" for y
    using arg_cong [OF assms(3), of set_mset] keys_distinct [OF assms(1)] by auto
  then show "map_of (entries t') i = ((map_of (entries t))(k := None)) i"
    using keys_distinct [OF assms(2)] by (metis map_of_eq_Some_iff not_Some_eq)
qed

lemma without_absent: "k \<notin> fst ` set (entries t) \<Longrightarrow> without k (mset (entries t)) = mset (entries t)"
  by (auto simp: filter_mset_eq_conv image_iff)

lemma map_of_insert:
  assumes "inv t" and "insert t k v = Ok t'"
  shows "map_of (entries t') = (map_of (entries t))(k \<mapsto> v)"
  using insert_Ok [OF assms] without_absent [of k t] map_of_mset [OF assms(1), of t' k v] by simp

end

section \<open>The trie satisfies the contract\<close>

lemma hamt_insert_mset:
  assumes "hamt_inv hs t"
  shows "if k \<in> fst ` set (hamt_entries t) then hamt_insert hs t k v = Err EntryExists
         else \<exists>t'. hamt_insert hs t k v = Ok t' \<and> hamt_inv hs t' \<and>
                mset (hamt_entries t') = add_mset (k, v) (mset (hamt_entries t))"
  using insert_rec_correct [of hs "[]" "root t" k 0 v] assms
  by (auto simp: hamt_inv_def hamt_insert_def insert_spec_def inserted_def hamt_entries_eq)

definition opt_hamt :: "('k, 'v) node option \<Rightarrow> ('k, 'v) hamt" where
  "opt_hamt r = (case r of None \<Rightarrow> hamt_new | Some m \<Rightarrow> Hamt m)"

lemma hamt_update_eq:
  "hamt_update hs t k f = obind (update_rec (root t) (hs k) 0 k f) (\<lambda>r. Ok (opt_hamt r))"
  by (simp add: hamt_update_def Let_def opt_hamt_def option.case_distrib [of Ok] cong: option.case_cong)

lemma opt_hamt_ok:
  "opt_node_ok hs [] r M \<Longrightarrow> hamt_inv hs (opt_hamt r) \<and> mset (hamt_entries (opt_hamt r)) = M"
  by (cases r) (auto simp: opt_node_ok_def opt_hamt_def hamt_inv_def hamt_entries_eq hamt_new_def)

lemma hamt_update_mset:
  assumes "hamt_inv hs t"
  shows "case map_of (hamt_entries t) k of
           None \<Rightarrow> hamt_update hs t k f = Err UpdateKeyNotFound
         | Some old \<Rightarrow>
             (case f old of
                Ok r \<Rightarrow>
                  \<exists>t'. hamt_update hs t k f = Ok t' \<and> hamt_inv hs t' \<and>
                    mset (hamt_entries t') =
                      (case r of
                         None \<Rightarrow> without k (mset (hamt_entries t))
                       | Some x \<Rightarrow> image_mset (rewrite_key k x) (mset (hamt_entries t)))
              | Err u \<Rightarrow> hamt_update hs t k f = Err (ValueCallbackError u)
              | Panic \<Rightarrow> hamt_update hs t k f = Panic)"
proof -
  note spec = update_rec_correct [of hs "[]" "root t" k 0 f, simplified]
  show ?thesis
  proof (cases "map_of (hamt_entries t) k")
    case None
    with spec assms show ?thesis
      by (simp add: hamt_inv_def update_spec_def hamt_entries_eq hamt_update_eq)
  next
    case (Some old)
    show ?thesis
    proof (cases "f old")
      case (Ok r)
      with spec assms Some obtain m where "update_rec (root t) (hs k) 0 k f = Ok m"
        "opt_node_ok hs [] m (case r of None \<Rightarrow> without k (mset (hamt_entries t))
                       | Some x \<Rightarrow> image_mset (rewrite_key k x) (mset (hamt_entries t)))"
        by (cases r) (auto simp: hamt_inv_def update_spec_def hamt_entries_eq)
      with Some Ok show ?thesis using opt_hamt_ok by (fastforce simp: hamt_update_eq)
    qed (use spec assms Some in \<open>simp_all add: hamt_inv_def update_spec_def hamt_entries_eq hamt_update_eq\<close>)
  qed
qed

lemma hamt_remove_as_update:
  assumes "hamt_inv hs t"
  shows "hamt_remove hs t k =
      map_err update_to_remove_error (hamt_update hs t k (delete_if (\<lambda>_. True)))"
    and "hamt_remove_match hs t k v =
      map_err update_to_remove_error (hamt_update hs t k (delete_if (\<lambda>y. y = v)))"
  using remove_rec_as_update [of hs "[]" "root t" "hs k" 0 k]
    remove_eq_rec_as_update [of hs "[]" "root t" "hs k" 0 k v] assms
  by (auto simp: hamt_inv_def hamt_remove_def hamt_remove_match_def hamt_update_def
      intro!: obind_map_err split: option.split)

lemma hamt_replace_mset:
  assumes "hamt_inv hs t"
  shows "case map_of (hamt_entries t) k of
           None \<Rightarrow> hamt_replace hs t k x = Err ReplaceKeyNotFound
         | Some old \<Rightarrow>
             \<exists>t'. hamt_replace hs t k x = Ok (t', old) \<and> hamt_inv hs t' \<and>
               mset (hamt_entries t') = image_mset (rewrite_key k x) (mset (hamt_entries t))"
  using replace_rec_correct [of hs "[]" "root t" 0 k x] assms
  by (auto simp: hamt_inv_def hamt_replace_def replace_spec_def opt_node_ok_def hamt_entries_eq
      split: option.splits)

interpretation hamt: kv_map "hamt_inv hs" hamt_entries hamt_new "hamt_lookup hs" "hamt_insert hs"
  "hamt_update hs" "hamt_replace hs" for hs
proof (unfold_locales, goal_cases)
  case (5 t k v)
  then show ?case using hamt_insert_mset [of hs t k v] by simp
next
  case (6 t k v)
  then show ?case using hamt_insert_mset [of hs t k v] by simp
next
  case (7 t k f)
  then show ?case using hamt_update_mset [of hs t k f] by simp
next
  case (8 t k old f x)
  then show ?case using hamt_update_mset [of hs t k f] by simp
next
  case (9 t k old f)
  then show ?case using hamt_update_mset [of hs t k f] by simp
next
  case (10 t k old f u)
  then show ?case using hamt_update_mset [of hs t k f] by simp
next
  case (11 t k old f)
  then show ?case using hamt_update_mset [of hs t k f] by simp
next
  case (12 t k x)
  then show ?case using hamt_replace_mset [of hs t k x] by simp
next
  case (13 t k old x)
  then show ?case using hamt_replace_mset [of hs t k x] by simp
qed (simp_all add: hamt_entries_distinct hamt_lookup_eq)

section \<open>The trie as a finite map\<close>

definition hamt_map :: "('k, 'v) hamt \<Rightarrow> 'k \<rightharpoonup> 'v" where
  "hamt_map t = map_of (hamt_entries t)"

lemma hamt_size_eq: "hamt_size t = length (hamt_entries t)"
  by (simp add: hamt_size_def size_rec_eq hamt_entries_eq)

lemma map_of_None_keys: "map_of xs k = None \<longleftrightarrow> k \<notin> fst ` set xs"
  by (rule map_of_eq_None_iff)

lemma hamt_from_iter_step:
  assumes "hamt_inv hs t"
  shows "\<exists>t'. (case hamt_insert hs t k v of Err _ \<Rightarrow> Ok t | Ok newh \<Rightarrow> Ok newh | Panic \<Rightarrow> Panic) =
             (Ok t' :: (('k, 'v) hamt, 'e) outcome) \<and> hamt_inv hs t' \<and>
           hamt_map t' = (if hamt_map t k = None then (hamt_map t)(k \<mapsto> v) else hamt_map t)"
proof (cases "hamt_map t k")
  case None
  then have "k \<notin> fst ` set (hamt_entries t)" by (simp add: hamt_map_def map_of_None_keys)
  with hamt.insert_absent [OF assms, of k v] obtain t' where "hamt_insert hs t k v = Ok t'" by blast
  with None show ?thesis
    using hamt.insert_Ok [OF assms] hamt.map_of_insert [OF assms] by (fastforce simp: hamt_map_def)
next
  case (Some x)
  then have "k \<in> fst ` set (hamt_entries t)"
    using map_of_None_keys [of "hamt_entries t" k] by (auto simp: hamt_map_def)
  with assms Some show ?thesis by (simp add: hamt.insert_present)
qed

definition demo_hash :: "nat \<Rightarrow> u64" where
  "demo_hash k = word_of_nat (k div 2)"

text \<open>A trie with a collision leaf, a subnode and a chain, for evaluations.\<close>

definition demo_trie :: "(nat, nat) hamt" where
  "demo_trie =
     Hamt (Node 3
       [SubNode (Node 3
          [Leaf (LeafContent 0 (Many [(0, 10), (1, 11)])), Leaf (LeafContent 32 (One (64, 12)))]),
        Leaf (LeafContent 1 (One (2, 13)))])"

lemma demo_trie_inv: "hamt_inv demo_hash demo_trie"
  by code_simp

lemma demo_trie_entries: "hamt_entries demo_trie = [(0, 10), (1, 11), (64, 12), (2, 13)]"
  by (simp add: hamt_entries_eq demo_trie_def)

subsection \<open>Properties\<close>

text \<open>
  C6: inserting into a map that satisfies the invariant either finds the key present and fails with
  \<^verbatim>\<open>EntryExists\<close>, or returns a map that satisfies the invariant, has the one new binding and is
  one larger. It never panics: the \<^verbatim>\<open>unimplemented!\<close> branch of \<^verbatim>\<open>insert_rec\<close> is not reached.
\<close>

theorem hamt_insert_correct:
  assumes "hamt_inv hs t"
  shows "case hamt_map t k of
           Some _ \<Rightarrow> hamt_insert hs t k v = Err EntryExists
         | None \<Rightarrow>
             \<exists>t'. hamt_insert hs t k v = Ok t' \<and> hamt_inv hs t' \<and>
               hamt_map t' = (hamt_map t)(k \<mapsto> v) \<and> hamt_size t' = hamt_size t + 1"
proof (cases "hamt_map t k")
  case None
  then have "k \<notin> fst ` set (hamt_entries t)" by (simp add: hamt_map_def map_of_None_keys)
  with hamt.insert_absent [OF assms, of k v] obtain t' where
    t': "hamt_insert hs t k v = Ok t'" by blast
  with None hamt.insert_Ok [OF assms t'] hamt.map_of_insert [OF assms t'] show ?thesis
    by (auto simp: hamt_map_def hamt_size_eq dest: arg_cong [where f = size])
next
  case (Some x)
  then have "k \<in> fst ` set (hamt_entries t)"
    using map_of_None_keys [of "hamt_entries t" k] by (auto simp: hamt_map_def)
  with assms Some show ?thesis by (simp add: hamt.insert_present)
qed

theorem hamt_insert_correct_witness:
  "\<exists>t'. hamt_insert demo_hash demo_trie 65 7 = Ok t' \<and> hamt_inv demo_hash t' \<and>
     hamt_map t' 65 = Some 7 \<and> hamt_map t' 64 = Some 12 \<and> hamt_size t' = 5"
  using hamt_insert_correct [OF demo_trie_inv, of 65 7]
  by (auto simp: hamt_map_def demo_trie_entries hamt_size_eq)

text \<open>
  C10: looking a key up in a map that satisfies the invariant returns its binding, and
  \<^verbatim>\<open>contains_key\<close> says whether there is one; neither panics.
\<close>

theorem hamt_lookup_correct:
  assumes "hamt_inv hs t"
  shows "hamt_lookup hs t k = Ok (hamt_map t k) \<and>
         hamt_contains_key hs t k = Ok (hamt_map t k \<noteq> None)"
  using assms by (simp add: hamt_map_def hamt_lookup_eq hamt_contains_key_eq map_of_None_keys)

theorem hamt_lookup_correct_witness:
  "hamt_lookup demo_hash demo_trie 1 = (Ok (hamt_map demo_trie 1) :: (nat option, unit) outcome) \<and>
   hamt_map demo_trie 1 = Some 11"
  by (rule conjI, rule conjunct1 [OF hamt_lookup_correct [OF demo_trie_inv]])
    (simp add: hamt_map_def demo_trie_entries)

text \<open>
  C7: an update fails with \<^verbatim>\<open>KeyNotFound\<close> when the key is absent, passes the error of the callback on,
  and otherwise binds the key to the new value or, when the callback returns nothing, removes it; all other
  bindings stay, the invariant is kept, and the only panic is one of the callback.
\<close>

theorem hamt_update_correct:
  assumes "hamt_inv hs t"
  shows "case hamt_map t k of
           None \<Rightarrow> hamt_update hs t k f = Err UpdateKeyNotFound
         | Some old \<Rightarrow>
             (case f old of
                Ok r \<Rightarrow>
                  \<exists>t'. hamt_update hs t k f = Ok t' \<and> hamt_inv hs t' \<and>
                    hamt_map t' = (hamt_map t)(k := r)
              | Err u \<Rightarrow> hamt_update hs t k f = Err (ValueCallbackError u)
              | Panic \<Rightarrow> hamt_update hs t k f = Panic)"
proof (cases "hamt_map t k")
  case None
  with assms show ?thesis by (simp add: hamt_map_def hamt.update_absent)
next
  case (Some old)
  note key = Some [unfolded hamt_map_def]
  show ?thesis
  proof (cases "f old")
    case (Ok r)
    then obtain t' where t': "hamt_update hs t k f = Ok t'"
      using hamt.update_keep [OF assms key] hamt.update_delete [OF assms key] by (cases r) blast+
    have "hamt_inv hs t' \<and> hamt_map t' = (hamt_map t)(k := r)"
      using assms t'
      by (cases rule: hamt.update_Ok)
        (use key Ok assms in \<open>auto simp: hamt_map_def hamt.map_of_mset hamt.map_of_without\<close>)
    with Some Ok t' show ?thesis by simp
  qed (use Some key assms in \<open>simp_all add: hamt.update_error hamt.update_panic\<close>)
qed

theorem hamt_update_correct_witness:
  "\<exists>t'. hamt_update demo_hash demo_trie 1 (\<lambda>v. Ok (if v = 11 then None else Some v)) =
       (Ok t' :: (_, unit update_error) outcome) \<and>
     hamt_inv demo_hash t' \<and> hamt_map t' 1 = None \<and> hamt_map t' 0 = Some 10"
  using hamt_update_correct
    [OF demo_trie_inv, of 1 "\<lambda>v. Ok (if v = 11 then None else Some v) :: (nat option, unit) outcome"]
  by (auto simp: hamt_map_def demo_trie_entries)

text \<open>
  C8: \<^verbatim>\<open>remove\<close> deletes exactly the binding of the key, and \<^verbatim>\<open>remove_match\<close> does so only
  when the stored value is the expected one; the errors are \<^verbatim>\<open>KeyNotFound\<close> and
  \<^verbatim>\<open>ValueNotMatching\<close>.
\<close>

theorem hamt_remove_correct:
  assumes "hamt_inv hs t"
  shows "case hamt_map t k of
           None \<Rightarrow> hamt_remove hs t k = Err RemoveKeyNotFound \<and>
                   hamt_remove_match hs t k v = Err RemoveKeyNotFound
         | Some old \<Rightarrow>
             (\<exists>t'. hamt_remove hs t k = Ok t' \<and> hamt_inv hs t' \<and>
                hamt_map t' = (hamt_map t)(k := None)) \<and>
             (if old = v
              then \<exists>t'. hamt_remove_match hs t k v = Ok t' \<and> hamt_inv hs t' \<and>
                     hamt_map t' = (hamt_map t)(k := None)
              else hamt_remove_match hs t k v = Err ValueNotMatching)"
proof (cases "hamt_map t k")
  case None
  with assms show ?thesis by (simp add: hamt_map_def hamt_remove_as_update hamt.update_absent)
next
  case (Some old)
  note key = Some [unfolded hamt_map_def]
  have del: "\<exists>t'. hamt_update hs t k (delete_if P) = Ok t' \<and> hamt_inv hs t' \<and>
      hamt_map t' = (hamt_map t)(k := None)" if "P old" for P
    using hamt.update_delete [OF assms key, of "delete_if P"] that hamt.map_of_without [OF assms]
    by (fastforce simp: delete_if_def hamt_map_def)
  have "old \<noteq> v \<Longrightarrow> hamt_remove_match hs t k v = Err ValueNotMatching"
    using hamt.update_error [OF assms key, of "delete_if (\<lambda>y. y = v)" "()"] assms
    by (simp add: hamt_remove_as_update delete_if_def)
  with Some del [of "\<lambda>_. True"] del [of "\<lambda>y. y = v"] assms show ?thesis
    by (auto simp: hamt_remove_as_update)
qed

theorem hamt_remove_correct_witness:
  "(\<exists>t'. hamt_remove demo_hash demo_trie 64 = Ok t' \<and> hamt_map t' 64 = None \<and>
      hamt_map t' 0 = Some 10) \<and>
   hamt_remove_match demo_hash demo_trie 64 3 = Err ValueNotMatching"
  using hamt_remove_correct [OF demo_trie_inv, of 64 3]
  by (auto simp: hamt_map_def demo_trie_entries)

text \<open>
  C9: replacing the value of a key returns the old value and rebinds only that key, and fails with
  \<^verbatim>\<open>KeyNotFound\<close> when the key is absent.
\<close>

theorem hamt_replace_correct:
  assumes "hamt_inv hs t"
  shows "case hamt_map t k of
           None \<Rightarrow> hamt_replace hs t k x = Err ReplaceKeyNotFound
         | Some old \<Rightarrow>
             \<exists>t'. hamt_replace hs t k x = Ok (t', old) \<and> hamt_inv hs t' \<and>
               hamt_map t' = (hamt_map t)(k \<mapsto> x) \<and> hamt_size t' = hamt_size t"
proof (cases "hamt_map t k")
  case None
  with assms show ?thesis by (simp add: hamt_map_def hamt.replace_absent)
next
  case (Some old)
  with hamt.replace_present [OF assms, of k old x] obtain t' where
    t': "hamt_replace hs t k x = Ok (t', old)" "hamt_inv hs t'"
      "mset (hamt_entries t') = image_mset (rewrite_key k x) (mset (hamt_entries t))"
    by (auto simp: hamt_map_def)
  have "length (hamt_entries t') = length (hamt_entries t)"
    using arg_cong [OF t'(3), of size] by simp
  with Some t' hamt.replace_Ok(3) [OF assms t'(1)] hamt.map_of_mset [OF assms t'(2)] show ?thesis
    by (simp add: hamt_map_def hamt_size_eq)
qed

theorem hamt_replace_correct_witness:
  "\<exists>t'. hamt_replace demo_hash demo_trie 2 99 = Ok (t', 13) \<and> hamt_map t' 2 = Some 99 \<and>
     hamt_map t' 1 = Some 11 \<and> hamt_size t' = 4"
  using hamt_replace_correct [OF demo_trie_inv, of 2 99]
  by (auto simp: hamt_map_def demo_trie_entries hamt_size_eq)

text \<open>
  C11: iterating over a map that satisfies the invariant ends and yields every binding exactly once,
  and the size is the number of bindings.
\<close>

theorem hamt_iter_correct:
  assumes "hamt_inv hs t"
  shows "distinct (iter_collect (hamt_iter t)) \<and>
         set (iter_collect (hamt_iter t)) = {(k, v). hamt_map t k = Some v} \<and>
         hamt_size t = card (dom (hamt_map t))"
proof -
  have d: "distinct (map fst (hamt_entries t))" by (rule hamt_entries_distinct [OF assms])
  have "hamt_size t = card (fst ` set (hamt_entries t))"
    using distinct_card [OF d] by (simp add: hamt_size_eq)
  with d show ?thesis
    by (auto simp: hamt_map_def dom_map_of_conv_image_fst distinct_map simp flip: hamt_entries_def)
qed

theorem hamt_iter_correct_witness:
  "set (iter_collect (hamt_iter demo_trie)) = {(0, 10), (1, 11), (64, 12), (2, 13)} \<and>
   card (dom (hamt_map demo_trie)) = 4"
  using hamt_iter_correct [OF demo_trie_inv] demo_trie_entries
  by (auto simp: hamt_size_eq simp flip: hamt_entries_def)

text \<open>
  A map collected from an iterator satisfies the invariant and binds every key of the sequence
  to the value of its first pair.
\<close>

theorem hamt_from_iter_correct:
  "\<exists>t. hamt_from_iter hs kvs = (Ok t :: (('k, 'v) hamt, 'e) outcome) \<and> hamt_inv hs t \<and> hamt_map t = map_of kvs"
proof -
  let ?step = "\<lambda>(k, v) h. case hamt_insert hs h k v of
      Err _ \<Rightarrow> (Ok h :: (('k, 'v) hamt, 'e) outcome) | Ok newh \<Rightarrow> Ok newh | Panic \<Rightarrow> Panic"
  have "\<exists>t'. fold_outcome ?step kvs t = Ok t' \<and> hamt_inv hs t' \<and> hamt_map t' = map_of kvs ++ hamt_map t"
    if "hamt_inv hs t" for t
    using that
  proof (induction kvs arbitrary: t)
    case (Cons kv kvs)
    obtain k v where kv: "kv = (k, v)" by force
    from hamt_from_iter_step [OF Cons.prems, of k v] obtain u where
      u: "?step kv t = Ok u" "hamt_inv hs u"
        "hamt_map u = (if hamt_map t k = None then (hamt_map t)(k \<mapsto> v) else hamt_map t)"
      unfolding kv prod.case by blast
    have "map_of (kv # kvs) ++ hamt_map t = map_of kvs ++ hamt_map u"
      unfolding u(3) kv by (auto simp: map_add_def fun_eq_iff split: option.split)
    with Cons.IH [OF u(2)] u(1) show ?case by (simp del: map_of.simps)
  qed simp
  from this [of hamt_new] show ?thesis by (simp add: hamt_map_def)
qed

end
