(* ===== verification/Account.thy ===== *)
theory Account
  imports Hamt Value
begin

text \<open>
  The account ledger: \<^verbatim>\<open>chain-impl-mockchain/src/account.rs\<close>. Every account has a value and a spending
  counter that a withdrawal increments. The ledger is a map from account identifiers to states; its hash
  function is the parameter \<open>hs\<close>. The lemmas give the outcome of every operation on every branch and the
  change of the total value of all accounts.
\<close>

section \<open>Account states\<close>

datatype account_id = Identifier "256 word"

datatype spending_counter = SpendingCounter (counter_u32: u32)

record acc_state =
  acc_counter :: spending_counter
  acc_value :: val

datatype account_error =
    NonExistent
  | AccountAlreadyExists
  | MismatchCounter
  | NeedTotalWithdrawal
  | NonZero
  | AccountValueError value_error

definition counter_zero :: spending_counter where
  "counter_zero = SpendingCounter 0"

definition counter_increment :: "spending_counter \<Rightarrow> spending_counter option" where
  "counter_increment c = map_option SpendingCounter (checked_add (counter_u32 c) 1)"

definition counter_to_bytes :: "spending_counter \<Rightarrow> bytes" where
  "counter_to_bytes c = rev (to_be_bytes (counter_u32 c))"

definition acc_state_new :: "val \<Rightarrow> acc_state" where
  "acc_state_new v = \<lparr> acc_counter = SpendingCounter 0, acc_value = v \<rparr>"

definition acc_state_add :: "acc_state \<Rightarrow> val \<Rightarrow> (acc_state, account_error) outcome" where
  "acc_state_add st v =
     obind (map_err AccountValueError (value_add (acc_value st) v))
       (\<lambda>new_value. Ok (st\<lparr>acc_value := new_value\<rparr>))"

definition acc_state_sub :: "acc_state \<Rightarrow> val \<Rightarrow> (acc_state option, account_error) outcome" where
  "acc_state_sub st v =
     obind (map_err AccountValueError (value_sub (acc_value st) v))
       (\<lambda>new_value.
         case counter_increment (acc_counter st) of
           None \<Rightarrow> if new_value = value_zero then Ok None else Err NeedTotalWithdrawal
         | Some new_counter \<Rightarrow>
             Ok (Some \<lparr> acc_counter = new_counter, acc_value = new_value \<rparr>))"

section \<open>The ledger\<close>

type_synonym account_ledger = "(account_id, acc_state) hamt"

fun account_update_error :: "account_error update_error \<Rightarrow> account_error" where
  "account_update_error UpdateKeyNotFound = NonExistent"
| "account_update_error (ValueCallbackError v) = v"

fun account_insert_error :: "insert_error \<Rightarrow> account_error" where
  "account_insert_error EntryExists = AccountAlreadyExists"

definition account_ledger_new :: account_ledger where
  "account_ledger_new = hamt_new"

definition add_account ::
  "(account_id \<Rightarrow> u64) \<Rightarrow> account_ledger \<Rightarrow> account_id \<Rightarrow> val \<Rightarrow> (account_ledger, account_error) outcome" where
  "add_account hs l account initial_value =
     map_err account_insert_error (hamt_insert hs l account (acc_state_new initial_value))"

definition remove_account ::
  "(account_id \<Rightarrow> u64) \<Rightarrow> account_ledger \<Rightarrow> account_id \<Rightarrow> (account_ledger, account_error) outcome" where
  "remove_account hs l account =
     map_err account_update_error
       (hamt_update hs l account
         (\<lambda>st. if acc_value st = value_zero then Ok None else Err NonZero))"

definition add_value ::
  "(account_id \<Rightarrow> u64) \<Rightarrow> account_ledger \<Rightarrow> account_id \<Rightarrow> val \<Rightarrow> (account_ledger, account_error) outcome" where
  "add_value hs l account v =
     map_err account_update_error
       (hamt_update hs l account (\<lambda>st. obind (acc_state_add st v) (\<lambda>s. Ok (Some s))))"

definition remove_value ::
  "(account_id \<Rightarrow> u64) \<Rightarrow> account_ledger \<Rightarrow> account_id \<Rightarrow> val
   \<Rightarrow> (account_ledger \<times> spending_counter, account_error) outcome" where
  "remove_value hs l account v =
     obind (hamt_lookup hs l account)
       (\<lambda>r. obind (case r of None \<Rightarrow> Err NonExistent | Some st \<Rightarrow> Ok (acc_counter st))
         (\<lambda>counter.
           obind (map_err account_update_error (hamt_update hs l account (\<lambda>st. acc_state_sub st v)))
             (\<lambda>ledger. Ok (ledger, counter))))"

definition account_total_value :: "account_ledger \<Rightarrow> (val, value_error) outcome" where
  "account_total_value l = value_sum (map (\<lambda>(_, state). acc_value state) (hamt_entries l))"

section \<open>Behaviour of the state operations\<close>

lemma counter_increment_None: "counter_increment c = None \<longleftrightarrow> counter_u32 c = - 1"
proof -
  have "unat (- 1 :: u32) = 2 ^ 32 - 1"
    by (simp add: unsigned_minus_1_eq_mask mask_eq_exp_minus_1)
  moreover have "unat (counter_u32 c) < 2 ^ 32" using unat_bound [of "counter_u32 c"] by simp
  ultimately show ?thesis
    by (auto simp: counter_increment_def checked_add_None_iff word_unat_eq_iff)
qed

lemma counter_increment_Some:
  "counter_increment c = Some d \<longleftrightarrow> unat (counter_u32 d) = unat (counter_u32 c) + 1"
  by (cases d) (auto simp: counter_increment_def checked_add_Some_iff)

lemma acc_state_add_Ok:
  "acc_state_add st v = Ok st' \<longleftrightarrow>
     acc_counter st' = acc_counter st \<and> nval (acc_value st') = nval (acc_value st) + nval v"
  by (auto simp: acc_state_add_def value_add_Ok intro!: exI [of _ "acc_value st'"])

lemma acc_state_add_no_panic: "acc_state_add st v \<noteq> Panic"
  by (simp add: acc_state_add_def obind_eq_Panic)

lemma acc_state_sub_no_panic: "acc_state_sub st v \<noteq> Panic"
  by (auto simp: acc_state_sub_def obind_eq_Panic split: option.splits)

lemma acc_state_sub_None:
  "acc_state_sub st v = Ok None \<longleftrightarrow> counter_u32 (acc_counter st) = - 1 \<and> acc_value st = v"
  by (auto simp: acc_state_sub_def value_sub_Ok counter_increment_None split: option.splits)
    (auto simp flip: counter_increment_None nval_inject)

lemma acc_state_sub_Some:
  "acc_state_sub st v = Ok (Some st') \<longleftrightarrow>
     unat (counter_u32 (acc_counter st')) = unat (counter_u32 (acc_counter st)) + 1 \<and>
     nval (acc_value st) = nval v + nval (acc_value st')"
proof (cases "counter_increment (acc_counter st)")
  case None
  then have "unat (counter_u32 (acc_counter st')) \<noteq> unat (counter_u32 (acc_counter st)) + 1"
    using counter_increment_Some [of "acc_counter st" "acc_counter st'"] by simp
  with None show ?thesis by (auto simp: acc_state_sub_def)
next
  case (Some d)
  then have "acc_counter st' = d \<longleftrightarrow>
      unat (counter_u32 (acc_counter st')) = unat (counter_u32 (acc_counter st)) + 1"
    using counter_increment_Some [of "acc_counter st" "acc_counter st'"] by auto
  with Some show ?thesis
    by (cases st') (auto simp: acc_state_sub_def value_sub_Ok)
qed

section \<open>Total value\<close>

definition acc_total :: "account_ledger \<Rightarrow> nat" where
  "acc_total l = sum_list (map (\<lambda>(_, st). nval (acc_value st)) (hamt_entries l))"

lemma acc_total_kv: "acc_total l = kv_map.total hamt_entries (\<lambda>(_, st). nval (acc_value st)) l"
  by (simp add: acc_total_def hamt.total_def)

lemma acc_total_new [simp]: "acc_total account_ledger_new = 0"
  by (simp add: acc_total_def account_ledger_new_def)

lemma account_total_value_eq:
  "account_total_value l =
     (if acc_total l < 2 ^ 64 then Ok (Value (word_of_nat (acc_total l))) else Err Overflow)"
  by (simp add: account_total_value_def value_sum_eq nsum_def acc_total_def comp_def case_prod_unfold)

lemma add_account_Ok:
  assumes "hamt_inv hs l" and "add_account hs l a v = Ok l'"
  shows "hamt_inv hs l'" and "acc_total l' = acc_total l + nval v"
    and "hamt_map l a = None" and "hamt_map l' = (hamt_map l)(a \<mapsto> acc_state_new v)"
proof -
  have i: "hamt_insert hs l a (acc_state_new v) = Ok l'" using assms(2) by (simp add: add_account_def)
  note ok = hamt.insert_Ok [OF assms(1) i]
  show "hamt_inv hs l'" by (rule ok(1))
  show "acc_total l' = acc_total l + nval v"
    using ok(4) by (simp add: acc_total_kv acc_state_new_def)
  show "hamt_map l a = None" using ok(2) by (simp add: hamt_map_def map_of_None_keys)
  show "hamt_map l' = (hamt_map l)(a \<mapsto> acc_state_new v)"
    using hamt.map_of_insert [OF assms(1) i] by (simp add: hamt_map_def)
qed

lemma add_value_Ok:
  assumes "hamt_inv hs l" and "add_value hs l a v = Ok l'"
  obtains st st' where "hamt_inv hs l'" "hamt_map l a = Some st" "acc_state_add st v = Ok st'"
    "hamt_map l' = (hamt_map l)(a \<mapsto> st')" "acc_total l' = acc_total l + nval v"
proof -
  have "hamt_update hs l a (\<lambda>st. obind (acc_state_add st v) (\<lambda>s. Ok (Some s))) = Ok l'"
    using assms(2) by (simp add: add_value_def)
  with assms(1) show ?thesis
  proof (cases rule: hamt.update_Ok)
    case (keep st st')
    have "acc_total l' = acc_total l + nval v"
      using keep(2) keep(5) [of "\<lambda>(_, st). nval (acc_value st)"]
      by (simp add: acc_total_kv acc_state_add_Ok)
    with keep that show ?thesis
      using hamt.map_of_mset [OF assms(1) keep(3,4)] by (simp add: hamt_map_def)
  qed simp
qed

lemma remove_value_Ok:
  assumes "hamt_inv hs l" and "remove_value hs l a v = Ok (l', c)"
  obtains st r where "hamt_inv hs l'" "hamt_map l a = Some st" "acc_state_sub st v = Ok r"
    "c = acc_counter st" "hamt_map l' = (hamt_map l)(a := r)" "acc_total l' + nval v = acc_total l"
proof -
  obtain st where st: "hamt_map l a = Some st" "c = acc_counter st"
      and u: "hamt_update hs l a (\<lambda>st. acc_state_sub st v) = Ok l'"
    using assms
    by (auto simp: remove_value_def hamt_lookup_eq hamt_map_def split: option.splits)
  from assms(1) u show ?thesis
  proof (cases rule: hamt.update_Ok)
    case (keep old st')
    have "acc_total l' + nval v = acc_total l"
      using keep(2) keep(5) [of "\<lambda>(_, st). nval (acc_value st)"]
      by (simp add: acc_total_kv acc_state_sub_Some)
    with keep st that show ?thesis
      using hamt.map_of_mset [OF assms(1) keep(3,4)] by (simp add: hamt_map_def)
  next
    case (delete old)
    have "acc_total l' + nval v = acc_total l"
      using delete(2) delete(5) [of "\<lambda>(_, st). nval (acc_value st)"]
      by (simp add: acc_total_kv acc_state_sub_None)
    with delete st that show ?thesis
      using hamt.map_of_without [OF assms(1) delete(3,4)] by (simp add: hamt_map_def)
  qed
qed

lemma remove_account_Ok:
  assumes "hamt_inv hs l" and "remove_account hs l a = Ok l'"
  shows "hamt_inv hs l'" and "acc_total l' = acc_total l"
    and "hamt_map l' = (hamt_map l)(a := None)"
proof -
  let ?f = "\<lambda>st. if acc_value st = value_zero then Ok None else Err NonZero"
  have "hamt_update hs l a ?f = Ok l'" using assms(2) by (simp add: remove_account_def)
  with assms(1) have "hamt_inv hs l' \<and> acc_total l' = acc_total l \<and> hamt_map l' = (hamt_map l)(a := None)"
  proof (cases rule: hamt.update_Ok)
    case (delete st)
    have "acc_total l' = acc_total l"
      using delete(2) delete(5) [of "\<lambda>(_, st). nval (acc_value st)"]
      by (simp add: acc_total_kv split: if_splits)
    then show ?thesis
      using delete hamt.map_of_without [OF assms(1) delete(3,4)] by (simp add: hamt_map_def)
  qed (simp split: if_splits)
  then show "hamt_inv hs l'" "acc_total l' = acc_total l" "hamt_map l' = (hamt_map l)(a := None)"
    by auto
qed

section \<open>Properties\<close>

lemma counter_increment_eq:
  "counter_increment c =
     (if counter_u32 c = - 1 then None else Some (SpendingCounter (counter_u32 c + 1)))"
proof (cases "checked_add (counter_u32 c) 1")
  case None
  then have "counter_increment c = None" by (simp add: counter_increment_def)
  moreover from this have "counter_u32 c = - 1" by (simp only: counter_increment_None)
  ultimately show ?thesis by (simp only: if_True simp_thms)
next
  case (Some x)
  then have "x = counter_u32 c + 1" unfolding checked_add_def by (metis option.inject option.distinct(1))
  moreover from Some have ne: "counter_increment c = Some (SpendingCounter x)"
    by (simp add: counter_increment_def)
  moreover have "counter_u32 c \<noteq> - 1" using ne counter_increment_None [of c] by (metis option.distinct(1))
  ultimately show ?thesis by (simp only: if_False)
qed

lemma acc_state_sub_eq:
  "acc_state_sub st v =
     (if nval (acc_value st) < nval v then Err (AccountValueError NegativeAmount)
      else if counter_u32 (acc_counter st) = - 1
      then (if acc_value st = v then Ok None else Err NeedTotalWithdrawal)
      else Ok (Some \<lparr> acc_counter = SpendingCounter (counter_u32 (acc_counter st) + 1),
                      acc_value = Value (amount (acc_value st) - amount v) \<rparr>))"
proof (cases "nval (acc_value st) < nval v")
  case True
  then have "value_sub (acc_value st) v = Err NegativeAmount" by (simp add: value_sub_Err)
  with True show ?thesis by (simp add: acc_state_sub_def)
next
  case False
  let ?d = "Value (amount (acc_value st) - amount v)"
  have d: "value_sub (acc_value st) v = Ok ?d"
    using False by (simp add: value_sub_def checked_sub_def)
  then have "nval (acc_value st) = nval v + nval ?d" by (simp only: value_sub_Ok)
  then have "?d = value_zero \<longleftrightarrow> acc_value st = v"
    by (metis add_cancel_right_right nval_inject nval_zero)
  with False d show ?thesis by (simp add: acc_state_sub_def counter_increment_eq)
qed

lemma remove_value_step:
  assumes "hamt_inv hs l" and "hamt_map l a = Some st"
  shows "remove_value hs l a v =
    obind (map_err account_update_error (hamt_update hs l a (\<lambda>st. acc_state_sub st v)))
      (\<lambda>ledger. Ok (ledger, acc_counter st))"
  using assms by (simp add: remove_value_def hamt_lookup_eq hamt_map_def)


definition demo_accounts :: account_ledger where
  "demo_accounts =
     Hamt (Node 3 [Leaf (LeafContent 0 (One (Identifier 0,
                     \<lparr> acc_counter = SpendingCounter 7, acc_value = Value 50 \<rparr>))),
                   Leaf (LeafContent 1 (One (Identifier 1,
                     \<lparr> acc_counter = SpendingCounter (- 1), acc_value = Value 5 \<rparr>)))])"

definition demo_id_hash :: "account_id \<Rightarrow> u64" where
  "demo_id_hash a = (case a of Identifier w \<Rightarrow> ucast w)"

lemma demo_accounts_inv: "hamt_inv demo_id_hash demo_accounts"
  by code_simp

lemma demo_accounts_entries: "hamt_entries demo_accounts =
    [(Identifier 0, \<lparr> acc_counter = SpendingCounter 7, acc_value = Value 50 \<rparr>),
     (Identifier 1, \<lparr> acc_counter = SpendingCounter (- 1), acc_value = Value 5 \<rparr>)]"
  by (simp add: hamt_entries_eq demo_accounts_def)


text \<open>
  C13: how the account operations change the total of all balances: opening an account adds its initial
  value, a deposit adds the value, a withdrawal takes exactly the value out, and closing an account changes
  nothing. All of them keep the invariant of the ledger.
\<close>

theorem account_totals:
  assumes "hamt_inv hs l"
  shows "(add_account hs l a v = Ok l1 \<longrightarrow> hamt_inv hs l1 \<and> acc_total l1 = acc_total l + nval v) \<and>
         (add_value hs l a v = Ok l2 \<longrightarrow> hamt_inv hs l2 \<and> acc_total l2 = acc_total l + nval v) \<and>
         (remove_value hs l a v = Ok (l3, c) \<longrightarrow> hamt_inv hs l3 \<and> acc_total l3 + nval v = acc_total l) \<and>
         (remove_account hs l a = Ok l4 \<longrightarrow> hamt_inv hs l4 \<and> acc_total l4 = acc_total l)"
  using add_account_Ok [OF assms] remove_account_Ok [OF assms] add_value_Ok [OF assms, of a v l2]
    remove_value_Ok [OF assms, of a v l3 c] by blast

theorem account_totals_witness:
  "\<exists>l' c. remove_value demo_id_hash demo_accounts (Identifier 0) (Value 20) = Ok (l', c) \<and>
     acc_total l' = 35"
proof -
  obtain l' where "remove_value demo_id_hash demo_accounts (Identifier 0) (Value 20) =
      Ok (l', SpendingCounter 7)"
    using remove_value_step [OF demo_accounts_inv, of "Identifier 0" _ "Value 20"]
      hamt.update_keep [OF demo_accounts_inv, of "Identifier 0" _ "\<lambda>st. acc_state_sub st (Value 20)"]
    by (force simp: hamt_map_def demo_accounts_entries acc_state_sub_eq)
  moreover have "acc_total demo_accounts = 55" by (simp add: acc_total_def demo_accounts_entries)
  ultimately show ?thesis
    using account_totals [OF demo_accounts_inv, of "Identifier 0" "Value 20"] by fastforce
qed

end
