(* ===== verification/Tx.thy ===== *)
theory Tx
  imports Address Account
begin

text \<open>
  Transactions: \<^verbatim>\<open>chain-impl-mockchain/src/transaction/\<close> (\<^verbatim>\<open>transfer.rs\<close>, \<^verbatim>\<open>utxo.rs\<close>, \<^verbatim>\<open>transaction.rs\<close>,
  \<^verbatim>\<open>witness.rs\<close>, \<^verbatim>\<open>mod.rs\<close>). A transaction has inputs, outputs and an extra part of any type; the
  serializer and the reader of the extra part are parameters of the functions of the whole.
\<close>

section \<open>Inputs and outputs\<close>

type_synonym transaction_id = hash

record utxo_pointer =
  ptr_transaction_id :: transaction_id
  ptr_output_index :: u8
  ptr_value :: val

record input =
  index_or_account :: u8
  input_value :: val
  input_ptr :: "256 word"

datatype input_type = UtxoType | AccountType

datatype input_enum = AccountInput account_id val | UtxoInput utxo_pointer

definition input_get_type :: "input \<Rightarrow> input_type" where
  "input_get_type i = (if index_or_account i = 0xff then AccountType else UtxoType)"

definition input_from_utxo :: "utxo_pointer \<Rightarrow> input" where
  "input_from_utxo p =
     \<lparr> index_or_account = ptr_output_index p, input_value = ptr_value p,
       input_ptr = hash_word (ptr_transaction_id p) \<rparr>"

fun input_from_account :: "account_id \<Rightarrow> val \<Rightarrow> input" where
  "input_from_account (Identifier pk) v =
     \<lparr> index_or_account = 0xff, input_value = v, input_ptr = pk \<rparr>"

definition input_to_enum :: "input \<Rightarrow> (input_enum, 'e) outcome" where
  "input_to_enum i =
     (case input_get_type i of
        AccountType \<Rightarrow>
          obind (unwrap (public_from_binary (to_be_bytes (input_ptr i))))
            (\<lambda>pk. Ok (AccountInput (Identifier pk) (input_value i)))
      | UtxoType \<Rightarrow>
          Ok (UtxoInput
            \<lparr> ptr_transaction_id = Hash (input_ptr i), ptr_output_index = index_or_account i,
              ptr_value = input_value i \<rparr>))"

fun input_from_enum :: "input_enum \<Rightarrow> input" where
  "input_from_enum (AccountInput acc v) = input_from_account acc v"
| "input_from_enum (UtxoInput p) = input_from_utxo p"

definition input_serialize :: "input \<Rightarrow> bytes" where
  "input_serialize i =
     write_all (codec_put_u8 [] (index_or_account i) @ value_serialize (input_value i))
       (to_be_bytes (input_ptr i))"

definition input_deserialize :: "input stream_reader" where
  "input_deserialize s =
     obind (codec_get_u8 s) (\<lambda>(idx, s).
       obind (value_deserialize s) (\<lambda>(v, s).
         obind (read_exact 32 s) (\<lambda>(ptr, s).
           Ok (\<lparr> index_or_account = idx, input_value = v, input_ptr = from_be_bytes ptr \<rparr>, s))))"

definition input_read :: "input reader" where
  "input_read b =
     obind (get_u8 b) (\<lambda>(idx, b).
       obind (value_read b) (\<lambda>(v, b).
         obind (read_array 32 b) (\<lambda>(ptr, b).
           Ok (\<lparr> index_or_account = idx, input_value = v, input_ptr = from_be_bytes ptr \<rparr>, b))))"

record 'a tx_output =
  out_address :: 'a
  out_value :: val

definition output_read :: "'a reader \<Rightarrow> 'a tx_output reader" where
  "output_read rd_address b =
     obind (rd_address b) (\<lambda>(a, b).
       obind (value_read b) (\<lambda>(v, b). Ok (\<lparr> out_address = a, out_value = v \<rparr>, b)))"

section \<open>Transactions\<close>

datatype no_extra = NoExtra

definition no_extra_serialize :: "no_extra \<Rightarrow> bytes" where
  "no_extra_serialize x = []"

definition no_extra_read :: "no_extra reader" where
  "no_extra_read b = Ok (NoExtra, b)"

definition no_extra_deserialize :: "no_extra stream_reader" where
  "no_extra_deserialize s = Ok (NoExtra, s)"

record ('a, 'x) transaction =
  tx_inputs :: "input list"
  tx_outputs :: "'a tx_output list"
  tx_extra :: 'x

datatype balance = Positive val | Negative val | Zero

definition tx_read_body :: "'x reader \<Rightarrow> nat \<Rightarrow> nat \<Rightarrow> (address, 'x) transaction reader" where
  "tx_read_body rd_extra num_inputs num_outputs b =
     obind (read_vec input_read num_inputs b) (\<lambda>(ins, b).
       obind (read_vec (output_read address_read) num_outputs b) (\<lambda>(outs, b).
         obind (rd_extra b) (\<lambda>(x, b).
           Ok (\<lparr> tx_inputs = ins, tx_outputs = outs, tx_extra = x \<rparr>, b))))"

definition tx_read_with_header :: "'x reader \<Rightarrow> (address, 'x) transaction reader" where
  "tx_read_with_header rd_extra b =
     obind (get_u8 b) (\<lambda>(ni, b).
       obind (get_u8 b) (\<lambda>(no, b).
         let num_inputs = unat ni; num_outputs = unat no in
         if \<not> num_inputs < 255 then Err (SizeTooBig num_inputs 255)
         else if \<not> num_outputs < 255 then Err (SizeTooBig num_outputs 255)
         else tx_read_body rd_extra num_inputs num_outputs b))"

definition output_serialize :: "address tx_output \<Rightarrow> bytes" where
  "output_serialize out = address_serialize (out_address out) @ value_serialize (out_value out)"

definition tx_serialize_body :: "('x \<Rightarrow> bytes) \<Rightarrow> (address, 'x) transaction \<Rightarrow> bytes" where
  "tx_serialize_body ser_extra tx =
     concat (map input_serialize (tx_inputs tx)) @
     concat (map output_serialize (tx_outputs tx)) @
     ser_extra (tx_extra tx)"

definition tx_serialize_with_header ::
  "('x \<Rightarrow> bytes) \<Rightarrow> (address, 'x) transaction \<Rightarrow> (bytes, 'e) outcome" where
  "tx_serialize_with_header ser_extra tx =
     assert_then (length (tx_inputs tx) < 255)
       (assert_then (length (tx_outputs tx) < 255)
         (let w = codec_put_u8 [] (word_of_nat (length (tx_inputs tx)));
              w = codec_put_u8 w (word_of_nat (length (tx_outputs tx)))
          in Ok (w @ tx_serialize_body ser_extra tx)))"

definition tx_hash :: "crypto \<Rightarrow> ('x \<Rightarrow> bytes) \<Rightarrow> (address, 'x) transaction \<Rightarrow> transaction_id" where
  "tx_hash cr ser_extra tx = hash_bytes cr (tx_serialize_body ser_extra tx)"

fun stream_vec :: "'a stream_reader \<Rightarrow> nat \<Rightarrow> 'a list stream_reader" where
  "stream_vec rd 0 s = Ok ([], s)"
| "stream_vec rd (Suc n) s =
     obind (rd s) (\<lambda>(x, s). obind (stream_vec rd n s) (\<lambda>(xs, s). Ok (x # xs, s)))"

definition output_deserialize :: "address tx_output stream_reader" where
  "output_deserialize s =
     obind (address_deserialize s) (\<lambda>(a, s).
       obind (value_deserialize s) (\<lambda>(v, s). Ok (\<lparr> out_address = a, out_value = v \<rparr>, s)))"

definition tx_deserialize_body ::
  "'x stream_reader \<Rightarrow> nat \<Rightarrow> nat \<Rightarrow> (address, 'x) transaction stream_reader" where
  "tx_deserialize_body rd_extra num_inputs num_outputs s =
     obind (stream_vec input_deserialize num_inputs s) (\<lambda>(ins, s).
       obind (stream_vec output_deserialize num_outputs s) (\<lambda>(outs, s).
         obind (rd_extra s) (\<lambda>(x, s).
           Ok (\<lparr> tx_inputs = ins, tx_outputs = outs, tx_extra = x \<rparr>, s))))"

definition tx_deserialize_with_header :: "'x stream_reader \<Rightarrow> (address, 'x) transaction stream_reader" where
  "tx_deserialize_with_header rd_extra s =
     obind (codec_get_u8 s) (\<lambda>(ni, s).
       obind (codec_get_u8 s) (\<lambda>(no, s).
         if unat ni < 255 \<and> unat no < 255
         then tx_deserialize_body rd_extra (unat ni) (unat no) s
         else Panic))"

definition replace_extra :: "('a, 'x) transaction \<Rightarrow> 'y \<Rightarrow> ('a, 'y) transaction" where
  "replace_extra tx y = \<lparr> tx_inputs = tx_inputs tx, tx_outputs = tx_outputs tx, tx_extra = y \<rparr>"

definition total_input :: "('a, 'x) transaction \<Rightarrow> (val, value_error) outcome" where
  "total_input tx = value_sum (map input_value (tx_inputs tx))"

definition total_output :: "('a, 'x) transaction \<Rightarrow> (val, value_error) outcome" where
  "total_output tx = value_sum (map out_value (tx_outputs tx))"

definition tx_balance :: "('a, 'x) transaction \<Rightarrow> val \<Rightarrow> (balance, value_error) outcome" where
  "tx_balance tx fee =
     obind (total_input tx) (\<lambda>ins.
       obind (total_output tx) (\<lambda>outs.
         obind (value_add outs fee) (\<lambda>z.
           if amount ins > amount z then obind (value_sub ins z) (\<lambda>v. Ok (Positive v))
           else if amount ins < amount z then obind (value_sub z ins) (\<lambda>v. Ok (Negative v))
           else Ok Zero)))"

section \<open>Witnesses\<close>

datatype witness =
    WitnessUtxo signature
  | WitnessAccount signature
  | WitnessOldUtxo xpub signature

definition witness_tag_oldutxo :: u8 where
  "witness_tag_oldutxo = 0"

definition witness_tag_utxo :: u8 where
  "witness_tag_utxo = 1"

definition witness_tag_account :: u8 where
  "witness_tag_account = 2"

lemmas witness_tags = witness_tag_oldutxo_def witness_tag_utxo_def witness_tag_account_def

definition tx_id_spending_counter ::
  "transaction_id \<Rightarrow> spending_counter \<Rightarrow> (bytes, 'e) outcome" where
  "tx_id_spending_counter tid counter =
     obind (vec_set [] 0 witness_tag_account)
       (\<lambda>v. Ok (v @ hash_as_ref tid @ counter_to_bytes counter))"

definition verify_utxo :: "crypto \<Rightarrow> witness \<Rightarrow> pubkey \<Rightarrow> transaction_id \<Rightarrow> (verification, 'e) outcome" where
  "verify_utxo cr w pk tid =
     (case w of
        WitnessOldUtxo _ _ \<Rightarrow> Panic
      | WitnessUtxo sig \<Rightarrow> Ok (verification_from (ed25519_verify cr pk sig (hash_as_ref tid)))
      | WitnessAccount _ \<Rightarrow> Ok Failed)"

fun witness_serialize :: "witness \<Rightarrow> bytes" where
  "witness_serialize (WitnessOldUtxo xpub sig) =
     serialize_signature sig (serialize_public_key xpub (codec_put_u8 [] witness_tag_oldutxo))"
| "witness_serialize (WitnessUtxo sig) = serialize_signature sig (codec_put_u8 [] witness_tag_utxo)"
| "witness_serialize (WitnessAccount sig) = serialize_signature sig (codec_put_u8 [] witness_tag_account)"

definition witness_read :: "witness reader" where
  "witness_read b =
     obind (get_u8 b) (\<lambda>(i, b).
       if i = witness_tag_oldutxo then
         obind (deserialize_public_key 64 xpub_from_binary b) (\<lambda>(xpub, b).
           obind (deserialize_signature b) (\<lambda>(sig, b). Ok (WitnessOldUtxo xpub sig, b)))
       else if i = witness_tag_utxo then
         obind (deserialize_signature b) (\<lambda>(sig, b). Ok (WitnessUtxo sig, b))
       else if i = witness_tag_account then
         obind (deserialize_signature b) (\<lambda>(sig, b). Ok (WitnessAccount sig, b))
       else Err (UnknownTag (ucast i)))"

record ('a, 'x) auth_transaction =
  auth_tx :: "('a, 'x) transaction"
  auth_witnesses :: "witness list"

definition auth_tx_serialize ::
  "('x \<Rightarrow> bytes) \<Rightarrow> (address, 'x) auth_transaction \<Rightarrow> (bytes, 'e) outcome" where
  "auth_tx_serialize ser_extra t =
     obind (tx_serialize_with_header ser_extra (auth_tx t))
       (\<lambda>w. Ok (w @ concat (map witness_serialize (auth_witnesses t))))"

definition auth_tx_read :: "'x reader \<Rightarrow> (address, 'x) auth_transaction reader" where
  "auth_tx_read rd_extra b =
     obind (tx_read_with_header rd_extra b) (\<lambda>(tx, b).
       obind (read_vec witness_read (length (tx_inputs tx)) b) (\<lambda>(ws, b).
         Ok (\<lparr> auth_tx = tx, auth_witnesses = ws \<rparr>, b)))"

section \<open>Codecs\<close>

lemma input_serialize_eq:
  "input_serialize i = index_or_account i # value_serialize (input_value i) @ to_be_bytes (input_ptr i)"
  by (simp add: input_serialize_def codec_put_defs)

interpretation input_codec: codec "\<lambda>_. True" input_serialize input_read
  by (rule codecI) (simp_all add: input_read_def input_serialize_eq read_simps)

interpretation stream_input: stream_codec "\<lambda>_. True" input_serialize input_deserialize
proof
  fix i rest
  show "input_deserialize (input_serialize i @ rest) = Ok (i, rest)"
    using stream_u8.stream_read_ser [OF TrueI]
    by (simp add: input_deserialize_def input_serialize_eq stream_value.stream_read_ser)
qed

interpretation output_codec: codec "\<lambda>_. True" output_serialize "output_read address_read"
  by (rule codecI) (simp_all add: output_read_def output_serialize_def read_simps flip: length_0_conv)

interpretation stream_output: stream_codec "\<lambda>_. True" output_serialize output_deserialize
  by unfold_locales
    (simp add: output_deserialize_def output_serialize_def stream_address.stream_read_ser
      stream_value.stream_read_ser)

interpretation no_extra_codec: codec "\<lambda>_. True" no_extra_serialize no_extra_read
proof
  fix x b rest
  show "no_extra_read b = Ok (x, adv (length (no_extra_serialize x)) b)"
    by (cases x) (simp add: no_extra_read_def no_extra_serialize_def)
qed

interpretation no_extra_stream: stream_codec "\<lambda>_. True" no_extra_serialize no_extra_deserialize
proof
  fix x rest
  show "no_extra_deserialize (no_extra_serialize x @ rest) = Ok (x, rest)"
    by (cases x) (simp add: no_extra_deserialize_def no_extra_serialize_def)
qed

interpretation witness_codec: codec "\<lambda>_. True" witness_serialize witness_read
proof (rule codecI)
  fix x pre rest
  show "witness_read (buf pre (witness_serialize x @ rest)) = Ok (x, buf (pre @ witness_serialize x) rest)"
    by (cases x) (simp_all add: witness_read_def codec_put_u8_def serialize_key_app witness_tags read_simps)
  show "witness_serialize x \<noteq> []"
    by (cases x) (simp_all flip: length_0_conv)
qed

lemma stream_vec_ser:
  "(\<And>x rest. rd (ser x @ rest) = Ok (x, rest)) \<Longrightarrow>
   stream_vec rd (length xs) (concat (map ser xs) @ rest) = Ok (xs, rest)"
  by (induction xs) simp_all

text \<open>Any codec of the extra part gives one of the transaction that carries it.\<close>

definition tx_fits :: "('x \<Rightarrow> bool) \<Rightarrow> ('a, 'x) transaction \<Rightarrow> bool" where
  "tx_fits valid tx \<longleftrightarrow>
     length (tx_inputs tx) < 255 \<and> length (tx_outputs tx) < 255 \<and> valid (tx_extra tx)"

lemma unat_word_of_length [simp]: "n < 255 \<Longrightarrow> unat (word_of_nat n :: u8) = n"
  by (simp add: unat_of_nat)

definition tx_bytes :: "('x \<Rightarrow> bytes) \<Rightarrow> (address, 'x) transaction \<Rightarrow> bytes" where
  "tx_bytes ser tx =
     word_of_nat (length (tx_inputs tx)) # word_of_nat (length (tx_outputs tx)) # tx_serialize_body ser tx"

lemma tx_serialize_eq:
  "tx_serialize_with_header ser tx =
     (if length (tx_inputs tx) < 255 \<and> length (tx_outputs tx) < 255 then Ok (tx_bytes ser tx) else Panic)"
  by (simp add: tx_serialize_with_header_def assert_then_def tx_bytes_def codec_put_defs Let_def)

definition auth_bytes :: "('x \<Rightarrow> bytes) \<Rightarrow> (address, 'x) auth_transaction \<Rightarrow> bytes" where
  "auth_bytes ser t = tx_bytes ser (auth_tx t) @ concat (map witness_serialize (auth_witnesses t))"

definition auth_fits :: "('x \<Rightarrow> bool) \<Rightarrow> ('a, 'x) auth_transaction \<Rightarrow> bool" where
  "auth_fits valid t \<longleftrightarrow>
     tx_fits valid (auth_tx t) \<and> length (auth_witnesses t) = length (tx_inputs (auth_tx t))"

lemma auth_serialize_eq:
  "auth_tx_serialize ser t =
     (if length (tx_inputs (auth_tx t)) < 255 \<and> length (tx_outputs (auth_tx t)) < 255
      then Ok (auth_bytes ser t) else Panic)"
  by (simp add: auth_tx_serialize_def tx_serialize_eq auth_bytes_def)

context codec
begin

lemma tx_codec: "codec (tx_fits valid) (tx_bytes ser) (tx_read_with_header rd)"
proof (rule codecI)
  fix tx :: "(address, 'a) transaction" and pre rest
  assume "tx_fits valid tx"
  then show "tx_read_with_header rd (buf pre (tx_bytes ser tx @ rest)) =
      Ok (tx, buf (pre @ tx_bytes ser tx) rest)"
    by (simp add: tx_read_with_header_def tx_bytes_def tx_serialize_body_def read_simps Let_def tx_fits_def
        tx_read_body_def input_codec.read_vec_buf output_codec.read_vec_buf read_buf)
  show "tx_bytes ser tx \<noteq> []" by (simp add: tx_bytes_def)
qed

lemma auth_tx_codec: "codec (auth_fits valid) (auth_bytes ser) (auth_tx_read rd)"
proof (rule codecI)
  fix t :: "(address, 'a) auth_transaction" and pre rest
  assume t: "auth_fits valid t"
  have ws: "read_vec witness_read (length (tx_inputs (auth_tx t)))
      (buf pre (concat (map witness_serialize (auth_witnesses t)) @ rest)) =
      Ok (auth_witnesses t, buf (pre @ concat (map witness_serialize (auth_witnesses t))) rest)" for pre
    using t witness_codec.read_vec_buf [of "auth_witnesses t" pre rest] by (simp add: auth_fits_def)
  show "auth_tx_read rd (buf pre (auth_bytes ser t @ rest)) = Ok (t, buf (pre @ auth_bytes ser t) rest)"
    using codec.read_buf [OF tx_codec, of "auth_tx t"] t
    by (simp add: auth_tx_read_def auth_bytes_def ws auth_fits_def)
  show "auth_bytes ser t \<noteq> []" by (simp add: auth_bytes_def tx_bytes_def)
qed

end

context stream_codec
begin

lemma stream_tx_codec: "stream_codec (tx_fits valid) (tx_bytes ser) (tx_deserialize_with_header rd)"
proof
  fix tx :: "(address, 'a) transaction" and rest
  assume "tx_fits valid tx"
  then show "tx_deserialize_with_header rd (tx_bytes ser tx @ rest) = Ok (tx, rest)"
    using stream_u8.stream_read_ser [OF TrueI]
    by (simp add: tx_deserialize_with_header_def tx_bytes_def tx_serialize_body_def tx_fits_def
        tx_deserialize_body_def stream_vec_ser stream_input.stream_read_ser stream_output.stream_read_ser
        stream_read_ser)
qed

end

lemma diff_of_values:
  "nval a < nval b \<Longrightarrow> \<exists>d. value_sub b a = Ok d \<and> nval b = nval a + nval d \<and> d \<noteq> value_zero"
  by (cases "value_sub b a") (auto simp: value_sub_Ok value_sub_Err)

section \<open>Properties\<close>


definition demo_auth_tx :: "(address, no_extra) auth_transaction" where
  "demo_auth_tx =
     \<lparr> auth_tx =
         \<lparr> tx_inputs = [\<lparr> index_or_account = 1, input_value = Value 7, input_ptr = 9 \<rparr>],
           tx_outputs = [\<lparr> out_address = Address Test (Single 3), out_value = Value 7 \<rparr>],
           tx_extra = NoExtra \<rparr>,
       auth_witnesses = [WitnessUtxo 11] \<rparr>"


text \<open>
  An input is decoded without a failure and encoding what was decoded gives it back. An output pointer
  or an account is recovered from its input, except for a pointer to the output number 255, which reads as
  an account.
\<close>

theorem input_enum_roundtrip:
  "(\<exists>e. input_to_enum i = (Ok e :: (input_enum, 'e) outcome) \<and> input_from_enum e = i) \<and>
   input_to_enum (input_from_enum e) =
     (Ok (case e of
            UtxoInput p \<Rightarrow>
              if ptr_output_index p = 255
              then AccountInput (Identifier (hash_word (ptr_transaction_id p))) (ptr_value p) else e
          | AccountInput acc v \<Rightarrow> e) :: (input_enum, 'e) outcome)"
proof
  show "\<exists>e. input_to_enum i = (Ok e :: (input_enum, 'e) outcome) \<and> input_from_enum e = i"
    by (cases i) (auto simp: input_to_enum_def input_get_type_def public_from_binary_def input_from_utxo_def)
  show "input_to_enum (input_from_enum e) =
     (Ok (case e of
            UtxoInput p \<Rightarrow>
              if ptr_output_index p = 255
              then AccountInput (Identifier (hash_word (ptr_transaction_id p))) (ptr_value p) else e
          | AccountInput acc v \<Rightarrow> e) :: (input_enum, 'e) outcome)"
  proof (cases e)
    case (AccountInput acc v)
    then show ?thesis
      by (cases acc) (simp add: input_to_enum_def input_get_type_def public_from_binary_def)
  next
    case (UtxoInput p)
    then show ?thesis
      by (cases p) (simp add: input_to_enum_def input_get_type_def public_from_binary_def input_from_utxo_def)
  qed
qed

text \<open>
  C38: the balance of a transaction is the exact difference between its inputs and its outputs with the
  fee: it is reported whenever none of the two sides overflows, and an overflow is the only error.
\<close>

theorem tx_balance_correct:
  "(let ins = nsum (map input_value (tx_inputs tx));
        outs = nsum (map out_value (tx_outputs tx)) + nval fee
    in case tx_balance tx fee of
         Ok (Positive v) \<Rightarrow> ins = outs + nval v \<and> v \<noteq> value_zero
       | Ok (Negative v) \<Rightarrow> outs = ins + nval v \<and> v \<noteq> value_zero
       | Ok Zero \<Rightarrow> ins = outs
       | Err e \<Rightarrow> e = Overflow \<and> (ins \<ge> 2 ^ 64 \<or> outs \<ge> 2 ^ 64)
       | Panic \<Rightarrow> False)"
proof (cases "total_input tx")
  case i: (Ok ins)
  then have ins: "nsum (map input_value (tx_inputs tx)) = nval ins"
    by (simp add: total_input_def value_sum_Ok)
  show ?thesis
  proof (cases "total_output tx")
    case o: (Ok outs)
    then have outs: "nsum (map out_value (tx_outputs tx)) = nval outs"
      by (simp add: total_output_def value_sum_Ok)
    show ?thesis
    proof (cases "value_add outs fee")
      case z: (Ok z)
      then have z': "nval z = nval outs + nval fee" by (simp add: value_add_Ok)
      consider d where "value_sub ins z = Ok d" "nval z < nval ins" "nval ins = nval z + nval d" "d \<noteq> value_zero"
        | d where "value_sub z ins = Ok d" "nval ins < nval z" "nval z = nval ins + nval d" "d \<noteq> value_zero"
        | "nval ins = nval z"
        using diff_of_values by (metis linorder_neqE_nat)
      then show ?thesis
        by cases (use i o z ins outs z' in \<open>auto simp: tx_balance_def Let_def word_less_nat_alt\<close>)
    next
      case (Err e)
      moreover from this have "e = Overflow" "2 ^ 64 \<le> nval outs + nval fee" by (simp_all add: value_add_Err)
      ultimately show ?thesis using i o outs by (simp add: tx_balance_def Let_def)
    qed simp
  qed (use i in \<open>auto simp: tx_balance_def total_output_def value_sum_eq split: if_splits\<close>)
qed (auto simp: tx_balance_def total_input_def value_sum_eq split: if_splits)

text \<open>
  a spending counter never gets the bytes to sign for an account witness: the code stores the tag at the
  index 0 of a vector that has no element, which panics for every transaction and every counter.
\<close>

theorem tx_id_spending_counter_panics:
  "tx_id_spending_counter tid counter = (Panic :: (bytes, 'e) outcome)"
  by (simp add: tx_id_spending_counter_def vec_set_def)

end
