(* ===== verification/Legacy.thy ===== *)
theory Legacy
  imports Tx
begin

text \<open>
  The addresses of the former chain (\<^verbatim>\<open>cardano/src/address.rs\<close>) and the declaration of the outputs that are taken over
  from it (\<^verbatim>\<open>chain-impl-mockchain/src/legacy.rs\<close>). The CBOR encoding of the package cbor-event and the two hash functions
  are the fields of the record \<open>legacy\<close>: whether a byte string decodes to an extended address, the bytes of an
  extended address and the bytes over which its root is computed.
\<close>

section \<open>Extended addresses\<close>

datatype addr_type = ATPubKey | ATScript | ATRedeem

definition addr_type_from_u64 :: "u64 \<Rightarrow> addr_type option" where
  "addr_type_from_u64 v =
     (if v = 0 then Some ATPubKey else if v = 1 then Some ATScript else if v = 2 then Some ATRedeem else None)"

fun addr_type_to_byte :: "addr_type \<Rightarrow> u8" where
  "addr_type_to_byte ATPubKey = 0"
| "addr_type_to_byte ATScript = 1"
| "addr_type_to_byte ATRedeem = 2"

datatype spending_data = PubKeyASD xpub | ScriptASD | RedeemASD pubkey

datatype stakeholder_id = StakeholderId "224 word"

datatype stake_distribution = BootstrapEraDistr | SingleKeyDistr stakeholder_id

datatype network_magic = NoMagic | Magic u32

datatype hd_address_payload = HDAddressPayload bytes

record attributes =
  derivation_path :: "hd_address_payload option"
  stake_distribution_of :: stake_distribution
  network_magic_of :: network_magic

datatype hashed_spending_data = HashedSpendingData "224 word"

record extended_addr =
  ea_addr :: hashed_spending_data
  ea_attributes :: attributes
  ea_addr_type :: addr_type

record legacy =
  cbor_extended_decode :: "bytes \<Rightarrow> extended_addr option"
  cbor_extended_encode :: "extended_addr \<Rightarrow> bytes"
  cbor_spending :: "addr_type \<Rightarrow> spending_data \<Rightarrow> attributes \<Rightarrow> bytes"
  sha3_256 :: "bytes \<Rightarrow> bytes"
  blake2b224 :: "bytes \<Rightarrow> 224 word"

definition attributes_bootstrap_era :: "hd_address_payload option \<Rightarrow> network_magic \<Rightarrow> attributes" where
  "attributes_bootstrap_era hdap nm =
     \<lparr> derivation_path = hdap, stake_distribution_of = BootstrapEraDistr, network_magic_of = nm \<rparr>"

text \<open>The encoder of a script is not implemented in the sources and panics.\<close>

definition hashed_spending_data_new ::
  "legacy \<Rightarrow> addr_type \<Rightarrow> spending_data \<Rightarrow> attributes \<Rightarrow> (hashed_spending_data, 'e) outcome" where
  "hashed_spending_data_new lg ty sd attrs =
     (case sd of
        ScriptASD \<Rightarrow> Panic
      | _ \<Rightarrow> Ok (HashedSpendingData (blake2b224 lg (sha3_256 lg (cbor_spending lg ty sd attrs)))))"

definition extended_addr_new ::
  "legacy \<Rightarrow> addr_type \<Rightarrow> spending_data \<Rightarrow> attributes \<Rightarrow> (extended_addr, 'e) outcome" where
  "extended_addr_new lg ty sd attrs =
     obind (hashed_spending_data_new lg ty sd attrs) (\<lambda>h.
       Ok \<lparr> ea_addr = h, ea_attributes = attrs, ea_addr_type = ty \<rparr>)"

definition extended_addr_new_simple :: "legacy \<Rightarrow> xpub \<Rightarrow> network_magic \<Rightarrow> (extended_addr, 'e) outcome" where
  "extended_addr_new_simple lg xp nm =
     extended_addr_new lg ATPubKey (PubKeyASD xp) (attributes_bootstrap_era None nm)"

datatype old_address = OldAddress (old_address_bytes: bytes)

definition extended_to_address :: "legacy \<Rightarrow> extended_addr \<Rightarrow> old_address" where
  "extended_to_address lg ea = OldAddress (cbor_extended_encode lg ea)"

definition old_address_deconstruct :: "legacy \<Rightarrow> old_address \<Rightarrow> (extended_addr, 'e) outcome" where
  "old_address_deconstruct lg a = unwrap_opt (cbor_extended_decode lg (old_address_bytes a))"

definition old_address_try_from_slice :: "legacy \<Rightarrow> bytes \<Rightarrow> old_address option" where
  "old_address_try_from_slice lg bs =
     (case cbor_extended_decode lg bs of None \<Rightarrow> None | Some _ \<Rightarrow> Some (OldAddress bs))"

section \<open>Declarations of legacy outputs\<close>

datatype utxo_declaration = UtxoDeclaration (declared_addrs: "(old_address \<times> val) list")

definition xpub_from_slice :: "bytes \<Rightarrow> xpub option" where
  "xpub_from_slice bs = (if length bs \<noteq> 64 then None else Some (from_be_bytes bs))"

definition oldaddress_from_xpub :: "legacy \<Rightarrow> old_address \<Rightarrow> xpub \<Rightarrow> (bool, 'e) outcome" where
  "oldaddress_from_xpub lg a xp =
     (case xpub_from_slice (to_be_bytes xp) of
        None \<Rightarrow> Ok False
      | Some xpub_old \<Rightarrow>
          obind (old_address_deconstruct lg a) (\<lambda>a.
            obind (extended_addr_new lg ATPubKey (PubKeyASD xpub_old) (ea_attributes a)) (\<lambda>ea. Ok (ea = a))))"

definition declared_read :: "legacy \<Rightarrow> (old_address \<times> val) reader" where
  "declared_read lg b =
     obind (value_read b) (\<lambda>(v, b).
       obind (get_u16 b) (\<lambda>(addr_size, b).
         obind (get_slice (unat addr_size) b) (\<lambda>(bs, b).
           obind (unwrap_opt (old_address_try_from_slice lg bs)) (\<lambda>addr. Ok ((addr, v), b)))))"

definition utxo_declaration_read :: "legacy \<Rightarrow> utxo_declaration reader" where
  "utxo_declaration_read lg b =
     obind (get_u8 b) (\<lambda>(nb, b).
       if unat nb \<ge> 0xff then Err (StructureInvalid ''nb entries'')
       else obind (read_vec (declared_read lg) (unat nb) b) (\<lambda>(addrs, b). Ok (UtxoDeclaration addrs, b)))"

definition declared_serialize :: "old_address \<times> val \<Rightarrow> bytes" where
  "declared_serialize = (\<lambda>(a, v).
     write_all (codec_put_u16 (value_serialize v) (word_of_nat (length (old_address_bytes a))))
       (old_address_bytes a))"

definition utxo_declaration_serialize :: "utxo_declaration \<Rightarrow> (bytes, 'e) outcome" where
  "utxo_declaration_serialize d =
     assert_then (length (declared_addrs d) < 255)
       (Ok (codec_put_u8 [] (word_of_nat (length (declared_addrs d))) @
            concat (map declared_serialize (declared_addrs d))))"

definition utxo_declaration_hash :: "crypto \<Rightarrow> utxo_declaration \<Rightarrow> (hash, 'e) outcome" where
  "utxo_declaration_hash cr d =
     obind (unwrap (utxo_declaration_serialize d :: (bytes, unit) outcome)) (\<lambda>v. Ok (hash_bytes cr v))"

section \<open>Codecs\<close>

definition declared_ok :: "legacy \<Rightarrow> old_address \<times> val \<Rightarrow> bool" where
  "declared_ok lg = (\<lambda>(a, v).
     cbor_extended_decode lg (old_address_bytes a) \<noteq> None \<and> length (old_address_bytes a) < 2 ^ 16)"

interpretation declared_codec: codec "declared_ok lg" declared_serialize "declared_read lg" for lg
proof (rule codecI)
  fix x pre rest
  assume x: "declared_ok lg x"
  obtain a v where av: "x = (a, v)" by force
  have "unat (word_of_nat (length (old_address_bytes a)) :: u16) = length (old_address_bytes a)"
    using x av by (simp add: declared_ok_def unat_of_nat)
  with x av show "declared_read lg (buf pre (declared_serialize x @ rest)) =
      Ok (x, buf (pre @ declared_serialize x) rest)"
    by (simp add: declared_read_def declared_serialize_def declared_ok_def codec_put_defs read_simps
        old_address_try_from_slice_def split: option.splits)
  show "declared_serialize x \<noteq> []" by (simp add: av declared_serialize_def codec_put_defs flip: length_0_conv)
qed

definition declaration_ok :: "legacy \<Rightarrow> utxo_declaration \<Rightarrow> bool" where
  "declaration_ok lg d \<longleftrightarrow> length (declared_addrs d) < 255 \<and> (\<forall>x \<in> set (declared_addrs d). declared_ok lg x)"

definition declaration_bytes :: "utxo_declaration \<Rightarrow> bytes" where
  "declaration_bytes d = word_of_nat (length (declared_addrs d)) # concat (map declared_serialize (declared_addrs d))"

lemma utxo_declaration_serialize_eq:
  "utxo_declaration_serialize d = (if length (declared_addrs d) < 255 then Ok (declaration_bytes d) else Panic)"
  by (simp add: utxo_declaration_serialize_def declaration_bytes_def codec_put_defs)

interpretation declaration_codec: codec "declaration_ok lg" declaration_bytes "utxo_declaration_read lg" for lg
proof (rule codecI)
  fix d pre rest
  assume d: "declaration_ok lg d"
  then show "utxo_declaration_read lg (buf pre (declaration_bytes d @ rest)) =
      Ok (d, buf (pre @ declaration_bytes d) rest)"
    by (simp add: utxo_declaration_read_def declaration_bytes_def declaration_ok_def read_simps
        declared_codec.read_vec_buf)
  show "declaration_bytes d \<noteq> []" by (simp add: declaration_bytes_def)
qed

section \<open>Ownership of a legacy address\<close>

lemma oldaddress_from_xpub_iff:
  assumes "cbor_extended_decode lg (old_address_bytes a) = Some ea"
  shows "oldaddress_from_xpub lg a xp = Ok (ea_addr_type ea = ATPubKey \<and>
    ea_addr ea = HashedSpendingData
      (blake2b224 lg (sha3_256 lg (cbor_spending lg ATPubKey (PubKeyASD xp) (ea_attributes ea)))))"
  using assms
  by (cases ea) (auto simp: oldaddress_from_xpub_def xpub_from_slice_def old_address_deconstruct_def
      extended_addr_new_def hashed_spending_data_new_def)

lemma oldaddress_from_xpub_own:
  assumes "cbor_extended_decode lg (cbor_extended_encode lg ea) = Some ea"
    and "extended_addr_new lg ATPubKey (PubKeyASD xp) attrs = Ok ea"
  shows "oldaddress_from_xpub lg (extended_to_address lg ea) xp = Ok True"
  using assms
  by (auto simp: oldaddress_from_xpub_def xpub_from_slice_def old_address_deconstruct_def extended_to_address_def
      extended_addr_new_def hashed_spending_data_new_def)

text \<open>An instance for the examples, in which an encoded address is its root.\<close>

definition demo_legacy :: legacy where
  "demo_legacy =
     \<lparr> cbor_extended_decode = (\<lambda>bs. if length bs = 28 then
           Some \<lparr> ea_addr = HashedSpendingData (from_be_bytes bs),
                  ea_attributes = attributes_bootstrap_era None NoMagic, ea_addr_type = ATPubKey \<rparr>
         else None),
       cbor_extended_encode = (\<lambda>ea. case ea_addr ea of HashedSpendingData h \<Rightarrow> to_be_bytes h),
       cbor_spending = (\<lambda>ty sd attrs. case sd of PubKeyASD xp \<Rightarrow> to_be_bytes xp | _ \<Rightarrow> []),
       sha3_256 = (\<lambda>bs. bs), blake2b224 = from_be_bytes \<rparr>"

end
