(* ===== verification/Message.thy ===== *)
theory Message
  imports Setting Certificate Tx Legacy
begin

text \<open>
  The messages a block contains: \<^verbatim>\<open>message/mod.rs\<close> and \<^verbatim>\<open>message/raw.rs\<close> of \<^verbatim>\<open>chain-impl-mockchain/src\<close>, one
  constructor for each of the five kinds, their raw form behind a tag and their form on a stream behind a length.
\<close>

section \<open>Messages\<close>

datatype message =
    MsgInitial initial_ents
  | MsgOldUtxoDeclaration utxo_declaration
  | MsgTransaction "(address, no_extra) auth_transaction"
  | MsgCertificate "(address, certificate) auth_transaction"
  | MsgUpdate update_proposal

datatype message_tag = TagInitial | TagOldUtxoDeclaration | TagTransaction | TagCertificate | TagUpdate

fun message_tag_u8 :: "message_tag \<Rightarrow> u8" where
  "message_tag_u8 TagInitial = 0"
| "message_tag_u8 TagOldUtxoDeclaration = 1"
| "message_tag_u8 TagTransaction = 2"
| "message_tag_u8 TagCertificate = 3"
| "message_tag_u8 TagUpdate = 4"

definition message_tag_from_u8 :: "u8 \<Rightarrow> message_tag option" where
  "message_tag_from_u8 n =
     (if n = 0 then Some TagInitial else if n = 1 then Some TagOldUtxoDeclaration
      else if n = 2 then Some TagTransaction else if n = 3 then Some TagCertificate
      else if n = 4 then Some TagUpdate else None)"

fun message_get_tag :: "message \<Rightarrow> message_tag" where
  "message_get_tag (MsgInitial _) = TagInitial"
| "message_get_tag (MsgOldUtxoDeclaration _) = TagOldUtxoDeclaration"
| "message_get_tag (MsgTransaction _) = TagTransaction"
| "message_get_tag (MsgCertificate _) = TagCertificate"
| "message_get_tag (MsgUpdate _) = TagUpdate"

datatype message_raw = MessageRaw (message_raw_bytes: bytes)

text \<open>
  A transaction with a certificate: its serializer asserts on the numbers of inputs and outputs first and writes the
  certificate last, so the whole fails exactly when one of the two does.
\<close>

definition cert_tx_serialize :: "(address, certificate) auth_transaction \<Rightarrow> (bytes, 'e) outcome" where
  "cert_tx_serialize t =
     assert_then (length (tx_inputs (auth_tx t)) < 255 \<and> length (tx_outputs (auth_tx t)) < 255)
       (obind (certificate_serialize (tx_extra (auth_tx t)))
         (\<lambda>w. auth_tx_serialize (\<lambda>_. w) t))"

definition message_to_raw :: "message \<Rightarrow> (message_raw, 'e) outcome" where
  "message_to_raw m =
     (let w = codec_put_u8 [] (message_tag_u8 (message_get_tag m)) in
      obind
        (case m of
           MsgInitial i \<Rightarrow> unwrap (initial_ents_serialize i)
         | MsgOldUtxoDeclaration s \<Rightarrow> unwrap (utxo_declaration_serialize s :: (bytes, unit) outcome)
         | MsgTransaction t \<Rightarrow> unwrap (auth_tx_serialize no_extra_serialize t :: (bytes, unit) outcome)
         | MsgCertificate t \<Rightarrow> unwrap (cert_tx_serialize t :: (bytes, unit) outcome)
         | MsgUpdate proposal \<Rightarrow> Ok (update_proposal_serialize proposal))
        (\<lambda>body. Ok (MessageRaw (w @ body))))"

definition message_from_raw :: "ristretto \<Rightarrow> legacy \<Rightarrow> message_raw \<Rightarrow> (message, read_error) outcome" where
  "message_from_raw cv lg raw =
     obind (get_u8 (read_buf_from (message_raw_bytes raw))) (\<lambda>(t, b).
       case message_tag_from_u8 t of
         Some TagInitial \<Rightarrow> obind (initial_ents_read b) (\<lambda>(x, _). Ok (MsgInitial x))
       | Some TagOldUtxoDeclaration \<Rightarrow>
           obind (utxo_declaration_read lg b) (\<lambda>(x, _). Ok (MsgOldUtxoDeclaration x))
       | Some TagTransaction \<Rightarrow> obind (auth_tx_read no_extra_read b) (\<lambda>(x, _). Ok (MsgTransaction x))
       | Some TagCertificate \<Rightarrow> obind (auth_tx_read (certificate_read cv) b) (\<lambda>(x, _). Ok (MsgCertificate x))
       | Some TagUpdate \<Rightarrow> obind (update_proposal_read b) (\<lambda>(x, _). Ok (MsgUpdate x))
       | None \<Rightarrow> Err (UnknownTag (ucast t)))"

definition size_bytes_plus_size :: "message_raw \<Rightarrow> nat" where
  "size_bytes_plus_size raw = 2 + length (message_raw_bytes raw)"

definition message_raw_id :: "crypto \<Rightarrow> message_raw \<Rightarrow> hash" where
  "message_raw_id cr raw = hash_bytes cr (message_raw_bytes raw)"

definition message_raw_serialize :: "message_raw \<Rightarrow> bytes" where
  "message_raw_serialize raw =
     write_all (codec_put_u16 [] (word_of_nat (length (message_raw_bytes raw)))) (message_raw_bytes raw)"

definition message_raw_deserialize :: "message_raw stream_reader" where
  "message_raw_deserialize s =
     obind (codec_get_u16 s) (\<lambda>(size', s).
       obind (read_exact (unat size') s) (\<lambda>(v, s). Ok (MessageRaw v, s)))"

definition message_serialize :: "message \<Rightarrow> (bytes, 'e) outcome" where
  "message_serialize m = obind (message_to_raw m) (\<lambda>raw. Ok (message_raw_serialize raw))"

definition message_deserialize :: "ristretto \<Rightarrow> legacy \<Rightarrow> message stream_reader" where
  "message_deserialize cv lg s =
     obind (message_raw_deserialize s) (\<lambda>(raw, s).
       obind (map_err (\<lambda>_. IoInvalidInput) (message_from_raw cv lg raw)) (\<lambda>m. Ok (m, s)))"

definition message_id :: "crypto \<Rightarrow> message \<Rightarrow> (hash, 'e) outcome" where
  "message_id cr m = obind (message_to_raw m) (\<lambda>raw. Ok (message_raw_id cr raw))"

section \<open>Codecs\<close>

definition message_ok :: "ristretto \<Rightarrow> legacy \<Rightarrow> message \<Rightarrow> bool" where
  "message_ok cv lg m =
     (case m of
        MsgInitial _ \<Rightarrow> True
      | MsgOldUtxoDeclaration d \<Rightarrow> declaration_ok lg d
      | MsgTransaction t \<Rightarrow> auth_fits (\<lambda>_. True) t
      | MsgCertificate t \<Rightarrow> auth_fits (certificate_ok cv) t
      | MsgUpdate u \<Rightarrow> proposal_fits u)"

fun message_body :: "message \<Rightarrow> bytes" where
  "message_body (MsgInitial i) = initial_ents_bytes i"
| "message_body (MsgOldUtxoDeclaration d) = declaration_bytes d"
| "message_body (MsgTransaction t) = auth_bytes no_extra_serialize t"
| "message_body (MsgCertificate t) = auth_bytes certificate_bytes t"
| "message_body (MsgUpdate u) = update_proposal_serialize u"

definition message_bytes :: "message \<Rightarrow> bytes" where
  "message_bytes m = message_tag_u8 (message_get_tag m) # message_body m"

lemma cert_tx_serialize_eq:
  assumes "auth_fits (certificate_ok cv) t"
  shows "cert_tx_serialize t = Ok (auth_bytes certificate_bytes t)"
proof -
  have "certificate_ok cv (tx_extra (auth_tx t))" using assms by (simp add: auth_fits_def tx_fits_def)
  moreover have "auth_bytes (\<lambda>_. certificate_bytes (tx_extra (auth_tx t))) t = auth_bytes certificate_bytes t"
    by (simp add: auth_bytes_def tx_bytes_def tx_serialize_body_def)
  ultimately show ?thesis
    using assms
    by (simp add: cert_tx_serialize_def auth_serialize_eq auth_fits_def tx_fits_def certificate_serialize_eq [of cv])
qed

lemma message_to_raw_eq:
  assumes "message_ok cv lg m"
  shows "message_to_raw m = Ok (MessageRaw (message_bytes m))"
proof (cases m)
  case (MsgCertificate t)
  with assms have "auth_fits (certificate_ok cv) t" by (simp add: message_ok_def)
  note cert_tx_serialize_eq [OF this, where 'a = unit]
  with MsgCertificate show ?thesis
    by (simp add: message_to_raw_def message_bytes_def codec_put_defs)
qed (use assms in \<open>auto simp: message_ok_def message_to_raw_def message_bytes_def codec_put_defs
    initial_ents_serialize_eq utxo_declaration_serialize_eq declaration_ok_def auth_serialize_eq auth_fits_def
    tx_fits_def\<close>)

lemma message_from_raw_bytes:
  assumes "message_ok cv lg m"
  shows "message_from_raw cv lg (MessageRaw (message_bytes m)) = Ok m"
proof -
  note bufs = initial_ents_read_buf
    declaration_codec.read_buf [where rest = "[]"] update_codec.read_buf [where rest = "[]"]
    codec.read_buf [OF no_extra_codec.auth_tx_codec, where rest = "[]"]
    codec.read_buf [OF codec.auth_tx_codec [OF certificate_codec.codec_axioms], where rest = "[]"]
  show ?thesis
    using assms bufs
    by (cases m)
      (simp_all add: message_ok_def message_from_raw_def message_bytes_def read_buf_from_buf read_simps
        message_tag_from_u8_def)
qed

interpretation stream_message_raw:
  stream_codec "\<lambda>raw. length (message_raw_bytes raw) < 2 ^ 16" message_raw_serialize message_raw_deserialize
proof
  fix raw rest
  assume "length (message_raw_bytes raw) < 2 ^ 16"
  then have "unat (word_of_nat (length (message_raw_bytes raw)) :: u16) = length (message_raw_bytes raw)"
    by (simp add: unat_of_nat)
  then show "message_raw_deserialize (message_raw_serialize raw @ rest) = Ok (raw, rest)"
    using stream_u16.stream_read_ser [OF TrueI]
    by (simp add: message_raw_deserialize_def message_raw_serialize_def codec_put_defs)
qed

section \<open>Properties\<close>

text \<open>
  C34: a message of any of the five kinds that fits its length fields is recovered from its raw form, and from a stream
  when the raw form has less than 65536 bytes; its identifier is the hash of the raw form.
\<close>

theorem message_roundtrip:
  assumes "message_ok cv lg m" and "length (message_bytes m) < 2 ^ 16"
  shows "\<exists>raw w. message_to_raw m = (Ok raw :: (message_raw, 'e) outcome) \<and> message_from_raw cv lg raw = Ok m \<and>
    message_serialize m = (Ok w :: (bytes, 'e) outcome) \<and> message_deserialize cv lg (w @ rest) = Ok (m, rest) \<and>
    length w = size_bytes_plus_size raw \<and>
    message_id cr m = (Ok (hash_bytes cr (message_raw_bytes raw)) :: (hash, 'e) outcome)"
proof -
  let ?raw = "MessageRaw (message_bytes m)"
  have "message_raw_deserialize (message_raw_serialize ?raw @ rest) = Ok (?raw, rest)"
    using assms(2) by (intro stream_message_raw.stream_read_ser) simp
  then show ?thesis
    by (intro exI [of _ ?raw] exI [of _ "message_raw_serialize ?raw"])
      (simp add: message_to_raw_eq [OF assms(1)] message_from_raw_bytes [OF assms(1)] message_serialize_def
        message_deserialize_def message_id_def message_raw_id_def size_bytes_plus_size_def message_raw_serialize_def
        codec_put_defs)
qed

lemma demo_message_ok: "message_ok demo_ristretto demo_legacy (MsgTransaction demo_auth_tx)"
  by (simp add: message_ok_def auth_fits_def tx_fits_def demo_auth_tx_def)

lemma demo_message_length: "length (message_bytes (MsgTransaction demo_auth_tx)) < 2 ^ 16"
proof -
  have "length (witness_serialize (WitnessUtxo sig)) = 65" for sig
    by (simp add: serialize_signature_def codec_put_defs)
  moreover have "length (input_serialize i) = 41" for i
    by (simp add: input_serialize_eq codec_put_defs)
  moreover have "length (output_serialize out) = to_size (out_address out) + 8" for out
    by (simp add: output_serialize_def length_address_serialize value_serialize_def codec_put_defs)
  ultimately show ?thesis
    by (simp add: message_bytes_def auth_bytes_def tx_bytes_def tx_serialize_body_def demo_auth_tx_def
        no_extra_serialize_def del: witness_serialize.simps)
qed

theorem message_roundtrip_witness:
  "\<exists>raw w. message_to_raw (MsgTransaction demo_auth_tx) = (Ok raw :: (message_raw, unit) outcome) \<and>
     message_from_raw demo_ristretto demo_legacy raw = Ok (MsgTransaction demo_auth_tx) \<and>
     message_serialize (MsgTransaction demo_auth_tx) = (Ok w :: (bytes, unit) outcome) \<and>
     message_deserialize demo_ristretto demo_legacy (w @ [7]) = Ok (MsgTransaction demo_auth_tx, [7]) \<and>
     length w = size_bytes_plus_size raw \<and>
     message_id demo_crypto (MsgTransaction demo_auth_tx) =
       (Ok (hash_bytes demo_crypto (message_raw_bytes raw)) :: (hash, unit) outcome)"
  by (rule message_roundtrip [OF demo_message_ok demo_message_length])

end
