(* ===== verification/Date.thy ===== *)
theory Date
  imports Text
begin

text \<open>
  Block dates, \<^verbatim>\<open>chain-impl-mockchain/src/date.rs\<close>: an epoch and a slot, ordered lexicographically.
\<close>

datatype block_date = BlockDate (epoch: u32) (slot_id: u32)

definition epoch_duration :: u32 where
  "epoch_duration = 100"

definition date_first :: block_date where
  "date_first = BlockDate 0 0"

definition date_next :: "block_date \<Rightarrow> (block_date, 'e) outcome" where
  "date_next d =
     assert_then (slot_id d < epoch_duration)
       (if slot_id d + 1 = epoch_duration then Ok (BlockDate (epoch d + 1) 0)
        else Ok (BlockDate (epoch d) (slot_id d + 1)))"

definition date_next_epoch :: "block_date \<Rightarrow> block_date" where
  "date_next_epoch d = BlockDate (epoch d + 1) 0"

definition from_epoch_slot_id :: "u32 \<Rightarrow> u32 \<Rightarrow> (block_date, 'e) outcome" where
  "from_epoch_slot_id e s = assert_then (s < epoch_duration) (Ok (BlockDate e s))"

definition date_to_string :: "block_date \<Rightarrow> string" where
  "date_to_string d = show_word (epoch d) @ ''.'' @ show_word (slot_id d)"

datatype date_parse_error = DotMissing | BadEpochId int_error_kind | BadSlotId int_error_kind

fun date_parse_error_to_string :: "date_parse_error \<Rightarrow> string" where
  "date_parse_error_to_string DotMissing = ''expected block date format EPOCH.SLOT''"
| "date_parse_error_to_string (BadEpochId _) = ''invalid epoch ID, expected block date format EPOCH.SLOT''"
| "date_parse_error_to_string (BadSlotId _) = ''invalid slot ID, expected block date format EPOCH.SLOT''"

fun date_parse_error_source :: "date_parse_error \<Rightarrow> int_error_kind option" where
  "date_parse_error_source DotMissing = None"
| "date_parse_error_source (BadEpochId e) = Some e"
| "date_parse_error_source (BadSlotId e) = Some e"

definition date_from_str :: "string \<Rightarrow> (block_date, date_parse_error) outcome" where
  "date_from_str s =
     (if CHR ''.'' \<notin> set s then Err DotMissing
      else
        let ep = takeWhile (\<lambda>c. c \<noteq> CHR ''.'') s;
            sp = drop (length ep + 1) s
        in obind (map_err BadEpochId (parse_u32 ep)) (\<lambda>e.
             obind (map_err BadSlotId (parse_u32 sp)) (\<lambda>i. Ok (BlockDate e i))))"

section \<open>The order of dates\<close>

instantiation block_date :: linorder
begin

definition less_eq_block_date :: "block_date \<Rightarrow> block_date \<Rightarrow> bool" where
  "less_eq_block_date a b \<longleftrightarrow> epoch a < epoch b \<or> epoch a = epoch b \<and> slot_id a \<le> slot_id b"

definition less_block_date :: "block_date \<Rightarrow> block_date \<Rightarrow> bool" where
  "less_block_date a b \<longleftrightarrow> epoch a < epoch b \<or> epoch a = epoch b \<and> slot_id a < slot_id b"

instance
  by standard
    (auto simp: less_eq_block_date_def less_block_date_def intro: block_date.expand)

end

lemma slot_below_last:
  fixes s :: u32
  assumes "s < epoch_duration" and "s + 1 \<noteq> epoch_duration"
  shows "unat (s + 1) = unat s + 1" and "s + 1 < epoch_duration"
proof -
  have s: "unat s < 100" using assms(1) by (simp add: epoch_duration_def word_less_nat_alt)
  then show u: "unat (s + 1) = unat s + 1" by (subst unat_add_no_overflow) simp_all
  have "unat (s + 1) \<noteq> 100" using assms(2) by (auto simp: epoch_duration_def word_unat_eq_iff)
  with s u show "s + 1 < epoch_duration" by (simp add: epoch_duration_def word_less_nat_alt)
qed

lemma slot_last:
  fixes s :: u32
  assumes "s + 1 = epoch_duration"
  shows "unat s = 99"
proof (cases "unat s = 4294967295")
  case True
  with assms show ?thesis by (simp add: epoch_duration_def word_unat_eq_iff unat_word_ariths)
next
  case False
  with assms unat_bound [of s] show ?thesis
    by (simp add: epoch_duration_def word_unat_eq_iff unat_word_ariths)
qed

text \<open>
  the next date is the least valid date after a valid date: it is later, it is valid, and no valid date lies
  between. It exists for every valid date but those whose epoch has the largest number.
\<close>

theorem date_next_least:
  assumes "slot_id d < epoch_duration" and "epoch d \<noteq> - 1"
  shows "\<exists>n. date_next d = (Ok n :: (block_date, 'e) outcome) \<and> slot_id n < epoch_duration \<and> d < n \<and>
    (\<forall>x. slot_id x < epoch_duration \<and> d < x \<longrightarrow> n \<le> x)"
proof -
  have e: "unat (epoch d + 1) = unat (epoch d) + 1"
    using assms(2) unatSuc [of "epoch d"] by (simp add: add_eq_0_iff add.commute)
  show ?thesis
  proof (cases "slot_id d + 1 = epoch_duration")
    case True
    have "BlockDate (epoch d + 1) 0 \<le> x" if "slot_id x < epoch_duration" "d < x" for x
      using that e slot_last [OF True]
      by (auto simp: less_eq_block_date_def less_block_date_def word_less_nat_alt word_le_nat_alt
          epoch_duration_def word_unat_eq_iff)
    moreover have "d < BlockDate (epoch d + 1) 0" using e by (simp add: less_block_date_def word_less_nat_alt)
    ultimately show ?thesis
      using assms True by (intro exI [of _ "BlockDate (epoch d + 1) 0"]) (auto simp: date_next_def epoch_duration_def)
  next
    case False
    note s = slot_below_last [OF assms(1) False]
    have "BlockDate (epoch d) (slot_id d + 1) \<le> x" if "d < x" for x
      using that s by (auto simp: less_eq_block_date_def less_block_date_def word_less_nat_alt word_le_nat_alt)
    moreover have "d < BlockDate (epoch d) (slot_id d + 1)"
      using s by (simp add: less_block_date_def word_less_nat_alt)
    ultimately show ?thesis
      using assms False s
      by (intro exI [of _ "BlockDate (epoch d) (slot_id d + 1)"]) (auto simp: date_next_def)
  qed
qed

theorem date_next_least_witness:
  "\<exists>n. date_next (BlockDate 3 99) = (Ok n :: (block_date, unit) outcome) \<and> BlockDate 3 99 < n"
  using date_next_least [of "BlockDate 3 99", where 'e = unit] by (auto simp: epoch_duration_def)

lemma takeWhile_dot: "takeWhile (\<lambda>c. c \<noteq> CHR ''.'') (show_word w @ CHR ''.'' # xs) = show_word w"
proof -
  have "CHR ''.'' \<notin> set (show_word w)"
    using show_nat_digits [of "CHR ''.''" "unat w"] digit_char_not(2) by (metis show_word_def)
  then show ?thesis by (subst takeWhile_append2) auto
qed

text \<open>
  Parsing the text of a date gives the date. The parser accepts more than the dates of the chain: a text with a
  slot beyond the end of the epoch is read without an error.
\<close>

theorem date_text_roundtrip:
  "date_from_str (date_to_string d) = Ok d \<and>
   date_from_str ''0.100'' = Ok (BlockDate 0 100) \<and> \<not> slot_id (BlockDate 0 100) < epoch_duration"
proof -
  have rt: "date_from_str (date_to_string d) = Ok d" for d
    by (cases d)
      (simp add: date_from_str_def date_to_string_def Let_def takeWhile_dot)
  have "date_to_string (BlockDate 0 100) = ''0.100''" by code_simp
  with rt [of "BlockDate 0 100"] have "date_from_str ''0.100'' = Ok (BlockDate 0 100)" by simp
  with rt show ?thesis by (simp add: epoch_duration_def)
qed

end
