(* ===== verification/Block.thy ===== *)
theory Block
  imports Message Date
begin

text \<open>
  Blocks: \<^verbatim>\<open>block/header.rs\<close>, \<^verbatim>\<open>block/headerraw.rs\<close>, \<^verbatim>\<open>block/mod.rs\<close> and \<^verbatim>\<open>block/builder.rs\<close> of
  \<^verbatim>\<open>chain-impl-mockchain/src\<close>. A block is a header, which states the size and the hash of the contents, and the
  messages. The reader consumes messages until the stated size is used up; the subtraction is on 32 bits and wraps.
\<close>

section \<open>Headers\<close>

datatype chain_length = ChainLength (chain_length_u32: u32)

record common =
  com_version :: any_block_version
  com_date :: block_date
  com_content_size :: u32
  com_content_hash :: hash
  com_parent_hash :: hash
  com_chain_length :: chain_length

record bft_proof =
  bft_leader_id :: leader_id
  bft_signature :: signature

record genesis_praos_proof =
  praos_node_id :: stake_pool_id
  praos_vrf_proof :: proven_output_seed
  praos_kes_proof :: signature

datatype block_proof = ProofNone | ProofBft bft_proof | ProofGenesisPraos genesis_praos_proof

record header =
  hdr_common :: common
  hdr_proof :: block_proof

datatype header_raw = HeaderRaw (header_raw_bytes: bytes)

definition chain_length_next :: "chain_length \<Rightarrow> (chain_length, 'e) outcome" where
  "chain_length_next c =
     (if unat (chain_length_u32 c) + 1 < 2 ^ 32 then Ok (ChainLength (chain_length_u32 c + 1)) else Panic)"

definition common_serialize :: "common \<Rightarrow> bytes" where
  "common_serialize c =
     (let w = codec_put_u16 [] (any_version_into_u16 (com_version c));
          w = codec_put_u32 w (com_content_size c);
          w = codec_put_u32 w (epoch (com_date c));
          w = codec_put_u32 w (slot_id (com_date c));
          w = codec_put_u32 w (chain_length_u32 (com_chain_length c));
          w = write_all w (hash_as_ref (com_content_hash c))
      in write_all w (hash_as_ref (com_parent_hash c)))"

definition common_read :: "common reader" where
  "common_read b =
     obind (get_u16 b) (\<lambda>(version, b).
     obind (get_u32 b) (\<lambda>(content_size, b).
     obind (get_u32 b) (\<lambda>(epoch, b).
     obind (get_u32 b) (\<lambda>(slot_id, b).
     obind (get_u32 b) (\<lambda>(chain_length, b).
     obind (hash_read b) (\<lambda>(content_hash, b).
     obind (hash_read b) (\<lambda>(parent_hash, b).
       Ok (\<lparr> com_version = any_version_from_u16 version, com_date = BlockDate epoch slot_id,
             com_content_size = content_size, com_content_hash = content_hash,
             com_parent_hash = parent_hash, com_chain_length = ChainLength chain_length \<rparr>, b))))))))"

definition header_serialize :: "header \<Rightarrow> (bytes, 'e) outcome" where
  "header_serialize h =
     (let w = common_serialize (hdr_common h) in
      case hdr_proof h of
        ProofNone \<Rightarrow> Ok w
      | ProofBft p \<Rightarrow>
          Ok (serialize_signature (bft_signature p) (serialize_public_key (leader_key (bft_leader_id p)) w))
      | ProofGenesisPraos p \<Rightarrow>
          (let w = w @ stake_pool_id_serialize (praos_node_id p) in
           obind (proven_to_bytes (praos_vrf_proof p) (replicate 96 0)) (\<lambda>buf.
             Ok (serialize_signature (praos_kes_proof p) (write_all w buf)))))"

definition header_read_proof :: "ristretto \<Rightarrow> any_block_version \<Rightarrow> block_proof reader" where
  "header_read_proof cv v b =
     (case v of
        Supported Genesis \<Rightarrow> Ok (ProofNone, b)
      | Supported Ed25519Signed \<Rightarrow>
          obind (deserialize_public_key 32 public_from_binary b) (\<lambda>(k, b).
            obind (deserialize_signature b) (\<lambda>(sig, b).
              Ok (ProofBft \<lparr> bft_leader_id = LeaderId k, bft_signature = sig \<rparr>, b)))
      | Supported KesVrfproof \<Rightarrow>
          obind (stake_pool_id_read b) (\<lambda>(node_id, b).
            obind (get_slice 96 b) (\<lambda>(bs, b).
              obind (ok_or (StructureInvalid ''VRF Proof'') (proven_from_bytes_unverified cv bs)) (\<lambda>vrf.
                obind (deserialize_signature b) (\<lambda>(kes, b).
                  Ok (ProofGenesisPraos
                    \<lparr> praos_node_id = node_id, praos_vrf_proof = vrf, praos_kes_proof = kes \<rparr>, b)))))
      | Unsupported version \<Rightarrow> Err (UnknownTag (ucast version)))"

definition header_read :: "ristretto \<Rightarrow> header reader" where
  "header_read cv b =
     obind (common_read b) (\<lambda>(c, b).
       obind (header_read_proof cv (com_version c) b) (\<lambda>(p, b).
         Ok (\<lparr> hdr_common = c, hdr_proof = p \<rparr>, b)))"

definition header_to_raw :: "header \<Rightarrow> (header_raw, 'e) outcome" where
  "header_to_raw h = obind (header_serialize h) (\<lambda>w. Ok (HeaderRaw w))"

definition header_hash :: "crypto \<Rightarrow> header \<Rightarrow> (hash, 'e) outcome" where
  "header_hash cr h = obind (unwrap (header_serialize h :: (bytes, unit) outcome)) (\<lambda>w. Ok (hash_bytes cr w))"

definition header_raw_serialize :: "header_raw \<Rightarrow> bytes" where
  "header_raw_serialize raw =
     write_all (codec_put_u16 [] (word_of_nat (length (header_raw_bytes raw)))) (header_raw_bytes raw)"

definition header_raw_deserialize :: "header_raw stream_reader" where
  "header_raw_deserialize s =
     obind (codec_get_u16 s) (\<lambda>(size', s).
       obind (read_exact (unat size') s) (\<lambda>(v, s). Ok (HeaderRaw v, s)))"

definition header_deserialize :: "ristretto \<Rightarrow> header stream_reader" where
  "header_deserialize cv s =
     obind (header_raw_deserialize s) (\<lambda>(raw, s).
       obind (map_err (\<lambda>_. IoInvalidData) (read_from_raw (header_read cv) (header_raw_bytes raw)))
         (\<lambda>h. Ok (h, s)))"

section \<open>Blocks\<close>

datatype block_contents = BlockContents (content_messages: "message list")

record block =
  blk_header :: header
  blk_contents :: block_contents

definition serialize_messages :: "message list \<Rightarrow> bytes \<Rightarrow> (bytes, 'e) outcome" where
  "serialize_messages ms w =
     fold_outcome (\<lambda>m w. obind (message_to_raw m) (\<lambda>raw. Ok (w @ message_raw_serialize raw))) ms w"

definition compute_hash_size :: "crypto \<Rightarrow> block_contents \<Rightarrow> (hash \<times> nat, 'e) outcome" where
  "compute_hash_size cr c =
     obind (serialize_messages (content_messages c) []) (\<lambda>bytes. Ok (hash_bytes cr bytes, length bytes))"

definition is_consistent :: "crypto \<Rightarrow> block \<Rightarrow> (bool, 'e) outcome" where
  "is_consistent cr b =
     obind (compute_hash_size cr (blk_contents b)) (\<lambda>(content_hash, content_size).
       Ok (content_hash = com_content_hash (hdr_common (blk_header b)) \<and>
           content_size = unat (com_content_size (hdr_common (blk_header b)))))"

definition block_serialize :: "block \<Rightarrow> (bytes, 'e) outcome" where
  "block_serialize b =
     obind (header_serialize (blk_header b)) (\<lambda>v.
       serialize_messages (content_messages (blk_contents b)) (header_raw_serialize (HeaderRaw v)))"

text \<open>
  The loop of the reader ends because every message takes at least the two bytes of its length from the stream.
\<close>

lemma message_raw_deserialize_shorter:
  assumes "message_raw_deserialize s = Ok (raw, s')"
  shows "s = message_raw_serialize raw @ s'" and "length s' < length s"
proof -
  let ?n = "unat (from_be_bytes (take 2 s) :: u16)"
  have "s = take 2 s @ take ?n (drop 2 s) @ drop ?n (drop 2 s)" by (metis append_take_drop_id)
  with assms show "s = message_raw_serialize raw @ s'"
    by (auto simp: message_raw_deserialize_def codec_get_u16_def read_exact_def message_raw_serialize_def
        codec_put_defs to_from_be_bytes split: if_splits)
  then show "length s' < length s" by (simp add: message_raw_serialize_def codec_put_defs)
qed

function block_read_contents ::
  "ristretto \<Rightarrow> legacy \<Rightarrow> u32 \<Rightarrow> message list \<Rightarrow> bytes \<Rightarrow> (message list \<times> bytes, io_error) outcome" where
  "block_read_contents cv lg serialized_content_size contents s =
     (if serialized_content_size > 0 then
        (case message_raw_deserialize s of
           Ok (raw, s') \<Rightarrow>
             obind (map_err (\<lambda>_. IoInvalidInput) (message_from_raw cv lg raw)) (\<lambda>message.
               block_read_contents cv lg (serialized_content_size - word_of_nat (size_bytes_plus_size raw))
                 (contents @ [message]) s')
         | Err e \<Rightarrow> Err e
         | Panic \<Rightarrow> Panic)
      else Ok (contents, s))"
  by pat_completeness auto
termination block_read_contents
  by (relation "measure (\<lambda>(_, _, _, _, s). length s)") (auto dest: message_raw_deserialize_shorter)

declare block_read_contents.simps [simp del]

definition block_deserialize :: "ristretto \<Rightarrow> legacy \<Rightarrow> block stream_reader" where
  "block_deserialize cv lg s =
     obind (header_deserialize cv s) (\<lambda>(h, s).
       obind (block_read_contents cv lg (com_content_size (hdr_common h)) [] s) (\<lambda>(ms, s).
         Ok (\<lparr> blk_header = h, blk_contents = BlockContents ms \<rparr>, s)))"

definition block_id :: "crypto \<Rightarrow> block \<Rightarrow> (hash, 'e) outcome" where
  "block_id cr b = header_hash cr (blk_header b)"

section \<open>The builder\<close>

record block_builder =
  bb_common :: common
  bb_contents :: block_contents

definition builder_from_block :: "block \<Rightarrow> block_builder" where
  "builder_from_block b = \<lparr> bb_common = hdr_common (blk_header b), bb_contents = blk_contents b \<rparr>"

definition builder_new :: block_builder where
  "builder_new =
     \<lparr> bb_common =
         \<lparr> com_version = Supported Genesis, com_date = date_first, com_content_size = 0,
           com_content_hash = hash_zero, com_parent_hash = hash_zero, com_chain_length = ChainLength 0 \<rparr>,
       bb_contents = BlockContents [] \<rparr>"

definition builder_date :: "block_date \<Rightarrow> block_builder \<Rightarrow> block_builder" where
  "builder_date d bb = bb\<lparr>bb_common := (bb_common bb)\<lparr>com_date := d\<rparr>\<rparr>"

definition builder_chain_length :: "chain_length \<Rightarrow> block_builder \<Rightarrow> block_builder" where
  "builder_chain_length n bb = bb\<lparr>bb_common := (bb_common bb)\<lparr>com_chain_length := n\<rparr>\<rparr>"

definition builder_parent :: "hash \<Rightarrow> block_builder \<Rightarrow> block_builder" where
  "builder_parent h bb = bb\<lparr>bb_common := (bb_common bb)\<lparr>com_parent_hash := h\<rparr>\<rparr>"

definition builder_message :: "message \<Rightarrow> block_builder \<Rightarrow> block_builder" where
  "builder_message m bb = bb\<lparr>bb_contents := BlockContents (content_messages (bb_contents bb) @ [m])\<rparr>"

definition builder_transaction :: "(address, no_extra) auth_transaction \<Rightarrow> block_builder \<Rightarrow> block_builder" where
  "builder_transaction t bb = builder_message (MsgTransaction t) bb"

definition builder_messages :: "message list \<Rightarrow> block_builder \<Rightarrow> block_builder" where
  "builder_messages ms bb = bb\<lparr>bb_contents := BlockContents (content_messages (bb_contents bb) @ ms)\<rparr>"

definition make_block :: "block_proof \<Rightarrow> block_builder \<Rightarrow> block" where
  "make_block p bb = \<lparr> blk_header = \<lparr> hdr_common = bb_common bb, hdr_proof = p \<rparr>, blk_contents = bb_contents bb \<rparr>"

definition finalize_common :: "crypto \<Rightarrow> block_version \<Rightarrow> block_builder \<Rightarrow> (block_builder, 'e) outcome" where
  "finalize_common cr v bb =
     obind (compute_hash_size cr (bb_contents bb)) (\<lambda>(content_hash, content_size).
       Ok (bb\<lparr>bb_common := (bb_common bb)
         \<lparr>com_content_hash := content_hash, com_content_size := word_of_nat content_size,
          com_version := Supported v\<rparr>\<rparr>))"

definition make_genesis_block :: "crypto \<Rightarrow> block_builder \<Rightarrow> (block, 'e) outcome" where
  "make_genesis_block cr bb =
     assert_then (com_parent_hash (bb_common bb) = hash_zero)
       (assert_then (com_date (bb_common bb) = date_first)
         (assert_then (com_chain_length (bb_common bb) = ChainLength 0)
           (obind (finalize_common cr Genesis bb) (\<lambda>bb. Ok (make_block ProofNone bb)))))"

definition make_bft_block :: "crypto \<Rightarrow> spending_secret_key \<Rightarrow> block_builder \<Rightarrow> (block, 'e) outcome" where
  "make_bft_block cr sk bb =
     assert_then (com_chain_length (bb_common bb) \<noteq> ChainLength 0)
       (obind (finalize_common cr Ed25519Signed bb) (\<lambda>bb.
         obind (make_signature cr sk (Ok (common_serialize (bb_common bb)) :: (bytes, unit) outcome)) (\<lambda>sig.
           Ok (make_block
             (ProofBft \<lparr> bft_leader_id = LeaderId (ed25519_public cr sk), bft_signature = sig \<rparr>) bb))))"

definition make_genesis_praos_block ::
  "crypto \<Rightarrow> stake_pool_id \<Rightarrow> kes_secret_key \<Rightarrow> proven_output_seed \<Rightarrow> block_builder \<Rightarrow> (block, 'e) outcome" where
  "make_genesis_praos_block cr node_id kes_signing_key vrf_proof bb =
     assert_then (com_chain_length (bb_common bb) \<noteq> ChainLength 0)
       (obind (finalize_common cr KesVrfproof bb) (\<lambda>bb.
         obind (make_signature_update cr kes_signing_key
             (Ok (common_serialize (bb_common bb)) :: (bytes, unit) outcome)) (\<lambda>sig.
           Ok (make_block
             (ProofGenesisPraos
               \<lparr> praos_node_id = node_id, praos_vrf_proof = vrf_proof, praos_kes_proof = sig \<rparr>) bb))))"

section \<open>Codecs\<close>

lemma raw_read_buf:
  "hash_read (buf pre (hash_as_ref h @ rest)) = Ok (h, buf (pre @ hash_as_ref h) rest)"
  "deserialize_signature (buf pre (to_be_bytes sig @ rest)) = Ok (sig, buf (pre @ to_be_bytes sig) rest)"
  "deserialize_public_key 32 public_from_binary (buf pre (to_be_bytes k @ rest)) =
     Ok (k, buf (pre @ to_be_bytes k) rest)"
  using key_read_buf(1) [of pre h rest] key_read_buf(2) [of pre sig rest] key_read_buf(3) [of pre k rest]
  by (simp_all add: hash_serialize_def serialize_signature_def serialize_public_key_def write_all_def)

definition version_ok :: "any_block_version \<Rightarrow> bool" where
  "version_ok v \<longleftrightarrow> any_version_from_u16 (any_version_into_u16 v) = v"

interpretation common_codec: codec "\<lambda>c. version_ok (com_version c)" common_serialize common_read
proof (rule codecI)
  fix c :: common and pre rest
  assume "version_ok (com_version c)"
  then show "common_read (buf pre (common_serialize c @ rest)) = Ok (c, buf (pre @ common_serialize c) rest)"
    by (simp add: common_read_def common_serialize_def codec_put_defs read_simps raw_read_buf version_ok_def Let_def)
  show "common_serialize c \<noteq> []" by (simp add: common_serialize_def codec_put_defs Let_def flip: length_0_conv)
qed

fun proof_ok :: "ristretto \<Rightarrow> any_block_version \<Rightarrow> block_proof \<Rightarrow> bool" where
  "proof_ok cv v ProofNone = (v = Supported Genesis)"
| "proof_ok cv v (ProofBft _) = (v = Supported Ed25519Signed)"
| "proof_ok cv v (ProofGenesisPraos p) = (v = Supported KesVrfproof \<and> proven_ok cv (praos_vrf_proof p))"

definition header_ok :: "ristretto \<Rightarrow> header \<Rightarrow> bool" where
  "header_ok cv h = proof_ok cv (com_version (hdr_common h)) (hdr_proof h)"

fun proof_bytes :: "block_proof \<Rightarrow> bytes" where
  "proof_bytes ProofNone = []"
| "proof_bytes (ProofBft p) = to_be_bytes (leader_key (bft_leader_id p)) @ to_be_bytes (bft_signature p)"
| "proof_bytes (ProofGenesisPraos p) =
     hash_as_ref (pool_hash (praos_node_id p)) @ proven_bytes (praos_vrf_proof p) @ to_be_bytes (praos_kes_proof p)"

definition header_bytes :: "header \<Rightarrow> bytes" where
  "header_bytes h = common_serialize (hdr_common h) @ proof_bytes (hdr_proof h)"

lemma header_serialize_eq: "header_serialize h = Ok (header_bytes h)"
  by (cases "hdr_proof h")
    (simp_all add: header_serialize_def header_bytes_def proven_to_bytes_eq serialize_signature_def
      serialize_public_key_def stake_pool_id_serialize_def codec_put_defs Let_def)

lemma length_header_bytes: "length (header_bytes h) < 2 ^ 16"
  by (cases "hdr_proof h") (simp_all add: header_bytes_def common_serialize_def codec_put_defs Let_def)

lemma header_read_proof_buf:
  "proof_ok cv v p \<Longrightarrow>
   header_read_proof cv v (buf pre (proof_bytes p @ rest)) = Ok (p, buf (pre @ proof_bytes p) rest)"
  using stake_pool_codec.read_buf [OF TrueI]
  by (cases p)
    (simp_all add: header_read_proof_def read_simps raw_read_buf proven_from_to_bytes stake_pool_id_serialize_def codec_put_defs)

lemma header_ok_version: "header_ok cv h \<Longrightarrow> version_ok (com_version (hdr_common h))"
  by (cases "hdr_proof h") (auto simp: header_ok_def version_ok_def any_version_from_u16_def block_version_from_u16_def)

interpretation header_codec: codec "header_ok cv" header_bytes "header_read cv" for cv
proof (rule codecI)
  fix h :: header and pre rest
  assume ok: "header_ok cv h"
  from common_codec.read_buf [OF header_ok_version [OF ok]] header_read_proof_buf ok
  show "header_read cv (buf pre (header_bytes h @ rest)) = Ok (h, buf (pre @ header_bytes h) rest)"
    by (simp add: header_read_def header_bytes_def header_ok_def)
  show "header_bytes h \<noteq> []"
    by (simp add: header_bytes_def common_serialize_def codec_put_defs Let_def flip: length_0_conv)
qed

interpretation stream_header_raw:
  stream_codec "\<lambda>raw. length (header_raw_bytes raw) < 2 ^ 16" header_raw_serialize header_raw_deserialize
proof
  fix raw rest
  assume "length (header_raw_bytes raw) < 2 ^ 16"
  then have "unat (word_of_nat (length (header_raw_bytes raw)) :: u16) = length (header_raw_bytes raw)"
    by (simp add: unat_of_nat)
  then show "header_raw_deserialize (header_raw_serialize raw @ rest) = Ok (raw, rest)"
    using stream_u16.stream_read_ser [OF TrueI]
    by (simp add: header_raw_deserialize_def header_raw_serialize_def codec_put_defs)
qed

interpretation stream_header:
  stream_codec "header_ok cv" "\<lambda>h. header_raw_serialize (HeaderRaw (header_bytes h))" "header_deserialize cv" for cv
proof
  fix h rest
  assume "header_ok cv h"
  with length_header_bytes [of h] show
    "header_deserialize cv (header_raw_serialize (HeaderRaw (header_bytes h)) @ rest) = Ok (h, rest)"
    by (simp add: header_deserialize_def stream_header_raw.stream_read_ser header_codec.read_from_raw_ser)
qed

section \<open>The contents of a block\<close>

definition message_chunk :: "message \<Rightarrow> bytes" where
  "message_chunk m = message_raw_serialize (MessageRaw (message_bytes m))"

definition messages_ok :: "ristretto \<Rightarrow> legacy \<Rightarrow> message list \<Rightarrow> bool" where
  "messages_ok cv lg ms \<longleftrightarrow> (\<forall>m \<in> set ms. message_ok cv lg m \<and> length (message_bytes m) < 2 ^ 16)"

lemma messages_ok_simps [simp]:
  "messages_ok cv lg []"
  "messages_ok cv lg (m # ms) \<longleftrightarrow> message_ok cv lg m \<and> length (message_bytes m) < 2 ^ 16 \<and> messages_ok cv lg ms"
  by (auto simp: messages_ok_def)

lemma length_message_chunk: "length (message_chunk m) = length (message_bytes m) + 2"
  by (simp add: message_chunk_def message_raw_serialize_def codec_put_defs)

lemma serialize_messages_eq:
  "messages_ok cv lg ms \<Longrightarrow> serialize_messages ms w = Ok (w @ concat (map message_chunk ms))"
  by (induction ms arbitrary: w)
    (simp_all add: serialize_messages_def message_to_raw_eq [of cv lg] message_chunk_def)

lemma block_read_contents_chunks:
  assumes "messages_ok cv lg ms" and "length (concat (map message_chunk ms)) < 2 ^ 32"
  shows "block_read_contents cv lg (word_of_nat (length (concat (map message_chunk ms)))) acc
    (concat (map message_chunk ms) @ rest) = Ok (acc @ ms, rest)"
  using assms
proof (induction ms arbitrary: acc)
  case Nil
  then show ?case by (simp add: block_read_contents.simps)
next
  case (Cons m ms)
  let ?n = "length (concat (map message_chunk ms))"
  let ?size = "word_of_nat (length (concat (map message_chunk (m # ms)))) :: u32"
  have len: "length (concat (map message_chunk (m # ms))) = Suc (Suc (length (message_bytes m))) + ?n"
    by (simp add: length_message_chunk)
  have pos: "?size > 0"
    using Cons.prems(2) unfolding len by (simp add: word_less_nat_alt unat_of_nat del: of_nat_Suc of_nat_add)
  have left: "?size - word_of_nat (size_bytes_plus_size (MessageRaw (message_bytes m))) = word_of_nat ?n"
    unfolding len by (simp add: size_bytes_plus_size_def)
  have "message_raw_deserialize (message_chunk m @ concat (map message_chunk ms) @ rest) =
      Ok (MessageRaw (message_bytes m), concat (map message_chunk ms) @ rest)"
    using Cons.prems(1) unfolding message_chunk_def by (intro stream_message_raw.stream_read_ser) simp
  then have "block_read_contents cv lg ?size acc (concat (map message_chunk (m # ms)) @ rest) =
      block_read_contents cv lg (word_of_nat ?n) (acc @ [m]) (concat (map message_chunk ms) @ rest)"
    using pos left Cons.prems(1)
    by (subst block_read_contents.simps)
      (simp add: message_from_raw_bytes del: of_nat_add length_concat of_nat_Suc)
  with Cons.IH [of "acc @ [m]"] Cons.prems show ?case by simp
qed

lemma block_read_contents_sound:
  "block_read_contents cv lg n acc s = Ok (ms', rest) \<Longrightarrow>
   \<exists>raws ms. ms' = acc @ ms \<and> s = concat (map message_raw_serialize raws) @ rest \<and>
     list_all2 (\<lambda>raw m. message_from_raw cv lg raw = Ok m) raws ms \<and>
     n = word_of_nat (sum_list (map size_bytes_plus_size raws))"
proof (induction cv lg n acc s rule: block_read_contents.induct)
  case (1 cv lg n acc s)
  show ?case
  proof (cases "n > 0")
    case False
    then have "n = 0" by (simp add: word_gt_0)
    then show ?thesis
      using 1(2) by (intro exI [of _ "[]"]) (simp add: block_read_contents.simps [of cv lg 0])
  next
    case True
    then obtain raw s1 m where raw: "message_raw_deserialize s = Ok (raw, s1)"
      and m: "message_from_raw cv lg raw = Ok m"
      and next': "block_read_contents cv lg (n - word_of_nat (size_bytes_plus_size raw)) (acc @ [m]) s1 = Ok (ms', rest)"
      using 1(2) by (subst (asm) block_read_contents.simps) (auto split: outcome.splits prod.splits)
    from 1(1) [OF True raw refl _ next'] m obtain raws ms where
      "ms' = acc @ m # ms" "s1 = concat (map message_raw_serialize raws) @ rest"
      "list_all2 (\<lambda>raw m. message_from_raw cv lg raw = Ok m) raws ms"
      "n - word_of_nat (size_bytes_plus_size raw) = word_of_nat (sum_list (map size_bytes_plus_size raws))"
      by auto
    with message_raw_deserialize_shorter(1) [OF raw] m show ?thesis
      by (intro exI [of _ "raw # raws"] exI [of _ "m # ms"]) (auto simp: algebra_simps)
  qed
qed

section \<open>Properties\<close>

definition block_ok :: "ristretto \<Rightarrow> legacy \<Rightarrow> block \<Rightarrow> bool" where
  "block_ok cv lg b \<longleftrightarrow> header_ok cv (blk_header b) \<and> messages_ok cv lg (content_messages (blk_contents b))"

definition block_bytes :: "block \<Rightarrow> bytes" where
  "block_bytes b = header_raw_serialize (HeaderRaw (header_bytes (blk_header b))) @
     concat (map message_chunk (content_messages (blk_contents b)))"

lemma block_deserialize_bytes:
  assumes "block_ok cv lg b" and "is_consistent cr b = (Ok True :: (bool, unit) outcome)"
  shows "block_deserialize cv lg (block_bytes b @ rest) = Ok (b, rest)"
proof -
  let ?c = "concat (map message_chunk (content_messages (blk_contents b)))"
  from assms(1) have h: "header_ok cv (blk_header b)" and ms: "messages_ok cv lg (content_messages (blk_contents b))"
    by (simp_all add: block_ok_def)
  have size: "length ?c = unat (com_content_size (hdr_common (blk_header b)))"
    using assms(2) by (simp add: is_consistent_def compute_hash_size_def serialize_messages_eq [OF ms])
  then have size': "word_of_nat (length ?c) = com_content_size (hdr_common (blk_header b))"
    by (simp del: length_concat)
  have "length ?c < 2 ^ 32" using unsigned_less [of "com_content_size (hdr_common (blk_header b))"] size by simp
  note contents = block_read_contents_chunks [OF ms this, of "[]" rest, unfolded size']
  show ?thesis
    using stream_header.stream_read_ser [OF h, of "?c @ rest"] contents
    by (simp add: block_deserialize_def block_bytes_def)
qed

text \<open>
  C26: a block whose parts fit their length fields and whose header states the size of its contents is recovered from
  its bytes, whatever follows them.
\<close>

theorem block_roundtrip:
  assumes "block_ok cv lg b" and "is_consistent cr b = (Ok True :: (bool, unit) outcome)"
  shows "\<exists>w. block_serialize b = (Ok w :: (bytes, 'e) outcome) \<and> block_deserialize cv lg (w @ rest) = Ok (b, rest)"
proof -
  have "block_serialize b = (Ok (block_bytes b) :: (bytes, 'e) outcome)"
    using assms(1)
    by (simp add: block_serialize_def block_bytes_def header_serialize_eq serialize_messages_eq [of cv lg] block_ok_def)
  with block_deserialize_bytes [OF assms] show ?thesis by blast
qed

definition demo_builder :: block_builder where
  "demo_builder = builder_message (MsgTransaction demo_auth_tx) builder_new"

lemma demo_messages_ok: "messages_ok demo_ristretto demo_legacy (content_messages (bb_contents demo_builder))"
  using demo_message_ok demo_message_length by (simp add: demo_builder_def builder_message_def builder_new_def)


lemma finalize_common_consistent:
  assumes "messages_ok cv lg (content_messages (bb_contents bb))"
    and "length (concat (map message_chunk (content_messages (bb_contents bb)))) < 2 ^ 32"
  shows "\<exists>bb'. finalize_common cr v bb = Ok bb' \<and> com_version (bb_common bb') = Supported v \<and>
    bb_contents bb' = bb_contents bb \<and> com_parent_hash (bb_common bb') = com_parent_hash (bb_common bb) \<and>
    com_date (bb_common bb') = com_date (bb_common bb) \<and>
    com_chain_length (bb_common bb') = com_chain_length (bb_common bb) \<and>
    is_consistent cr (make_block p bb') = Ok True"
  using assms(2)
  by (simp add: finalize_common_def compute_hash_size_def serialize_messages_eq [OF assms(1)] is_consistent_def
      make_block_def unat_of_nat del: length_concat)

text \<open>
  C28: the builder makes consistent blocks. From a builder at a positive chain length whose messages fit, both a BFT
  block and a Genesis/Praos block are made without a failure; the block keeps the messages, the date, the parent and
  the chain length, its proof is the one its version calls for, and its signature is accepted under the public key of
  the signing key, for every scheme whose own signatures are accepted.
\<close>

theorem builder_correct:
  assumes "\<And>sk msg. ed25519_verify cr (ed25519_public cr sk) (ed25519_sign cr sk msg) msg"
    and "\<And>sk msg. ed25519_verify cr (mmm_public cr sk) (mmm_sign cr sk msg) msg"
    and "messages_ok cv lg (content_messages (bb_contents bb))"
    and "length (concat (map message_chunk (content_messages (bb_contents bb)))) < 2 ^ 32"
    and "com_chain_length (bb_common bb) \<noteq> ChainLength 0" and "proven_ok cv vrf"
  shows "\<exists>b1 b2 p1 p2. make_bft_block cr sk bb = (Ok b1 :: (block, 'e) outcome) \<and>
      make_genesis_praos_block cr node kes vrf bb = (Ok b2 :: (block, 'e) outcome) \<and>
      hdr_proof (blk_header b1) = ProofBft p1 \<and> hdr_proof (blk_header b2) = ProofGenesisPraos p2 \<and>
      bft_leader_id p1 = LeaderId (ed25519_public cr sk) \<and> praos_node_id p2 = node \<and> praos_vrf_proof p2 = vrf \<and>
      verify_signature cr (bft_signature p1) (ed25519_public cr sk)
        (Ok (common_serialize (hdr_common (blk_header b1))) :: (bytes, unit) outcome) =
        (Ok Success :: (verification, 'e) outcome) \<and>
      verify_signature cr (praos_kes_proof p2) (mmm_public cr kes)
        (Ok (common_serialize (hdr_common (blk_header b2))) :: (bytes, unit) outcome) =
        (Ok Success :: (verification, 'e) outcome) \<and>
      (\<forall>b \<in> {b1, b2}. is_consistent cr b = (Ok True :: (bool, 'e) outcome) \<and> block_ok cv lg b \<and>
        blk_contents b = bb_contents bb \<and> com_date (hdr_common (blk_header b)) = com_date (bb_common bb) \<and>
        com_parent_hash (hdr_common (blk_header b)) = com_parent_hash (bb_common bb) \<and>
        com_chain_length (hdr_common (blk_header b)) = com_chain_length (bb_common bb))"
proof -
  note fin = finalize_common_consistent [OF assms(3,4)]
  obtain bb1 where 1: "finalize_common cr Ed25519Signed bb = (Ok bb1 :: (block_builder, 'e) outcome)"
    "com_version (bb_common bb1) = Supported Ed25519Signed" "bb_contents bb1 = bb_contents bb"
    "com_parent_hash (bb_common bb1) = com_parent_hash (bb_common bb)"
    "com_date (bb_common bb1) = com_date (bb_common bb)"
    "com_chain_length (bb_common bb1) = com_chain_length (bb_common bb)"
    and c1: "is_consistent cr (make_block p bb1) = (Ok True :: (bool, 'e) outcome)" for p
    using fin [where 'a = 'e and 'b = 'e, of cr Ed25519Signed] by (fastforce simp: is_consistent_def make_block_def)
  obtain bb2 where 2: "finalize_common cr KesVrfproof bb = (Ok bb2 :: (block_builder, 'e) outcome)"
    "com_version (bb_common bb2) = Supported KesVrfproof" "bb_contents bb2 = bb_contents bb"
    "com_parent_hash (bb_common bb2) = com_parent_hash (bb_common bb)"
    "com_date (bb_common bb2) = com_date (bb_common bb)"
    "com_chain_length (bb_common bb2) = com_chain_length (bb_common bb)"
    and c2: "is_consistent cr (make_block p bb2) = (Ok True :: (bool, 'e) outcome)" for p
    using fin [where 'a = 'e and 'b = 'e, of cr KesVrfproof] by (fastforce simp: is_consistent_def make_block_def)
  have ok: "block_ok cv lg (make_block p bb')"
    if "proof_ok cv (com_version (bb_common bb')) p" "bb_contents bb' = bb_contents bb" for p bb'
    using that assms(3) by (simp add: block_ok_def header_ok_def make_block_def)
  let ?p1 = "\<lparr> bft_leader_id = LeaderId (ed25519_public cr sk),
    bft_signature = ed25519_sign cr sk (common_serialize (bb_common bb1)) \<rparr>"
  let ?p2 = "\<lparr> praos_node_id = node, praos_vrf_proof = vrf,
    praos_kes_proof = mmm_sign cr kes (common_serialize (bb_common bb2)) \<rparr>"
  show ?thesis
    using 1 2 c1 c2 assms(1,2,5,6)
    by (intro exI [of _ "make_block (ProofBft ?p1) bb1"] exI [of _ "make_block (ProofGenesisPraos ?p2) bb2"]
        exI [of _ ?p1] exI [of _ ?p2])
      (simp add: make_bft_block_def make_genesis_praos_block_def make_signature_def make_signature_update_def
        verify_signature_def ok verification_from_def, simp add: make_block_def)
qed

text \<open>A BFT block with one transaction, made, written and read back.\<close>

lemma demo_builder_fits:
  "length (concat (map message_chunk (content_messages (bb_contents (builder_chain_length n demo_builder))))) < 2 ^ 32"
  using demo_message_length
  by (simp add: demo_builder_def builder_message_def builder_new_def builder_chain_length_def length_message_chunk)

lemma demo_messages_ok_at:
  "messages_ok demo_ristretto demo_legacy (content_messages (bb_contents (builder_chain_length n demo_builder)))"
  using demo_messages_ok by (simp add: builder_chain_length_def)

theorem builder_correct_witness:
  "\<exists>b1. make_bft_block demo_crypto 5 (builder_chain_length (ChainLength 1) demo_builder) =
       (Ok b1 :: (block, unit) outcome) \<and> is_consistent demo_crypto b1 = (Ok True :: (bool, unit) outcome) \<and>
     block_ok demo_ristretto demo_legacy b1"
proof -
  have "com_chain_length (bb_common (builder_chain_length (ChainLength 1) demo_builder)) \<noteq> ChainLength 0"
    by (simp add: builder_chain_length_def)
  moreover have "proven_ok demo_ristretto
      (vrf_evaluate demo_ristretto (vrf_secret_random demo_ristretto 5) 77 [])"
    by (simp add: proven_ok_def demo_ristretto_def)
  ultimately show ?thesis
    using builder_correct [OF _ _ demo_messages_ok_at demo_builder_fits, of demo_crypto "ChainLength 1", where 'e = unit]
    by (simp add: demo_crypto_def) blast
qed

lemma demo_genesis_block:
  "\<exists>b. make_genesis_block demo_crypto demo_builder = (Ok b :: (block, unit) outcome) \<and>
     is_consistent demo_crypto b = (Ok True :: (bool, unit) outcome) \<and> block_ok demo_ristretto demo_legacy b"
proof -
  have "length (concat (map message_chunk (content_messages (bb_contents demo_builder)))) < 2 ^ 32"
    using demo_builder_fits [of "ChainLength 0"] by (simp add: builder_chain_length_def)
  from finalize_common_consistent [OF demo_messages_ok this, of demo_crypto Genesis ProofNone, where 'a = unit and 'b = unit]
  show ?thesis
    using demo_messages_ok
    by (auto simp: make_genesis_block_def block_ok_def header_ok_def make_block_def demo_builder_def
        builder_message_def builder_new_def)
qed

theorem block_roundtrip_witness:
  "\<exists>b w. make_genesis_block demo_crypto demo_builder = (Ok b :: (block, unit) outcome) \<and>
     block_serialize b = (Ok w :: (bytes, unit) outcome) \<and>
     block_deserialize demo_ristretto demo_legacy (w @ [1, 2]) = Ok (b, [1, 2])"
  using demo_genesis_block block_roundtrip [where 'e = unit] by blast


end
