(* ===== verification/Utxo.thy ===== *)
theory Utxo
  imports Tx Btree
begin

text \<open>
  The ledger of unspent outputs, \<^verbatim>\<open>chain-impl-mockchain/src/utxo.rs\<close>: a trie from transaction identifiers to
  the ordered map of the outputs of that transaction that are not spent. Its specification is a finite map
  from pairs of a transaction and an index to outputs: adding a transaction extends it, spending deletes one
  pair, and the total value moves by what was added or spent.
\<close>

section \<open>Definitions\<close>

datatype utxo_error = AlreadyExists | TransactionNotFound | IndexNotFound

definition utxo_insert_error :: "insert_error \<Rightarrow> utxo_error" where
  "utxo_insert_error _ = AlreadyExists"

definition utxo_update_error :: "unit update_error \<Rightarrow> utxo_error" where
  "utxo_update_error _ = TransactionNotFound"

definition utxo_replace_error :: "replace_error \<Rightarrow> utxo_error" where
  "utxo_replace_error _ = TransactionNotFound"

definition utxo_remove_error :: "remove_error \<Rightarrow> utxo_error" where
  "utxo_remove_error _ = TransactionNotFound"

type_synonym transaction_index = u8

datatype 'a unspents = TransactionUnspents (unspent_outputs: "(transaction_index, 'a tx_output) btree")

definition from_outputs :: "(transaction_index \<times> 'a tx_output) list \<Rightarrow> ('a unspents, 'e) outcome" where
  "from_outputs outs = assert_then (length outs < 255) (Ok (TransactionUnspents (bt_from_list outs)))"

definition remove_input ::
  "'a unspents \<Rightarrow> transaction_index \<Rightarrow> ('a unspents \<times> 'a tx_output, utxo_error) outcome" where
  "remove_input u index =
     assert_then (index < 255)
       (case bt_get (unspent_outputs u) index of
          None \<Rightarrow> Err IndexNotFound
        | Some out \<Rightarrow> Ok (TransactionUnspents (bt_remove index (unspent_outputs u)), out))"

type_synonym 'a utxo_ledger = "(transaction_id, 'a unspents) hamt"

record 'a utxo_entry =
  entry_transaction_id :: transaction_id
  entry_output_index :: transaction_index
  entry_output :: "'a tx_output"

definition utxo_new :: "'a utxo_ledger" where
  "utxo_new = hamt_new"

definition utxo_get ::
  "(transaction_id \<Rightarrow> u64) \<Rightarrow> 'a utxo_ledger \<Rightarrow> transaction_id \<Rightarrow> transaction_index
   \<Rightarrow> ('a utxo_entry option, 'e) outcome" where
  "utxo_get hs l tid index =
     obind (hamt_lookup hs l tid) (\<lambda>r. Ok
       (case Option.bind r (\<lambda>unspent. bt_get (unspent_outputs unspent) index) of
          None \<Rightarrow> None
        | Some out \<Rightarrow>
            Some \<lparr> entry_transaction_id = tid, entry_output_index = index, entry_output = out \<rparr>))"

definition utxo_add ::
  "(transaction_id \<Rightarrow> u64) \<Rightarrow> 'a utxo_ledger \<Rightarrow> transaction_id \<Rightarrow> (transaction_index \<times> 'a tx_output) list
   \<Rightarrow> ('a utxo_ledger, utxo_error) outcome" where
  "utxo_add hs l tid outs =
     assert_then (length outs < 255)
       (obind (from_outputs outs) (\<lambda>b. map_err utxo_insert_error (hamt_insert hs l tid b)))"

definition store_unspents ::
  "(transaction_id \<Rightarrow> u64) \<Rightarrow> 'a utxo_ledger \<Rightarrow> transaction_id \<Rightarrow> 'a unspents
   \<Rightarrow> ('a utxo_ledger, utxo_error) outcome" where
  "store_unspents hs l tid treemap =
     (if unspent_outputs treemap = [] then map_err utxo_remove_error (hamt_remove hs l tid)
      else obind (map_err utxo_replace_error (hamt_replace hs l tid treemap)) (\<lambda>(l', _). Ok l'))"

definition utxo_remove ::
  "(transaction_id \<Rightarrow> u64) \<Rightarrow> 'a utxo_ledger \<Rightarrow> transaction_id \<Rightarrow> transaction_index
   \<Rightarrow> ('a utxo_ledger \<times> 'a tx_output, utxo_error) outcome" where
  "utxo_remove hs l tid index =
     obind (hamt_lookup hs l tid) (\<lambda>r.
       obind (case r of None \<Rightarrow> Err TransactionNotFound | Some out \<Rightarrow> remove_input out index)
         (\<lambda>(treemap, out). obind (store_unspents hs l tid treemap) (\<lambda>l'. Ok (l', out))))"

text \<open>The loop of \<^verbatim>\<open>remove_multiple\<close> over the indices, and the whole function.\<close>

fun remove_inputs ::
  "'a unspents \<Rightarrow> transaction_index list \<Rightarrow> 'a tx_output list
   \<Rightarrow> ('a unspents \<times> 'a tx_output list, utxo_error) outcome" where
  "remove_inputs treemap [] outputs = Ok (treemap, outputs)"
| "remove_inputs treemap (index # indices) outputs =
     obind (remove_input treemap index) (\<lambda>(t, out). remove_inputs t indices (outputs @ [out]))"

definition utxo_remove_multiple ::
  "(transaction_id \<Rightarrow> u64) \<Rightarrow> 'a utxo_ledger \<Rightarrow> transaction_id \<Rightarrow> transaction_index list
   \<Rightarrow> ('a utxo_ledger \<times> 'a tx_output list, utxo_error) outcome" where
  "utxo_remove_multiple hs l tid indices =
     obind (hamt_lookup hs l tid) (\<lambda>r.
       obind (case r of None \<Rightarrow> Err TransactionNotFound | Some out \<Rightarrow> remove_inputs out indices [])
         (\<lambda>(treemap, outputs). obind (store_unspents hs l tid treemap) (\<lambda>l'. Ok (l', outputs))))"

subsection \<open>Iteration\<close>

record 'a utxo_iter =
  hamt_iter :: "(transaction_id, 'a unspents) hamt_iter"
  unspents_iter :: "(transaction_id \<times> (transaction_index, 'a tx_output) btree) option"

record 'a utxo_values =
  values_hamt_iter :: "(transaction_id, 'a unspents) hamt_iter"
  values_unspents_iter :: "(transaction_index, 'a tx_output) btree option"

definition utxo_iter :: "'a utxo_ledger \<Rightarrow> 'a utxo_iter" where
  "utxo_iter l = \<lparr> hamt_iter = Hamt.hamt_iter l, unspents_iter = None \<rparr>"

definition utxo_values :: "'a utxo_ledger \<Rightarrow> 'a utxo_values" where
  "utxo_values l = \<lparr> values_hamt_iter = Hamt.hamt_iter l, values_unspents_iter = None \<rparr>"

interpretation hamt_iterator: iterator hamt_iter_next iter_left
  by unfold_locales (rule hamt_iter_next_left)

text \<open>Each call of the inner iterator or of the ordered map makes progress, so the recursion ends.\<close>

definition utxo_iter_weight :: "'a utxo_iter \<Rightarrow> nat" where
  "utxo_iter_weight it =
     2 * length (iter_left (hamt_iter it)) + (case unspents_iter it of None \<Rightarrow> 0 | Some _ \<Rightarrow> 1)"

definition utxo_values_weight :: "'a utxo_values \<Rightarrow> nat" where
  "utxo_values_weight it =
     2 * length (iter_left (values_hamt_iter it)) +
     (case values_unspents_iter it of None \<Rightarrow> 0 | Some _ \<Rightarrow> 1)"

lemmas hamt_iter_shorter = hamt_iterator.nxt_shorter

function utxo_iter_next :: "'a utxo_iter \<Rightarrow> 'a utxo_entry option \<times> 'a utxo_iter" where
  "utxo_iter_next it =
     (case unspents_iter it of
        None \<Rightarrow>
          (case hamt_iter_next (hamt_iter it) of
             (None, hit) \<Rightarrow> (None, it\<lparr>hamt_iter := hit\<rparr>)
           | (Some (tid, unspent), hit) \<Rightarrow>
               utxo_iter_next (it\<lparr>hamt_iter := hit, unspents_iter := Some (tid, unspent_outputs unspent)\<rparr>))
      | Some (tid, outs) \<Rightarrow>
          (case outs of
             [] \<Rightarrow> utxo_iter_next (it\<lparr>unspents_iter := None\<rparr>)
           | (index, out) # outs' \<Rightarrow>
               (Some \<lparr> entry_transaction_id = tid, entry_output_index = index, entry_output = out \<rparr>,
                it\<lparr>unspents_iter := Some (tid, outs')\<rparr>)))"
  by pat_completeness auto
termination utxo_iter_next
  by (relation "measure utxo_iter_weight") (auto simp: utxo_iter_weight_def dest!: hamt_iter_shorter)

function utxo_values_next :: "'a utxo_values \<Rightarrow> 'a tx_output option \<times> 'a utxo_values" where
  "utxo_values_next it =
     (case values_unspents_iter it of
        None \<Rightarrow>
          (case hamt_iter_next (values_hamt_iter it) of
             (None, hit) \<Rightarrow> (None, it\<lparr>values_hamt_iter := hit\<rparr>)
           | (Some (_, unspent), hit) \<Rightarrow>
               utxo_values_next
                 (it\<lparr>values_hamt_iter := hit, values_unspents_iter := Some (unspent_outputs unspent)\<rparr>))
      | Some outs \<Rightarrow>
          (case outs of
             [] \<Rightarrow> utxo_values_next (it\<lparr>values_unspents_iter := None\<rparr>)
           | (_, out) # outs' \<Rightarrow> (Some out, it\<lparr>values_unspents_iter := Some outs'\<rparr>)))"
  by pat_completeness auto
termination utxo_values_next
  by (relation "measure utxo_values_weight") (auto simp: utxo_values_weight_def dest!: hamt_iter_shorter)

declare utxo_iter_next.simps [simp del] utxo_values_next.simps [simp del]

text \<open>What the two iterators have left to yield.\<close>

definition utxo_rows :: "transaction_id \<times> 'a unspents \<Rightarrow> 'a utxo_entry list" where
  "utxo_rows = (\<lambda>(tid, u). map (\<lambda>(index, out).
     \<lparr> entry_transaction_id = tid, entry_output_index = index, entry_output = out \<rparr>) (unspent_outputs u))"

definition utxo_iter_left :: "'a utxo_iter \<Rightarrow> 'a utxo_entry list" where
  "utxo_iter_left it =
     (case unspents_iter it of None \<Rightarrow> [] | Some (tid, outs) \<Rightarrow> utxo_rows (tid, TransactionUnspents outs)) @
     concat (map utxo_rows (iter_left (hamt_iter it)))"

definition utxo_values_left :: "'a utxo_values \<Rightarrow> 'a tx_output list" where
  "utxo_values_left it =
     (case values_unspents_iter it of None \<Rightarrow> [] | Some outs \<Rightarrow> map snd outs) @
     concat (map (\<lambda>p. map entry_output (utxo_rows p)) (iter_left (values_hamt_iter it)))"

lemma utxo_rows_simps [simp]:
  "utxo_rows (tid, TransactionUnspents []) = []"
  "utxo_rows (tid, TransactionUnspents ((index, out) # outs)) =
     \<lparr> entry_transaction_id = tid, entry_output_index = index, entry_output = out \<rparr> #
     utxo_rows (tid, TransactionUnspents outs)"
  "map entry_output (utxo_rows (tid, u)) = map snd (unspent_outputs u)"
  by (simp_all add: utxo_rows_def case_prod_unfold)

lemma hamt_iter_next_cases:
  obtains (Done) hit where "hamt_iter_next it = (None, hit)" "iter_left it = []"
  | (More) tid u hit where "hamt_iter_next it = (Some (tid, u), hit)" "iter_left it = (tid, u) # iter_left hit"
proof (cases rule: hamt_iterator.nxt_cases [of it])
  case (Done s')
  then show ?thesis by (rule that(1))
next
  case (More x s')
  then show ?thesis by (cases x) (simp add: that(2))
qed

lemma utxo_iter_next_left:
  "case utxo_iter_left it of
     [] \<Rightarrow> fst (utxo_iter_next it) = None
   | e # es \<Rightarrow> fst (utxo_iter_next it) = Some e \<and> utxo_iter_left (snd (utxo_iter_next it)) = es"
proof (induction it rule: measure_induct_rule [of utxo_iter_weight])
  case (less it)
  have step: ?case if "utxo_iter_next it = utxo_iter_next it'" "utxo_iter_left it = utxo_iter_left it'"
      "utxo_iter_weight it' < utxo_iter_weight it" for it'
    using less [OF that(3)] unfolding that(1,2) .
  note nx = utxo_iter_next.simps [of it]
  show ?case
  proof (cases "unspents_iter it")
    case None
    show ?thesis
    proof (cases rule: hamt_iter_next_cases [of "hamt_iter it"])
      case (Done hit)
      with None nx show ?thesis by (simp add: utxo_iter_left_def)
    next
      case (More tid u hit)
      with None nx show ?thesis
        by (intro step [of "it\<lparr>hamt_iter := hit, unspents_iter := Some (tid, unspent_outputs u)\<rparr>"])
          (simp_all add: utxo_iter_left_def utxo_iter_weight_def)
    qed
  next
    case (Some p)
    obtain tid outs where p: "p = (tid, outs)" by force
    show ?thesis
    proof (cases outs)
      case Nil
      with Some p nx show ?thesis
        by (intro step [of "it\<lparr>unspents_iter := None\<rparr>"]) (simp_all add: utxo_iter_left_def utxo_iter_weight_def)
    next
      case (Cons e outs')
      with Some p nx show ?thesis by (cases e) (simp add: utxo_iter_left_def)
    qed
  qed
qed

lemma utxo_values_next_left:
  "case utxo_values_left it of
     [] \<Rightarrow> fst (utxo_values_next it) = None
   | e # es \<Rightarrow> fst (utxo_values_next it) = Some e \<and> utxo_values_left (snd (utxo_values_next it)) = es"
proof (induction it rule: measure_induct_rule [of utxo_values_weight])
  case (less it)
  have step: ?case if "utxo_values_next it = utxo_values_next it'"
      "utxo_values_left it = utxo_values_left it'" "utxo_values_weight it' < utxo_values_weight it" for it'
    using less [OF that(3)] unfolding that(1,2) .
  note nx = utxo_values_next.simps [of it]
  show ?case
  proof (cases "values_unspents_iter it")
    case None
    show ?thesis
    proof (cases rule: hamt_iter_next_cases [of "values_hamt_iter it"])
      case (Done hit)
      with None nx show ?thesis by (simp add: utxo_values_left_def)
    next
      case (More tid u hit)
      with None nx show ?thesis
        by (intro step [of "it\<lparr>values_hamt_iter := hit, values_unspents_iter := Some (unspent_outputs u)\<rparr>"])
          (simp_all add: utxo_values_left_def utxo_values_weight_def)
    qed
  next
    case (Some outs)
    show ?thesis
    proof (cases outs)
      case Nil
      with Some nx show ?thesis
        by (intro step [of "it\<lparr>values_unspents_iter := None\<rparr>"])
          (simp_all add: utxo_values_left_def utxo_values_weight_def)
    next
      case (Cons e outs')
      with Some nx show ?thesis by (cases e) (simp add: utxo_values_left_def)
    qed
  qed
qed

text \<open>The whole iterations, as a \<^verbatim>\<open>for\<close> loop or \<^verbatim>\<open>collect\<close> sees them.\<close>

interpretation utxo_iterator: iterator utxo_iter_next utxo_iter_left
  by unfold_locales (rule utxo_iter_next_left)

interpretation utxo_values_iterator: iterator utxo_values_next utxo_values_left
  by unfold_locales (rule utxo_values_next_left)

function utxo_iter_collect :: "'a utxo_iter \<Rightarrow> 'a utxo_entry list" where
  "utxo_iter_collect it =
     (case utxo_iter_next it of (None, _) \<Rightarrow> [] | (Some e, it') \<Rightarrow> e # utxo_iter_collect it')"
  by pat_completeness auto
termination utxo_iter_collect
  by (relation "measure (\<lambda>it. length (utxo_iter_left it))") (auto dest: utxo_iterator.nxt_shorter)

function utxo_values_collect :: "'a utxo_values \<Rightarrow> 'a tx_output list" where
  "utxo_values_collect it =
     (case utxo_values_next it of (None, _) \<Rightarrow> [] | (Some out, it') \<Rightarrow> out # utxo_values_collect it')"
  by pat_completeness auto
termination utxo_values_collect
  by (relation "measure (\<lambda>it. length (utxo_values_left it))") (auto dest: utxo_values_iterator.nxt_shorter)

declare utxo_iter_collect.simps [simp del] utxo_values_collect.simps [simp del]

lemma utxo_iter_collect_left: "utxo_iter_collect it = utxo_iter_left it"
  by (rule utxo_iterator.collect_left) (subst utxo_iter_collect.simps, simp)

lemma utxo_values_collect_left: "utxo_values_collect it = utxo_values_left it"
  by (rule utxo_values_iterator.collect_left) (subst utxo_values_collect.simps, simp)

section \<open>The finite map of unspent outputs\<close>

definition utxo_inv :: "(transaction_id \<Rightarrow> u64) \<Rightarrow> 'a utxo_ledger \<Rightarrow> bool" where
  "utxo_inv hs l \<longleftrightarrow>
     hamt_inv hs l \<and> (\<forall>(tid, u) \<in> set (hamt_entries l). bt_inv (unspent_outputs u))"

definition utxo_map :: "'a utxo_ledger \<Rightarrow> transaction_id \<times> transaction_index \<rightharpoonup> 'a tx_output" where
  "utxo_map l = (\<lambda>(tid, i). Option.bind (hamt_map l tid) (\<lambda>u. bt_get (unspent_outputs u) i))"

definition unspents_total :: "'a unspents \<Rightarrow> nat" where
  "unspents_total u = sum_list (map (\<lambda>(_, out). nval (out_value out)) (unspent_outputs u))"

definition utxo_total :: "'a utxo_ledger \<Rightarrow> nat" where
  "utxo_total l = sum_list (map (\<lambda>(_, u). unspents_total u) (hamt_entries l))"

lemma utxo_total_kv: "utxo_total l = kv_map.total hamt_entries (\<lambda>(_, u). unspents_total u) l"
  by (simp add: utxo_total_def hamt.total_def)

lemma utxo_new_simps [simp]: "utxo_inv hs utxo_new" "utxo_total utxo_new = 0" "utxo_map utxo_new = Map.empty"
  by (auto simp: utxo_inv_def utxo_new_def utxo_total_def utxo_map_def hamt_map_def)

lemma utxo_invD:
  "utxo_inv hs l \<Longrightarrow> hamt_inv hs l"
  "utxo_inv hs l \<Longrightarrow> hamt_map l tid = Some u \<Longrightarrow> bt_inv (unspent_outputs u)"
  by (auto simp: utxo_inv_def hamt_map_def dest: map_of_SomeD)

lemma utxo_invI:
  assumes "hamt_inv hs l" and "\<And>tid u. hamt_map l tid = Some u \<Longrightarrow> bt_inv (unspent_outputs u)"
  shows "utxo_inv hs l"
  using assms hamt_entries_distinct [OF assms(1)] by (force simp: utxo_inv_def hamt_map_def)

lemma hamt_remove_present:
  assumes "hamt_inv hs t" and "hamt_map t k = Some old"
  obtains t' where "hamt_remove hs t k = Ok t'" "hamt_inv hs t'" "hamt_map t' = (hamt_map t)(k := None)"
    "\<And>w. kv_map.total hamt_entries w t' + w (k, old) = kv_map.total hamt_entries w t"
proof -
  note key = assms(2) [unfolded hamt_map_def]
  from hamt.update_delete [OF assms(1) key, of "delete_if (\<lambda>_. True)"]
  obtain t' where t': "hamt_update hs t k (delete_if (\<lambda>_. True)) = Ok t'" "hamt_inv hs t'"
      "mset (hamt_entries t') = without k (mset (hamt_entries t))"
    by (auto simp: delete_if_def)
  show ?thesis
  proof (rule that [of t'])
    show "hamt_remove hs t k = Ok t'" using t'(1) by (simp add: hamt_remove_as_update [OF assms(1)])
    show "hamt_map t' = (hamt_map t)(k := None)"
      using hamt.map_of_without [OF assms(1) t'(2,3)] by (simp add: hamt_map_def)
    show "kv_map.total hamt_entries w t' + w (k, old) = kv_map.total hamt_entries w t" for w
      using hamt.total_without [OF assms(1) key, of w] t'(3) by (simp add: hamt.total_mset)
  qed (rule t'(2))
qed

lemma hamt_replace_present:
  assumes "hamt_inv hs t" and "hamt_map t k = Some old"
  obtains t' where "hamt_replace hs t k x = Ok (t', old)" "hamt_inv hs t'"
    "hamt_map t' = (hamt_map t)(k \<mapsto> x)"
    "\<And>w. kv_map.total hamt_entries w t' + w (k, old) = kv_map.total hamt_entries w t + w (k, x)"
proof -
  note key = assms(2) [unfolded hamt_map_def]
  from hamt.replace_present [OF assms(1) key, of x]
  obtain t' where t': "hamt_replace hs t k x = Ok (t', old)" by blast
  note ok = hamt.replace_Ok [OF assms(1) t']
  show ?thesis
    using hamt.map_of_mset [OF assms(1) ok(1,3)] ok(1,4) t' by (intro that [of t']) (simp_all add: hamt_map_def)
qed

text \<open>Storing the remaining outputs of a transaction: the entry is rewritten, or deleted when none is left.\<close>

lemma store_unspents_correct:
  assumes "utxo_inv hs l" and "hamt_map l tid = Some u" and "bt_inv (unspent_outputs u')"
  obtains l' where "store_unspents hs l tid u' = Ok l'" "utxo_inv hs l'"
    "utxo_map l' = (\<lambda>(t, i). if t = tid then bt_get (unspent_outputs u') i else utxo_map l (t, i))"
    "utxo_total l' + unspents_total u = utxo_total l + unspents_total u'"
    "hamt_map l' = (hamt_map l)(tid := if unspent_outputs u' = [] then None else Some u')"
proof (cases "unspent_outputs u' = []")
  case True
  obtain l' where l': "hamt_remove hs l tid = Ok l'" "hamt_inv hs l'" "hamt_map l' = (hamt_map l)(tid := None)"
      "\<And>w. kv_map.total hamt_entries w l' + w (tid, u) = kv_map.total hamt_entries w l"
    by (rule hamt_remove_present [OF utxo_invD(1) [OF assms(1)] assms(2)]) blast
  show ?thesis
  proof (rule that [of l'])
    show "utxo_inv hs l'"
      using l'(2,3) utxo_invD(2) [OF assms(1)] by (auto intro!: utxo_invI split: if_splits)
    show "utxo_total l' + unspents_total u = utxo_total l + unspents_total u'"
      using l'(4) [of "\<lambda>(_, u). unspents_total u"] True by (simp add: utxo_total_kv unspents_total_def)
  qed (use True l' in \<open>auto simp: store_unspents_def utxo_map_def fun_eq_iff\<close>)
next
  case False
  obtain l' where l': "hamt_replace hs l tid u' = Ok (l', u)" "hamt_inv hs l'"
      "hamt_map l' = (hamt_map l)(tid \<mapsto> u')"
      "\<And>w. kv_map.total hamt_entries w l' + w (tid, u) = kv_map.total hamt_entries w l + w (tid, u')"
    by (rule hamt_replace_present [OF utxo_invD(1) [OF assms(1)] assms(2)]) blast
  show ?thesis
  proof (rule that [of l'])
    show "utxo_inv hs l'"
      using l'(2,3) utxo_invD(2) [OF assms(1)] assms(3) by (auto intro!: utxo_invI split: if_splits)
    show "utxo_total l' + unspents_total u = utxo_total l + unspents_total u'"
      using l'(4) [of "\<lambda>(_, u). unspents_total u"] by (simp add: utxo_total_kv)
  qed (use False l' in \<open>auto simp: store_unspents_def utxo_map_def fun_eq_iff\<close>)
qed

section \<open>Spending and adding\<close>

lemma u8_less_255: "(i :: u8) < 255 \<longleftrightarrow> i \<noteq> 255"
  using unat_bound [of i] by (auto simp: word_less_nat_alt word_unat_eq_iff)

lemma remove_input_eq:
  "remove_input u i =
     (if i = 255 then Panic
      else case bt_get (unspent_outputs u) i of
             None \<Rightarrow> Err IndexNotFound
           | Some out \<Rightarrow> Ok (TransactionUnspents (bt_remove i (unspent_outputs u)), out))"
  by (simp add: remove_input_def u8_less_255)

lemma utxo_remove_eq:
  assumes "utxo_inv hs l"
  shows "utxo_remove hs l tid i =
    (case hamt_map l tid of
       None \<Rightarrow> Err TransactionNotFound
     | Some u \<Rightarrow>
         obind (remove_input u i) (\<lambda>(u', out). obind (store_unspents hs l tid u') (\<lambda>l'. Ok (l', out))))"
  using utxo_invD(1) [OF assms]
  by (simp add: utxo_remove_def hamt_lookup_eq hamt_map_def split: option.split)

lemma unspents_total_remove:
  assumes "bt_inv (unspent_outputs u)" and "bt_get (unspent_outputs u) i = Some out"
  shows "unspents_total (TransactionUnspents (bt_remove i (unspent_outputs u))) + nval (out_value out) =
    unspents_total u"
  using bt_sum_remove [OF assms, of "\<lambda>(_, out). nval (out_value out)"] by (simp add: unspents_total_def)

lemma utxo_remove_present:
  assumes "utxo_inv hs l" and "hamt_map l tid = Some u" and "bt_get (unspent_outputs u) i = Some out"
    and "i \<noteq> 255"
  obtains l' where "utxo_remove hs l tid i = Ok (l', out)" "utxo_inv hs l'"
    "utxo_map l' = (utxo_map l)((tid, i) := None)" "utxo_total l' + nval (out_value out) = utxo_total l"
    "hamt_map l' = (hamt_map l)(tid :=
       let u' = TransactionUnspents (bt_remove i (unspent_outputs u))
       in if unspent_outputs u' = [] then None else Some u')"
proof -
  let ?u = "TransactionUnspents (bt_remove i (unspent_outputs u))"
  have inv: "bt_inv (unspent_outputs u)" by (rule utxo_invD(2) [OF assms(1,2)])
  obtain l' where l': "store_unspents hs l tid ?u = Ok l'" "utxo_inv hs l'"
      "utxo_map l' = (\<lambda>(t, j). if t = tid then bt_get (unspent_outputs ?u) j else utxo_map l (t, j))"
      "utxo_total l' + unspents_total u = utxo_total l + unspents_total ?u"
      "hamt_map l' = (hamt_map l)(tid := if unspent_outputs ?u = [] then None else Some ?u)"
    by (rule store_unspents_correct [OF assms(1,2), of ?u]) (use inv in simp_all)
  show ?thesis
  proof (rule that [of l'])
    show "utxo_remove hs l tid i = Ok (l', out)"
      using assms l'(1) by (simp add: utxo_remove_eq remove_input_eq)
    show "utxo_map l' = (utxo_map l)((tid, i) := None)"
      using l'(3) assms(2) by (auto simp: bt_get_remove utxo_map_def fun_eq_iff)
    show "utxo_total l' + nval (out_value out) = utxo_total l"
      using l'(4) unspents_total_remove [OF inv assms(3)] by simp
  qed (use l' in \<open>simp_all add: Let_def\<close>)
qed

lemma utxo_remove_Ok:
  assumes "utxo_inv hs l" and "utxo_remove hs l tid i = Ok (l', out)"
  shows "utxo_inv hs l'" and "utxo_map l (tid, i) = Some out"
    and "utxo_map l' = (utxo_map l)((tid, i) := None)"
    and "utxo_total l' + nval (out_value out) = utxo_total l"
proof -
  obtain u where u: "hamt_map l tid = Some u" "bt_get (unspent_outputs u) i = Some out" "i \<noteq> 255"
    using assms by (auto simp: utxo_remove_eq remove_input_eq split: option.splits if_splits)
  obtain l2 where "utxo_remove hs l tid i = Ok (l2, out)" "utxo_inv hs l2"
    "utxo_map l2 = (utxo_map l)((tid, i) := None)" "utxo_total l2 + nval (out_value out) = utxo_total l"
    by (rule utxo_remove_present [OF assms(1) u])
  moreover from this have "l2 = l'" using assms(2) by simp
  ultimately show "utxo_inv hs l'" "utxo_map l (tid, i) = Some out"
      "utxo_map l' = (utxo_map l)((tid, i) := None)"
      "utxo_total l' + nval (out_value out) = utxo_total l"
    using u by (simp_all add: utxo_map_def)
qed

lemma utxo_add_Ok:
  assumes "utxo_inv hs l" and "utxo_add hs l tid outs = Ok l'"
  shows "utxo_inv hs l'" and "length outs < 255" and "hamt_map l tid = None"
    and "utxo_map l' = utxo_map l ++ (\<lambda>(t, i). if t = tid then map_of (rev outs) i else None)"
    and "distinct (map fst outs) \<Longrightarrow>
      utxo_total l' = utxo_total l + (\<Sum>(_, out) \<leftarrow> outs. nval (out_value out))"
proof -
  let ?u = "TransactionUnspents (bt_from_list outs)"
  have i: "hamt_insert hs l tid ?u = Ok l'" and len: "length outs < 255"
    using assms(2) by (simp_all add: utxo_add_def from_outputs_def)
  note inv = utxo_invD(1) [OF assms(1)]
  note ok = hamt.insert_Ok [OF inv i]
  have m: "hamt_map l' = (hamt_map l)(tid \<mapsto> ?u)"
    using hamt.map_of_insert [OF inv i] by (simp add: hamt_map_def)
  show "length outs < 255" by (fact len)
  show none: "hamt_map l tid = None" using ok(2) by (simp add: hamt_map_def map_of_None_keys)
  show "utxo_inv hs l'"
    using ok(1) m utxo_invD(2) [OF assms(1)] by (auto intro!: utxo_invI split: if_splits)
  show "utxo_map l' = utxo_map l ++ (\<lambda>(t, i). if t = tid then map_of (rev outs) i else None)"
    using m none by (auto simp: utxo_map_def fun_eq_iff map_add_def bt_from_list_get split: option.split)
  show "utxo_total l' = utxo_total l + (\<Sum>(_, out) \<leftarrow> outs. nval (out_value out))"
    if "distinct (map fst outs)"
    using ok(4) [of "\<lambda>(_, u). unspents_total u"] bt_from_list_sum [OF that]
    by (simp add: utxo_total_kv unspents_total_def)
qed

subsection \<open>Several outputs at once\<close>

text \<open>Spending the outputs of a transaction one after the other.\<close>

fun remove_each ::
  "(transaction_id \<Rightarrow> u64) \<Rightarrow> 'a utxo_ledger \<Rightarrow> transaction_id \<Rightarrow> transaction_index list \<Rightarrow> 'a tx_output list
   \<Rightarrow> ('a utxo_ledger \<times> 'a tx_output list, utxo_error) outcome" where
  "remove_each hs l tid [] outs = Ok (l, outs)"
| "remove_each hs l tid (i # is) outs =
     obind (utxo_remove hs l tid i) (\<lambda>(l', out). remove_each hs l' tid is (outs @ [out]))"

lemma remove_inputs_each:
  assumes "utxo_inv hs l" and "hamt_map l tid = Some u" and "is \<noteq> []"
    and "remove_inputs u is acc = Ok (u', outs)"
  shows "\<exists>l'. remove_each hs l tid is acc = Ok (l', outs) \<and> utxo_inv hs l' \<and>
    hamt_map l' = (hamt_map l)(tid := if unspent_outputs u' = [] then None else Some u')"
  using assms
proof (induction "is" arbitrary: l u acc)
  case (Cons i "is")
  let ?u = "TransactionUnspents (bt_remove i (unspent_outputs u))"
  obtain out where out: "bt_get (unspent_outputs u) i = Some out" "i \<noteq> 255"
      and rest: "remove_inputs ?u is (acc @ [out]) = Ok (u', outs)"
    using Cons.prems(4) by (auto simp: remove_input_eq split: if_splits option.splits)
  obtain l1 where l1: "utxo_remove hs l tid i = Ok (l1, out)" "utxo_inv hs l1"
      "hamt_map l1 = (hamt_map l)(tid := let u' = ?u in if unspent_outputs u' = [] then None else Some u')"
    by (rule utxo_remove_present [OF Cons.prems(1,2) out])
  show ?case
  proof (cases "is")
    case Nil
    with l1 rest show ?thesis by (auto simp: Let_def)
  next
    case (Cons j js)
    with rest have "bt_get (unspent_outputs ?u) j \<noteq> None"
      by (auto simp: remove_input_eq split: if_splits option.splits)
    then have "unspent_outputs ?u \<noteq> []" by (auto simp del: unspents.sel)
    with l1(3) have "hamt_map l1 tid = Some ?u" by (simp add: Let_def)
    with Cons.IH [OF l1(2) this _ rest] Cons obtain l' where
      l': "remove_each hs l1 tid is (acc @ [out]) = Ok (l', outs)" "utxo_inv hs l'"
        "hamt_map l' = (hamt_map l1)(tid := if unspent_outputs u' = [] then None else Some u')" by blast
    have "hamt_map l' = (hamt_map l)(tid := if unspent_outputs u' = [] then None else Some u')"
      unfolding l'(3) l1(3) by (rule fun_upd_upd)
    moreover have "remove_each hs l tid (i # is) acc = Ok (l', outs)" using l1(1) l'(1) by simp
    ultimately show ?thesis using l'(2) by blast
  qed
qed simp

lemma remove_each_inputs:
  assumes "utxo_inv hs l" and "hamt_map l tid = Some u" and "remove_each hs l tid is acc = Ok (l', outs)"
  shows "\<exists>u'. remove_inputs u is acc = Ok (u', outs)"
  using assms
proof (induction "is" arbitrary: l u acc)
  case (Cons i "is")
  let ?u = "TransactionUnspents (bt_remove i (unspent_outputs u))"
  obtain out l1 where l1: "utxo_remove hs l tid i = Ok (l1, out)"
      and rest: "remove_each hs l1 tid is (acc @ [out]) = Ok (l', outs)"
    using Cons.prems(3) by auto
  have out: "bt_get (unspent_outputs u) i = Some out" "i \<noteq> 255"
    using l1 Cons.prems(1,2) by (auto simp: utxo_remove_eq remove_input_eq split: if_splits option.splits)
  obtain l2 where "utxo_remove hs l tid i = Ok (l2, out)" "utxo_inv hs l2"
      "hamt_map l2 = (hamt_map l)(tid := let u' = ?u in if unspent_outputs u' = [] then None else Some u')"
    by (rule utxo_remove_present [OF Cons.prems(1,2) out])
  with l1 have l1': "utxo_inv hs l1"
      "hamt_map l1 tid = (if unspent_outputs ?u = [] then None else Some ?u)"
    by (simp_all add: Let_def)
  have step: "remove_inputs u (i # is) acc = remove_inputs ?u is (acc @ [out])"
    using out by (simp add: remove_input_eq)
  show ?case
  proof (cases "hamt_map l1 tid")
    case None
    have "is = []"
    proof (cases "is")
      case (Cons j js)
      with rest l1'(1) None show ?thesis by (simp add: utxo_remove_eq)
    qed
    then show ?thesis using rest unfolding step by simp
  next
    case (Some u1)
    then have "u1 = ?u" using l1'(2) by (simp split: if_splits)
    then show ?thesis using Cons.IH [OF l1'(1) Some rest] unfolding step by simp
  qed
qed simp

section \<open>Properties\<close>

lemma utxo_get_eq:
  "utxo_inv hs l \<Longrightarrow> utxo_get hs l tid i =
     Ok (map_option (\<lambda>out. \<lparr> entry_transaction_id = tid, entry_output_index = i, entry_output = out \<rparr>)
       (utxo_map l (tid, i)))"
  using utxo_invD(1) [of hs l]
  by (simp add: utxo_get_def hamt_lookup_eq utxo_map_def hamt_map_def map_option_case)

text \<open>
  C18: spending an output. It fails when the transaction has no unspent output, when the output does not exist
  or is spent already, and panics for the index 255. Otherwise it returns the output, the pair is gone and
  nothing else changes, the total goes down by the value of the output, and spending it again fails.
\<close>

theorem utxo_remove_correct:
  assumes "utxo_inv hs l"
  shows "case hamt_map l tid of
      None \<Rightarrow> utxo_remove hs l tid i = Err TransactionNotFound
    | Some _ \<Rightarrow>
        if i = 255 then utxo_remove hs l tid i = Panic
        else case utxo_map l (tid, i) of
          None \<Rightarrow> utxo_remove hs l tid i = Err IndexNotFound
        | Some out \<Rightarrow>
            \<exists>l'. utxo_remove hs l tid i = Ok (l', out) \<and> utxo_inv hs l' \<and>
              utxo_map l' = (utxo_map l)((tid, i) := None) \<and>
              utxo_total l' + nval (out_value out) = utxo_total l \<and>
              utxo_remove hs l' tid i \<in> {Err TransactionNotFound, Err IndexNotFound}"
proof (cases "hamt_map l tid")
  case None
  with assms show ?thesis by (simp add: utxo_remove_eq)
next
  case (Some u)
  then have m: "utxo_map l (tid, i) = bt_get (unspent_outputs u) i" by (simp add: utxo_map_def)
  show ?thesis
  proof (cases "i = 255 \<or> utxo_map l (tid, i) = None")
    case True
    with Some m assms show ?thesis by (auto simp: utxo_remove_eq remove_input_eq)
  next
    case False
    then obtain out where out: "bt_get (unspent_outputs u) i = Some out" "i \<noteq> 255" using m by auto
    obtain l' where l': "utxo_remove hs l tid i = Ok (l', out)" "utxo_inv hs l'"
      "utxo_map l' = (utxo_map l)((tid, i) := None)" "utxo_total l' + nval (out_value out) = utxo_total l"
      by (rule utxo_remove_present [OF assms Some out])
    then have "utxo_map l' (tid, i) = None" by simp
    then have "utxo_remove hs l' tid i \<in> {Err TransactionNotFound, Err IndexNotFound}"
      using l'(2) out(2) by (auto simp: utxo_remove_eq remove_input_eq utxo_map_def split: option.splits)
    with Some out m l' show ?thesis by simp
  qed
qed

definition demo_tid_hash :: "transaction_id \<Rightarrow> u64" where
  "demo_tid_hash h = ucast (hash_word h)"

definition demo_output :: "u64 \<Rightarrow> address tx_output" where
  "demo_output v = \<lparr> out_address = Address Test (Single 3), out_value = Value v \<rparr>"

definition demo_utxos :: "address utxo_ledger" where
  "demo_utxos =
     Hamt (Node 2 [Leaf (LeafContent 1
       (One (Hash 1, TransactionUnspents [(0, demo_output 5), (1, demo_output 7)])))])"

lemma demo_utxos_inv: "utxo_inv demo_tid_hash demo_utxos"
  by (simp add: utxo_inv_def demo_utxos_def hamt_entries_eq hamt_inv_def) code_simp

lemma demo_utxos_map: "hamt_map demo_utxos =
    [Hash 1 \<mapsto> TransactionUnspents [(0, demo_output 5), (1, demo_output 7)]]"
  by (simp add: hamt_map_def demo_utxos_def hamt_entries_eq)

theorem utxo_remove_correct_witness:
  "utxo_inv demo_tid_hash demo_utxos \<and>
   (\<exists>l'. utxo_remove demo_tid_hash demo_utxos (Hash 1) 1 = Ok (l', demo_output 7) \<and>
     utxo_total l' + 7 = utxo_total demo_utxos)"
  using utxo_remove_correct [OF demo_utxos_inv, of "Hash 1" 1] demo_utxos_inv
  by (auto simp: demo_utxos_map utxo_map_def bt_get_def demo_output_def)

text \<open>
  C19: adding the outputs of a transaction. It panics from 255 outputs on, fails when the transaction has
  unspent outputs already, and otherwise adds exactly these outputs, the last one of each index, and for
  different indices their values to the total.
\<close>

theorem utxo_add_correct:
  assumes "utxo_inv hs l"
  shows "if length outs \<ge> 255 then utxo_add hs l tid outs = Panic
    else if hamt_map l tid \<noteq> None then utxo_add hs l tid outs = Err AlreadyExists
    else \<exists>l'. utxo_add hs l tid outs = Ok l' \<and> utxo_inv hs l' \<and>
      utxo_map l' = utxo_map l ++ (\<lambda>(t, i). if t = tid then map_of (rev outs) i else None) \<and>
      (distinct (map fst outs) \<longrightarrow>
         utxo_total l' = utxo_total l + (\<Sum>(_, out) \<leftarrow> outs. nval (out_value out)))"
proof -
  note inv = utxo_invD(1) [OF assms]
  consider "length outs \<ge> 255" | "length outs < 255" "hamt_map l tid \<noteq> None"
    | "length outs < 255" "hamt_map l tid = None" by linarith
  then show ?thesis
  proof cases
    case 2
    then have "tid \<in> fst ` set (hamt_entries l)"
      using map_of_None_keys [of "hamt_entries l" tid] by (simp add: hamt_map_def)
    with 2 show ?thesis
      using hamt.insert_present [OF inv]
      by (auto simp: utxo_add_def from_outputs_def utxo_insert_error_def)
  next
    case 3
    then have "tid \<notin> fst ` set (hamt_entries l)" by (simp add: hamt_map_def map_of_None_keys)
    with 3 obtain l' where l': "utxo_add hs l tid outs = Ok l'"
      using hamt.insert_absent [OF inv, of tid "TransactionUnspents (bt_from_list outs)"]
      by (auto simp: utxo_add_def from_outputs_def)
    with 3 show ?thesis using utxo_add_Ok [OF assms l'] by simp
  qed (simp add: utxo_add_def)
qed

theorem utxo_add_correct_witness:
  "\<exists>l'. utxo_add demo_tid_hash demo_utxos (Hash 2) [(0, demo_output 4)] = Ok l' \<and>
     utxo_map l' (Hash 2, 0) = Some (demo_output 4) \<and> utxo_total l' = utxo_total demo_utxos + 4"
  using utxo_add_correct [OF demo_utxos_inv, of "[(0, demo_output 4)]" "Hash 2"]
  by (auto simp: demo_utxos_map demo_output_def)

lemma remove_inputs_inv:
  "bt_inv (unspent_outputs u) \<Longrightarrow> remove_inputs u is acc = Ok (u', outs) \<Longrightarrow> bt_inv (unspent_outputs u')"
proof (induction "is" arbitrary: u acc)
  case (Cons i "is")
  then obtain out where "remove_inputs (TransactionUnspents (bt_remove i (unspent_outputs u))) is (acc @ [out]) =
      Ok (u', outs)"
    by (auto simp: remove_input_eq split: if_splits option.splits)
  from Cons.IH [OF _ this] Cons.prems(1) show ?case by simp
qed simp



lemma utxo_rows_set:
  "e \<in> set (utxo_rows (tid, u)) \<longleftrightarrow>
     entry_transaction_id e = tid \<and> (entry_output_index e, entry_output e) \<in> set (unspent_outputs u)"
  by (cases e) (force simp: utxo_rows_def)

lemma utxo_rows_distinct:
  "distinct (map fst kvs) \<Longrightarrow> \<forall>(tid, u) \<in> set kvs. bt_inv (unspent_outputs u) \<Longrightarrow>
   distinct (concat (map utxo_rows kvs))"
proof (induction kvs)
  case (Cons p kvs)
  obtain tid u where p: "p = (tid, u)" by force
  have "distinct (map fst (unspent_outputs u))" using Cons.prems p by (simp add: bt_inv_distinct)
  then have "distinct (utxo_rows p)"
    using p by (auto simp: utxo_rows_def distinct_map inj_on_def)
  with Cons p show ?case by (force simp: utxo_rows_set)
qed simp

lemma utxo_iter_left_start:
  "utxo_iter_left (utxo_iter l) = concat (map utxo_rows (hamt_entries l))"
  "utxo_values_left (utxo_values l) = map entry_output (concat (map utxo_rows (hamt_entries l)))"
  by (simp_all add: utxo_iter_left_def utxo_iter_def utxo_values_left_def utxo_values_def hamt_entries_def
      iter_collect_left map_concat comp_def)

text \<open>
  C21: the iterators end, and yield every unspent output exactly once; the entry iterator pairs it with its
  transaction and index, and the getter agrees with it.
\<close>

theorem utxo_iter_correct:
  assumes "utxo_inv hs l"
  shows "distinct (utxo_iter_collect (utxo_iter l)) \<and>
    (e \<in> set (utxo_iter_collect (utxo_iter l)) \<longleftrightarrow>
       utxo_get hs l (entry_transaction_id e) (entry_output_index e) =
         (Ok (Some e) :: ('a utxo_entry option, 'e) outcome)) \<and>
    utxo_values_collect (utxo_values l) = map entry_output (utxo_iter_collect (utxo_iter l)) \<and>
    utxo_total l = nsum (map out_value (utxo_values_collect (utxo_values l)))"
proof (intro conjI)
  have inv: "distinct (map fst (hamt_entries l))"
      "\<forall>(tid, u) \<in> set (hamt_entries l). bt_inv (unspent_outputs u)"
    using assms hamt_entries_distinct by (auto simp: utxo_inv_def)
  show "distinct (utxo_iter_collect (utxo_iter l))"
    using utxo_rows_distinct [OF inv] by (simp add: utxo_iter_collect_left utxo_iter_left_start)
  have "e \<in> set (utxo_iter_collect (utxo_iter l)) \<longleftrightarrow>
      (\<exists>u. hamt_map l (entry_transaction_id e) = Some u \<and>
         (entry_output_index e, entry_output e) \<in> set (unspent_outputs u))"
    using inv(1) by (force simp: utxo_iter_collect_left utxo_iter_left_start utxo_rows_set hamt_map_def)
  also have "\<dots> \<longleftrightarrow> utxo_map l (entry_transaction_id e, entry_output_index e) = Some (entry_output e)"
    using utxo_invD(2) [OF assms]
    by (cases "hamt_map l (entry_transaction_id e)") (auto simp: utxo_map_def bt_get_Some_set)
  also have "\<dots> \<longleftrightarrow> utxo_get hs l (entry_transaction_id e) (entry_output_index e) =
         (Ok (Some e) :: ('a utxo_entry option, 'e) outcome)"
    by (cases e) (auto simp: utxo_get_eq [OF assms])
  finally show "e \<in> set (utxo_iter_collect (utxo_iter l)) \<longleftrightarrow>
      utxo_get hs l (entry_transaction_id e) (entry_output_index e) =
         (Ok (Some e) :: ('a utxo_entry option, 'e) outcome)" .
  show "utxo_values_collect (utxo_values l) = map entry_output (utxo_iter_collect (utxo_iter l))"
    by (simp add: utxo_iter_collect_left utxo_values_collect_left utxo_iter_left_start)
  have "nsum (map out_value (map entry_output (concat (map utxo_rows kvs)))) =
      sum_list (map (\<lambda>(_, u). unspents_total u) kvs)" for kvs :: "(transaction_id \<times> 'a unspents) list"
    by (induction kvs) (auto simp: unspents_total_def nsum_def comp_def case_prod_unfold simp flip: map_map,
      simp add: comp_def)
  then show "utxo_total l = nsum (map out_value (utxo_values_collect (utxo_values l)))"
    by (simp add: utxo_values_collect_left utxo_iter_left_start utxo_total_def)
qed

theorem utxo_iter_correct_witness:
  "\<lparr> entry_transaction_id = Hash 1, entry_output_index = 1, entry_output = demo_output 7 \<rparr> \<in>
     set (utxo_iter_collect (utxo_iter demo_utxos))"
  using utxo_iter_correct [OF demo_utxos_inv, where 'e = unit,
      of "\<lparr> entry_transaction_id = Hash 1, entry_output_index = 1, entry_output = demo_output 7 \<rparr>"]
  by (simp add: utxo_get_eq [OF demo_utxos_inv] utxo_map_def demo_utxos_map bt_get_def)

end
