(* ===== verification/Delegation.thy ===== *)
theory Delegation
  imports Certificate Utxo
begin

text \<open>
  Stake keys, stake pools and who delegates to which pool: \<^verbatim>\<open>stake/delegation.rs\<close> of
  \<^verbatim>\<open>chain-impl-mockchain/src\<close>. The two tables are tries over the hash functions in \<open>stake_hashers\<close>. The specification
  works on finite maps; a certificate applied to the tables has the outcome and the effect it has on the maps.
\<close>

section \<open>The state\<close>

record stake_hashers =
  key_hash :: "stake_key_id \<Rightarrow> u64"
  pool_id_hash :: "stake_pool_id \<Rightarrow> u64"

record delegation_state =
  stake_keys :: "(stake_key_id, stake_key_info) hamt"
  stake_pools :: "(stake_pool_id, stake_pool_info) hamt"

datatype delegation_error =
    StakeKeyAlreadyRegistered
  | StakeKeyRegistrationSigIsInvalid
  | StakeKeyDeregistrationSigIsInvalid
  | StakeKeyDeregistrationDoesNotExist
  | StakeDelegationSigIsInvalid
  | StakeDelegationStakeKeyIsInvalid stake_key_id
  | StakeDelegationPoolKeyIsInvalid stake_pool_id
  | StakePoolRegistrationPoolSigIsInvalid
  | StakePoolAlreadyExists stake_pool_id
  | StakePoolRetirementSigIsInvalid
  | StakePoolDoesNotExist stake_pool_id

definition delegation_new :: delegation_state where
  "delegation_new = \<lparr> stake_keys = hamt_new, stake_pools = hamt_new \<rparr>"

definition nr_stake_keys :: "delegation_state \<Rightarrow> nat" where
  "nr_stake_keys d = hamt_size (stake_keys d)"

definition stake_key_exists :: "stake_hashers \<Rightarrow> delegation_state \<Rightarrow> stake_key_id \<Rightarrow> (bool, 'e) outcome" where
  "stake_key_exists hs d k =
     obind (hamt_lookup (key_hash hs) (stake_keys d) k) (\<lambda>r. Ok (case r of None \<Rightarrow> False | Some _ \<Rightarrow> True))"

definition register_stake_key ::
  "stake_hashers \<Rightarrow> delegation_state \<Rightarrow> stake_key_id \<Rightarrow> (delegation_state, delegation_error) outcome" where
  "register_stake_key hs d k =
     obind (map_err (\<lambda>_. StakeKeyAlreadyRegistered)
         (hamt_insert (key_hash hs) (stake_keys d) k \<lparr> key_pool = None \<rparr>))
       (\<lambda>keys. Ok \<lparr> stake_keys = keys, stake_pools = stake_pools d \<rparr>)"

definition deregister_stake_key ::
  "stake_hashers \<Rightarrow> delegation_state \<Rightarrow> stake_key_id \<Rightarrow> (delegation_state, delegation_error) outcome" where
  "deregister_stake_key hs d k =
     obind (map_err (\<lambda>_. StakeKeyDeregistrationDoesNotExist) (hamt_remove (key_hash hs) (stake_keys d) k))
       (\<lambda>keys. Ok \<lparr> stake_keys = keys, stake_pools = stake_pools d \<rparr>)"

definition stake_pool_exists :: "stake_hashers \<Rightarrow> delegation_state \<Rightarrow> stake_pool_id \<Rightarrow> (bool, 'e) outcome" where
  "stake_pool_exists hs d p =
     obind (hamt_lookup (pool_id_hash hs) (stake_pools d) p) (\<lambda>r. Ok (case r of None \<Rightarrow> False | Some _ \<Rightarrow> True))"

definition register_stake_pool ::
  "crypto \<Rightarrow> stake_hashers \<Rightarrow> delegation_state \<Rightarrow> stake_pool_info \<Rightarrow> (delegation_state, delegation_error) outcome" where
  "register_stake_pool cr hs d owner =
     (let pid = stake_pool_to_id cr owner in
      obind (map_err (\<lambda>_. StakePoolAlreadyExists pid) (hamt_insert (pool_id_hash hs) (stake_pools d) pid owner))
        (\<lambda>pools. Ok \<lparr> stake_keys = stake_keys d, stake_pools = pools \<rparr>))"

definition deregister_stake_pool ::
  "stake_hashers \<Rightarrow> delegation_state \<Rightarrow> stake_pool_id \<Rightarrow> (delegation_state, delegation_error) outcome" where
  "deregister_stake_pool hs d p =
     obind (map_err (\<lambda>_. StakePoolDoesNotExist p) (hamt_remove (pool_id_hash hs) (stake_pools d) p))
       (\<lambda>pools. Ok \<lparr> stake_keys = stake_keys d, stake_pools = pools \<rparr>)"

definition delegate_stake ::
  "stake_hashers \<Rightarrow> delegation_state \<Rightarrow> stake_key_id \<Rightarrow> stake_pool_id
   \<Rightarrow> (delegation_state, delegation_error) outcome" where
  "delegate_stake hs d k p =
     obind (map_err (\<lambda>_ :: unit update_error. StakeDelegationStakeKeyIsInvalid k)
         (hamt_update (key_hash hs) (stake_keys d) k (\<lambda>ki. Ok (Some (ki\<lparr>key_pool := Some p\<rparr>)))))
       (\<lambda>keys. Ok \<lparr> stake_keys = keys, stake_pools = stake_pools d \<rparr>)"

definition delegation_apply ::
  "crypto \<Rightarrow> stake_hashers \<Rightarrow> delegation_state \<Rightarrow> certificate \<Rightarrow> (delegation_state, delegation_error) outcome" where
  "delegation_apply cr hs d c =
     (case cert_content c of
        CertStakeDelegation reg \<Rightarrow>
          obind (stake_pool_exists hs d (delegation_pool reg)) (\<lambda>ok.
            if \<not> ok then Err (StakeDelegationPoolKeyIsInvalid (delegation_pool reg))
            else delegate_stake hs d (delegation_key reg) (delegation_pool reg))
      | CertStakeKeyRegistration reg \<Rightarrow> register_stake_key hs d (registered_key reg)
      | CertStakeKeyDeregistration reg \<Rightarrow> deregister_stake_key hs d (deregistered_key reg)
      | CertStakePoolRegistration reg \<Rightarrow> register_stake_pool cr hs d reg
      | CertStakePoolRetirement reg \<Rightarrow> deregister_stake_pool hs d (retired_pool_id reg))"

section \<open>Tables as finite maps\<close>

definition delegation_inv :: "stake_hashers \<Rightarrow> delegation_state \<Rightarrow> bool" where
  "delegation_inv hs d \<longleftrightarrow> hamt_inv (key_hash hs) (stake_keys d) \<and> hamt_inv (pool_id_hash hs) (stake_pools d)"

lemma hamt_insert_map:
  assumes "hamt_inv hs t"
  shows "hamt_map t k \<noteq> None \<Longrightarrow> hamt_insert hs t k v = Err EntryExists"
    and "hamt_map t k = None \<Longrightarrow>
      \<exists>t'. hamt_insert hs t k v = Ok t' \<and> hamt_inv hs t' \<and> hamt_map t' = (hamt_map t)(k \<mapsto> v)"
proof -
  show "hamt_insert hs t k v = Err EntryExists" if "hamt_map t k \<noteq> None"
    using that hamt.insert_present [OF assms, of k v] map_of_None_keys [of "hamt_entries t" k]
    by (simp add: hamt_map_def)
  assume "hamt_map t k = None"
  then obtain t' where t': "hamt_insert hs t k v = Ok t'" "hamt_inv hs t'"
    using hamt.insert_absent [OF assms, of k v] by (auto simp: hamt_map_def map_of_None_keys)
  with hamt.map_of_insert [OF assms t'(1)]
  show "\<exists>t'. hamt_insert hs t k v = Ok t' \<and> hamt_inv hs t' \<and> hamt_map t' = (hamt_map t)(k \<mapsto> v)"
    by (simp add: hamt_map_def)
qed

lemma hamt_remove_map:
  assumes "hamt_inv hs t"
  shows "hamt_map t k = None \<Longrightarrow> hamt_remove hs t k = Err RemoveKeyNotFound"
    and "hamt_map t k \<noteq> None \<Longrightarrow>
      \<exists>t'. hamt_remove hs t k = Ok t' \<and> hamt_inv hs t' \<and> hamt_map t' = (hamt_map t)(k := None)"
proof -
  show "hamt_remove hs t k = Err RemoveKeyNotFound" if "hamt_map t k = None"
    using that hamt.update_absent [OF assms, of k "delete_if (\<lambda>_. True)"]
    by (simp add: hamt_map_def hamt_remove_as_update [OF assms])
  assume "hamt_map t k \<noteq> None"
  then obtain old where "hamt_map t k = Some old" by blast
  with assms show "\<exists>t'. hamt_remove hs t k = Ok t' \<and> hamt_inv hs t' \<and> hamt_map t' = (hamt_map t)(k := None)"
    by (rule hamt_remove_present) blast
qed

lemma hamt_update_map:
  assumes "hamt_inv hs t"
  shows "hamt_map t k = None \<Longrightarrow> hamt_update hs t k f = Err UpdateKeyNotFound"
    and "hamt_map t k = Some old \<Longrightarrow> f old = Ok (Some x) \<Longrightarrow>
      \<exists>t'. hamt_update hs t k f = Ok t' \<and> hamt_inv hs t' \<and> hamt_map t' = (hamt_map t)(k \<mapsto> x)"
proof -
  show "hamt_update hs t k f = Err UpdateKeyNotFound" if "hamt_map t k = None"
    using that hamt.update_absent [OF assms, of k f] by (simp add: hamt_map_def)
  assume old: "hamt_map t k = Some old" "f old = Ok (Some x)"
  then obtain t' where t': "hamt_update hs t k f = Ok t'"
    using hamt.update_keep [OF assms, of k old f x] by (auto simp: hamt_map_def)
  from assms t' have "hamt_inv hs t' \<and> hamt_map t' = (hamt_map t)(k \<mapsto> x)"
    using old hamt.map_of_mset [OF assms, of t']
    by (cases rule: hamt.update_Ok) (auto simp: hamt_map_def)
  with t' show "\<exists>t'. hamt_update hs t k f = Ok t' \<and> hamt_inv hs t' \<and> hamt_map t' = (hamt_map t)(k \<mapsto> x)" by blast
qed

section \<open>Certificates on finite maps\<close>

type_synonym delegation_maps =
  "(stake_key_id \<rightharpoonup> stake_key_info) \<times> (stake_pool_id \<rightharpoonup> stake_pool_info)"

definition delegation_abs :: "delegation_state \<Rightarrow> delegation_maps" where
  "delegation_abs d = (hamt_map (stake_keys d), hamt_map (stake_pools d))"

fun delegation_spec ::
  "crypto \<Rightarrow> certificate_content \<Rightarrow> delegation_maps \<Rightarrow> (delegation_maps, delegation_error) outcome" where
  "delegation_spec cr (CertStakeDelegation r) (K, P) =
     (if P (delegation_pool r) = None then Err (StakeDelegationPoolKeyIsInvalid (delegation_pool r))
      else case K (delegation_key r) of
        None \<Rightarrow> Err (StakeDelegationStakeKeyIsInvalid (delegation_key r))
      | Some ki \<Rightarrow> Ok (K(delegation_key r \<mapsto> ki\<lparr>key_pool := Some (delegation_pool r)\<rparr>), P))"
| "delegation_spec cr (CertStakeKeyRegistration r) (K, P) =
     (if K (registered_key r) \<noteq> None then Err StakeKeyAlreadyRegistered
      else Ok (K(registered_key r \<mapsto> \<lparr> key_pool = None \<rparr>), P))"
| "delegation_spec cr (CertStakeKeyDeregistration r) (K, P) =
     (if K (deregistered_key r) = None then Err StakeKeyDeregistrationDoesNotExist
      else Ok (K(deregistered_key r := None), P))"
| "delegation_spec cr (CertStakePoolRegistration info) (K, P) =
     (if P (stake_pool_to_id cr info) \<noteq> None then Err (StakePoolAlreadyExists (stake_pool_to_id cr info))
      else Ok (K, P(stake_pool_to_id cr info \<mapsto> info)))"
| "delegation_spec cr (CertStakePoolRetirement r) (K, P) =
     (if P (retired_pool_id r) = None then Err (StakePoolDoesNotExist (retired_pool_id r))
      else Ok (K, P(retired_pool_id r := None)))"

definition refines ::
  "('a \<Rightarrow> bool) \<Rightarrow> ('a \<Rightarrow> 'b) \<Rightarrow> ('a, 'e) outcome \<Rightarrow> ('b, 'e) outcome \<Rightarrow> bool" where
  "refines ok f r r' \<longleftrightarrow>
     (case r of Ok x \<Rightarrow> ok x \<and> r' = Ok (f x) | Err e \<Rightarrow> r' = Err e | Panic \<Rightarrow> False)"

lemma delegation_inv_new: "delegation_inv hs delegation_new" "delegation_abs delegation_new = (Map.empty, Map.empty)"
  by (simp_all add: delegation_inv_def delegation_new_def delegation_abs_def hamt_map_def)

lemma stake_pool_exists_eq:
  "delegation_inv hs d \<Longrightarrow> stake_pool_exists hs d p = Ok (hamt_map (stake_pools d) p \<noteq> None)"
  by (simp add: stake_pool_exists_def delegation_inv_def hamt_lookup_eq hamt_map_def split: option.split)

lemma key_operations_refine:
  assumes "delegation_inv hs d"
  shows "refines (delegation_inv hs) delegation_abs (register_stake_key hs d k)
      (delegation_spec cr (CertStakeKeyRegistration (StakeKeyRegistration k)) (delegation_abs d))"
    and "refines (delegation_inv hs) delegation_abs (deregister_stake_key hs d k)
      (delegation_spec cr (CertStakeKeyDeregistration (StakeKeyDeregistration k)) (delegation_abs d))"
proof -
  from assms have inv: "hamt_inv (key_hash hs) (stake_keys d)" "hamt_inv (pool_id_hash hs) (stake_pools d)"
    by (simp_all add: delegation_inv_def)
  show "refines (delegation_inv hs) delegation_abs (register_stake_key hs d k)
      (delegation_spec cr (CertStakeKeyRegistration (StakeKeyRegistration k)) (delegation_abs d))"
    using hamt_insert_map [OF inv(1), of k "\<lparr> key_pool = None \<rparr>"] inv(2)
    by (cases "hamt_map (stake_keys d) k")
      (auto simp: refines_def register_stake_key_def delegation_inv_def delegation_abs_def)
  show "refines (delegation_inv hs) delegation_abs (deregister_stake_key hs d k)
      (delegation_spec cr (CertStakeKeyDeregistration (StakeKeyDeregistration k)) (delegation_abs d))"
    using hamt_remove_map [OF inv(1), of k] inv(2)
    by (cases "hamt_map (stake_keys d) k")
      (auto simp: refines_def deregister_stake_key_def delegation_inv_def delegation_abs_def)
qed

lemma pool_operations_refine:
  assumes "delegation_inv hs d"
  shows "refines (delegation_inv hs) delegation_abs (register_stake_pool cr hs d info)
      (delegation_spec cr (CertStakePoolRegistration info) (delegation_abs d))"
    and "refines (delegation_inv hs) delegation_abs (deregister_stake_pool hs d (retired_pool_id r))
      (delegation_spec cr (CertStakePoolRetirement r) (delegation_abs d))"
proof -
  from assms have inv: "hamt_inv (key_hash hs) (stake_keys d)" "hamt_inv (pool_id_hash hs) (stake_pools d)"
    by (simp_all add: delegation_inv_def)
  show "refines (delegation_inv hs) delegation_abs (register_stake_pool cr hs d info)
      (delegation_spec cr (CertStakePoolRegistration info) (delegation_abs d))"
    using hamt_insert_map [OF inv(2), of "stake_pool_to_id cr info" info] inv(1)
    by (cases "hamt_map (stake_pools d) (stake_pool_to_id cr info)")
      (auto simp: refines_def register_stake_pool_def delegation_inv_def delegation_abs_def Let_def)
  show "refines (delegation_inv hs) delegation_abs (deregister_stake_pool hs d (retired_pool_id r))
      (delegation_spec cr (CertStakePoolRetirement r) (delegation_abs d))"
    using hamt_remove_map [OF inv(2), of "retired_pool_id r"] inv(1)
    by (cases "hamt_map (stake_pools d) (retired_pool_id r)")
      (auto simp: refines_def deregister_stake_pool_def delegation_inv_def delegation_abs_def)
qed

lemma delegate_stake_refines:
  assumes "delegation_inv hs d" and "hamt_map (stake_pools d) (delegation_pool r) \<noteq> None"
  shows "refines (delegation_inv hs) delegation_abs (delegate_stake hs d (delegation_key r) (delegation_pool r))
      (delegation_spec cr (CertStakeDelegation r) (delegation_abs d))"
proof (cases "hamt_map (stake_keys d) (delegation_key r)")
  case None
  with assms show ?thesis
    by (auto simp: refines_def delegate_stake_def delegation_inv_def delegation_abs_def hamt_update_map(1))
next
  case (Some ki)
  with assms hamt_update_map(2) [of "key_hash hs" "stake_keys d" "delegation_key r" ki
      "\<lambda>ki. Ok (Some (ki\<lparr>key_pool := Some (delegation_pool r)\<rparr>)) :: (stake_key_info option, unit) outcome"]
  show ?thesis
    by (auto simp: refines_def delegate_stake_def delegation_inv_def delegation_abs_def)
qed

lemma delegation_apply_spec:
  assumes "delegation_inv hs d"
  shows "refines (delegation_inv hs) delegation_abs (delegation_apply cr hs d c)
    (delegation_spec cr (cert_content c) (delegation_abs d))"
proof (cases "cert_content c")
  case (CertStakeDelegation r)
  then show ?thesis
    using delegate_stake_refines [OF assms, of r cr]
    by (cases "hamt_map (stake_pools d) (delegation_pool r)")
      (simp_all add: delegation_apply_def stake_pool_exists_eq [OF assms] refines_def delegation_abs_def)
next
  case (CertStakeKeyRegistration r)
  then show ?thesis
    using key_operations_refine(1) [OF assms, of "registered_key r" cr] by (simp add: delegation_apply_def)
next
  case (CertStakeKeyDeregistration r)
  then show ?thesis
    using key_operations_refine(2) [OF assms, of "deregistered_key r" cr] by (simp add: delegation_apply_def)
qed (simp_all add: delegation_apply_def pool_operations_refine [OF assms])

section \<open>Properties\<close>

text \<open>
  C22: applying a certificate to the two tables does on them what the specification does on finite maps, with the same
  errors, never panics, and keeps the tables well formed.
\<close>

theorem delegation_apply_refines:
  assumes "delegation_inv hs d"
  shows "refines (delegation_inv hs) delegation_abs (delegation_apply cr hs d c)
    (delegation_spec cr (cert_content c) (delegation_abs d))"
  by (rule delegation_apply_spec [OF assms])

theorem delegation_apply_refines_witness:
  "refines (delegation_inv \<lparr> key_hash = (\<lambda>k. ucast (stake_key k)), pool_id_hash = (\<lambda>p. 0) \<rparr>) delegation_abs
     (delegation_apply demo_crypto \<lparr> key_hash = (\<lambda>k. ucast (stake_key k)), pool_id_hash = (\<lambda>p. 0) \<rparr> delegation_new
       \<lparr> cert_content = CertStakePoolRegistration demo_pool, cert_signatures = [] \<rparr>)
     (Ok (Map.empty, [stake_pool_to_id demo_crypto demo_pool \<mapsto> demo_pool]))"
  using delegation_apply_refines [OF delegation_inv_new(1), of _ demo_crypto
      "\<lparr> cert_content = CertStakePoolRegistration demo_pool, cert_signatures = [] \<rparr>"]
  by (simp add: delegation_inv_new(2))

text \<open>
  C23: which pool a delegation points to. If every delegation points to a registered pool and every pool is stored under
  the hash of its description, a certificate that is applied keeps both, except that the retirement of a pool to
  which some key delegates leaves this key with a pool that is not registered any more.
\<close>

definition targets_registered :: "delegation_maps \<Rightarrow> bool" where
  "targets_registered = (\<lambda>(K, P). \<forall>k ki p. K k = Some ki \<longrightarrow> key_pool ki = Some p \<longrightarrow> P p \<noteq> None)"

definition pools_named :: "crypto \<Rightarrow> delegation_maps \<Rightarrow> bool" where
  "pools_named cr = (\<lambda>(K, P). \<forall>p info. P p = Some info \<longrightarrow> stake_pool_to_id cr info = p)"

definition retires_used_pool :: "delegation_maps \<Rightarrow> certificate_content \<Rightarrow> bool" where
  "retires_used_pool = (\<lambda>(K, P) cc. \<exists>r k ki. cc = CertStakePoolRetirement r \<and> K k = Some ki \<and>
     key_pool ki = Some (retired_pool_id r))"

lemma delegation_spec_targets:
  assumes "delegation_spec cr cc m = Ok m'" and "targets_registered m"
  shows "targets_registered m' \<longleftrightarrow> \<not> retires_used_pool m cc"
proof (cases m)
  case (Pair K P)
  with assms show ?thesis
    by (cases cc)
      (auto simp: targets_registered_def retires_used_pool_def split: if_splits option.splits)
qed

lemma delegation_spec_named:
  "delegation_spec cr cc m = Ok m' \<Longrightarrow> pools_named cr m \<Longrightarrow> pools_named cr m'"
  by (cases m; cases cc) (auto simp: pools_named_def split: if_splits option.splits)

theorem delegation_targets:
  assumes "delegation_inv hs d" and "delegation_apply cr hs d c = Ok d'"
    and "targets_registered (delegation_abs d)" and "pools_named cr (delegation_abs d)"
  shows "delegation_inv hs d' \<and> pools_named cr (delegation_abs d') \<and>
    (targets_registered (delegation_abs d') \<longleftrightarrow> \<not> retires_used_pool (delegation_abs d) (cert_content c))"
proof -
  have "delegation_spec cr (cert_content c) (delegation_abs d) = Ok (delegation_abs d')" "delegation_inv hs d'"
    using delegation_apply_spec [OF assms(1), of cr c] assms(2) by (simp_all add: refines_def)
  with assms(3,4) show ?thesis using delegation_spec_targets delegation_spec_named by blast
qed

definition demo_hashers :: stake_hashers where
  "demo_hashers = \<lparr> key_hash = (\<lambda>_. 0), pool_id_hash = (\<lambda>_. 0) \<rparr>"

definition one_entry :: "'k \<Rightarrow> 'v \<Rightarrow> ('k, 'v) hamt" where
  "one_entry k v = Hamt (Node 1 [Leaf (LeafContent 0 (One (k, v)))])"

lemma one_entry_simps [simp]: "hamt_inv (\<lambda>_. 0) (one_entry k v)" "hamt_map (one_entry k v) = [k \<mapsto> v]"
proof -
  have "filter (bit (1 :: u32)) [0..<32] = [0]" "count_ones 1 = Suc 0" by code_simp+
  then show "hamt_inv (\<lambda>_. 0) (one_entry k v)"
    by (simp add: hamt_inv_def one_entry_def leaf_inv_def on_path_def level_index_def)
  show "hamt_map (one_entry k v) = [k \<mapsto> v]" by (simp add: hamt_map_def one_entry_def hamt_entries_eq)
qed

definition demo_delegation :: delegation_state where
  "demo_delegation =
     \<lparr> stake_keys = one_entry (StakeKeyId 7) \<lparr> key_pool = Some (stake_pool_to_id demo_crypto demo_pool) \<rparr>,
       stake_pools = one_entry (stake_pool_to_id demo_crypto demo_pool) demo_pool \<rparr>"

lemma demo_delegation_simps:
  "delegation_inv demo_hashers demo_delegation"
  "delegation_abs demo_delegation =
     ([StakeKeyId 7 \<mapsto> \<lparr> key_pool = Some (stake_pool_to_id demo_crypto demo_pool) \<rparr>],
      [stake_pool_to_id demo_crypto demo_pool \<mapsto> demo_pool])"
  by (simp_all add: delegation_inv_def demo_delegation_def demo_hashers_def delegation_abs_def)

text \<open>A pool with a member is retired, and the member keeps pointing to it.\<close>

theorem delegation_targets_witness:
  "\<exists>d'. delegation_apply demo_crypto demo_hashers demo_delegation
       \<lparr> cert_content = CertStakePoolRetirement
           \<lparr> retired_pool_id = stake_pool_to_id demo_crypto demo_pool, retired_pool_info = demo_pool \<rparr>,
         cert_signatures = [] \<rparr> = Ok d' \<and>
     \<not> targets_registered (delegation_abs d')"
proof -
  let ?c = "\<lparr> cert_content = CertStakePoolRetirement
      \<lparr> retired_pool_id = stake_pool_to_id demo_crypto demo_pool, retired_pool_info = demo_pool \<rparr>,
    cert_signatures = [] \<rparr>"
  obtain d' where d': "delegation_apply demo_crypto demo_hashers demo_delegation ?c = Ok d'"
    using delegation_apply_spec [OF demo_delegation_simps(1), of demo_crypto ?c]
    by (simp add: refines_def demo_delegation_simps(2) split: outcome.splits)
  have "retires_used_pool (delegation_abs demo_delegation) (cert_content ?c)"
    by (auto simp: retires_used_pool_def demo_delegation_simps(2))
  moreover have "targets_registered (delegation_abs demo_delegation)"
      "pools_named demo_crypto (delegation_abs demo_delegation)"
    by (auto simp: targets_registered_def pools_named_def demo_delegation_simps(2) split: if_splits)
  ultimately show ?thesis
    using delegation_targets [OF demo_delegation_simps(1) d'] d' by blast
qed

end
