(* ===== verification/Distribution.thy ===== *)
theory Distribution
  imports Delegation
begin

text \<open>
  The distribution of stake over the pools, \<^verbatim>\<open>stake/distribution.rs\<close> of \<^verbatim>\<open>chain-impl-mockchain/src\<close>: how much each pool
  and each of its members has in unspent outputs, and the choice of a pool by a point of the total stake. The lemmas
  give the stake of a pool as the sum over the outputs that are delegated to it, and the share of the points that
  select it.
\<close>

section \<open>Definitions\<close>

text \<open>
  A \<^verbatim>\<open>HashMap\<close> of the standard library is an association list with different keys; nothing below depends on the order of
  the pairs.
\<close>

record pool_stake_distribution =
  pool_total_stake :: val
  member_stake :: "(stake_key_id \<times> val) list"

type_synonym stake_dist = "(stake_pool_id \<times> pool_stake_distribution) list"

fun hm_update :: "'k \<Rightarrow> 'v \<Rightarrow> ('k \<times> 'v) list \<Rightarrow> ('k \<times> 'v) list" where
  "hm_update k v [] = [(k, v)]"
| "hm_update k v ((k', v') # m) = (if k = k' then (k, v) # m else (k', v') # hm_update k v m)"

definition hm_entry :: "('k \<times> 'v) list \<Rightarrow> 'k \<Rightarrow> 'v \<Rightarrow> 'v" where
  "hm_entry m k dflt = (case map_of m k of None \<Rightarrow> dflt | Some v \<Rightarrow> v)"

definition dist_empty :: stake_dist where
  "dist_empty = []"

definition eligible_stake_pools :: "stake_dist \<Rightarrow> nat" where
  "eligible_stake_pools dist = length dist"

definition dist_total_stake :: "stake_dist \<Rightarrow> (val, 'e) outcome" where
  "dist_total_stake dist =
     fold_outcome (\<lambda>(_, pool) s. unwrap (value_add s (pool_total_stake pool))) dist value_zero"

definition get_stake_for :: "stake_dist \<Rightarrow> stake_pool_id \<Rightarrow> val option" where
  "get_stake_for dist p = map_option pool_total_stake (map_of dist p)"

text \<open>Identifiers are compared by their bytes, which is the order of the big-endian numbers.\<close>

instantiation stake_pool_id :: linorder
begin

definition less_eq_stake_pool_id :: "stake_pool_id \<Rightarrow> stake_pool_id \<Rightarrow> bool" where
  "less_eq_stake_pool_id a b \<longleftrightarrow> hash_word (pool_hash a) \<le> hash_word (pool_hash b)"

definition less_stake_pool_id :: "stake_pool_id \<Rightarrow> stake_pool_id \<Rightarrow> bool" where
  "less_stake_pool_id a b \<longleftrightarrow> hash_word (pool_hash a) < hash_word (pool_hash b)"

instance
  by standard
    (auto simp: less_eq_stake_pool_id_def less_stake_pool_id_def stake_pool_id.expand hash.expand)

end

fun select_pool_loop :: "(stake_pool_id \<times> val) list \<Rightarrow> u64 \<Rightarrow> stake_pool_id option" where
  "select_pool_loop [] point = None"
| "select_pool_loop ((pool_id, pool_stake) # pools) point =
     (if point < amount pool_stake then Some pool_id
      else select_pool_loop pools (point - amount pool_stake))"

definition select_pool :: "stake_dist \<Rightarrow> u64 \<Rightarrow> stake_pool_id option" where
  "select_pool dist point =
     select_pool_loop (sort_key fst (map (\<lambda>(pool_id, pool). (pool_id, pool_total_stake pool)) dist)) point"

definition dist_add_output ::
  "stake_hashers \<Rightarrow> delegation_state \<Rightarrow> address tx_output \<Rightarrow> stake_dist \<Rightarrow> (stake_dist, 'e) outcome" where
  "dist_add_output hs d out dist =
     (case kind (out_address out) of
        Group _ sk \<Rightarrow>
          obind (hamt_lookup (key_hash hs) (stake_keys d) (StakeKeyId sk)) (\<lambda>info.
            case info of
              None \<Rightarrow> Ok dist
            | Some ki \<Rightarrow>
                (case key_pool ki of
                   None \<Rightarrow> Ok dist
                 | Some p \<Rightarrow>
                     (let psd = hm_entry dist p \<lparr> pool_total_stake = Value 0, member_stake = [] \<rparr> in
                      obind (unwrap (value_add (pool_total_stake psd) (out_value out))) (\<lambda>total.
                        obind (unwrap (value_add (hm_entry (member_stake psd) (StakeKeyId sk) value_zero)
                            (out_value out))) (\<lambda>member.
                          Ok (hm_update p
                            \<lparr> pool_total_stake = total,
                              member_stake = hm_update (StakeKeyId sk) member (member_stake psd) \<rparr> dist))))))
      | _ \<Rightarrow> Ok dist)"

definition get_distribution ::
  "stake_hashers \<Rightarrow> delegation_state \<Rightarrow> address utxo_ledger \<Rightarrow> (stake_dist, 'e) outcome" where
  "get_distribution hs d utxos =
     fold_outcome (dist_add_output hs d) (utxo_values_collect (utxo_values utxos)) dist_empty"

section \<open>Selecting a pool\<close>

lemma select_pool_loop_Some:
  "select_pool_loop ps point = Some p \<longleftrightarrow>
     (\<exists>ys v zs. ps = ys @ (p, v) # zs \<and> nsum (map snd ys) \<le> unat point \<and> unat point < nsum (map snd ys) + nval v)"
proof (induction ps point rule: select_pool_loop.induct)
  case (2 q w ps point)
  show ?case
  proof (cases "point < amount w")
    case True
    then have "nsum (map snd ys) \<le> unat point \<Longrightarrow> (q, w) # ps = ys @ (p, v) # zs \<Longrightarrow> ys = []" for ys v zs
      by (cases ys) (auto simp: word_less_nat_alt)
    then have "(\<exists>ys v zs. (q, w) # ps = ys @ (p, v) # zs \<and> nsum (map snd ys) \<le> unat point \<and>
        unat point < nsum (map snd ys) + nval v) \<longleftrightarrow> q = p"
      using True by (auto simp: word_less_nat_alt intro!: exI [of _ "[]"]) (metis append_Nil fst_conv list.inject)
    with True show ?thesis by simp
  next
    case False
    then have le: "nval w \<le> unat point" and sub: "unat (point - amount w) = unat point - nval w"
      by (simp_all add: word_less_nat_alt unat_sub word_le_nat_alt)
    have "(\<exists>ys v zs. (q, w) # ps = ys @ (p, v) # zs \<and> nsum (map snd ys) \<le> unat point \<and>
        unat point < nsum (map snd ys) + nval v) \<longleftrightarrow>
      (\<exists>ys v zs. ps = ys @ (p, v) # zs \<and> nsum (map snd ys) \<le> unat point - nval w \<and>
        unat point - nval w < nsum (map snd ys) + nval v)" (is "?l \<longleftrightarrow> ?r")
    proof
      assume ?l
      then obtain ys v zs where y: "(q, w) # ps = ys @ (p, v) # zs" "nsum (map snd ys) \<le> unat point"
        "unat point < nsum (map snd ys) + nval v" by blast
      with le obtain ys' where "ys = (q, w) # ys'" by (cases ys) auto
      with y le show ?r by (intro exI [of _ ys'] exI [of _ v] exI [of _ zs]) auto
    next
      assume ?r
      then obtain ys v zs where "ps = ys @ (p, v) # zs" "nsum (map snd ys) \<le> unat point - nval w"
        "unat point - nval w < nsum (map snd ys) + nval v" by blast
      with le show ?l by (intro exI [of _ "(q, w) # ys"] exI [of _ v] exI [of _ zs]) auto
    qed
    with False 2 sub show ?thesis by simp
  qed
qed simp

lemma select_pool_loop_None: "select_pool_loop ps point = None \<longleftrightarrow> nsum (map snd ps) \<le> unat point"
proof (induction ps point rule: select_pool_loop.induct)
  case (2 q w ps point)
  then show ?case
    by (cases "point < amount w") (auto simp: word_less_nat_alt unat_sub word_le_nat_alt)
qed simp


lemma select_interval:
  assumes "a + n \<le> 2 ^ 64"
  shows "card {point :: u64. a \<le> unat point \<and> unat point < a + n} = n"
proof -
  have "bij_betw unat {point :: u64. a \<le> unat point \<and> unat point < a + n} {a..<a + n}"
    using assms by (intro bij_betw_byWitness [where f' = word_of_nat]) (auto simp: unat_of_nat)
  from bij_betw_same_card [OF this] show ?thesis by simp
qed

lemma nsum_mset: "mset vs = mset ws \<Longrightarrow> nsum vs = nsum ws"
  unfolding nsum_def by (metis mset_map sum_mset_sum_list)

lemma dist_total_stake_eq:
  "dist_total_stake dist = Ok tot \<longleftrightarrow> nval tot = nsum (map (\<lambda>(_, pool). pool_total_stake pool) dist)"
proof -
  have "fold_outcome (\<lambda>(_, pool) s. unwrap (value_add s (pool_total_stake pool))) dist s = Ok tot \<longleftrightarrow>
      nval tot = nval s + nsum (map (\<lambda>(_, pool). pool_total_stake pool) dist)" for s
  proof (induction dist arbitrary: s)
    case Nil
    then show ?case by auto
  next
    case (Cons pp dist)
    obtain p pool where pp: "pp = (p, pool)" by force
    show ?case
    proof (cases "value_add s (pool_total_stake pool)")
      case (Ok v)
      then show ?thesis using Cons.IH [of v] by (simp add: pp) (simp add: value_add_Ok add.assoc)
    next
      case (Err e)
      then have "2 ^ 64 \<le> nval s + nval (pool_total_stake pool)" by (simp add: value_add_Err)
      with Err nval_bound [of tot] show ?thesis by (simp add: pp unwrap_def)
    next
      case Panic
      then show ?thesis by (simp add: value_add_def)
    qed
  qed
  from this [of value_zero] show ?thesis by (simp add: dist_total_stake_def)
qed

lemma split_at_key:
  assumes "distinct (map fst ps)" and "ps = ys @ (p, v) # zs"
  shows "ys = takeWhile (\<lambda>q. fst q \<noteq> p) ps \<and> map_of ps p = Some v"
proof -
  have "\<forall>q \<in> set ys. fst q \<noteq> p" using assms by force
  moreover have "map_of ps p = Some v" using assms by (intro map_of_is_SomeI) auto
  ultimately show ?thesis using assms(2) by simp
qed

section \<open>Properties\<close>

text \<open>
  C25: the choice of a pool follows the stake. When the stakes of all pools fit in 64 bits, a point selects a pool
  exactly when it is below the total, and every pool is selected by as many points as it has stake.
\<close>

theorem select_pool_proportional:
  assumes "distinct (map fst dist)" and "dist_total_stake dist = (Ok tot :: (val, unit) outcome)"
  shows "(select_pool dist point = None \<longleftrightarrow> amount tot \<le> point) \<and>
    card {point. select_pool dist point = Some p} = (case get_stake_for dist p of None \<Rightarrow> 0 | Some v \<Rightarrow> nval v)"
proof -
  define ps where "ps = sort_key fst (map (\<lambda>(pool_id, pool). (pool_id, pool_total_stake pool)) dist)"
  have sp: "select_pool dist = select_pool_loop ps" by (simp add: fun_eq_iff select_pool_def ps_def)
  have "mset (map snd ps) = mset (map (\<lambda>(_, pool). pool_total_stake pool) dist)"
    by (simp add: ps_def comp_def case_prod_unfold image_mset.compositionality)
  then have tot: "nval tot = nsum (map snd ps)"
    using assms(2) nsum_mset by (simp add: dist_total_stake_eq)
  have "mset (map fst ps) = mset (map fst dist)"
    by (simp add: ps_def comp_def case_prod_unfold image_mset.compositionality)
  from mset_eq_imp_distinct_iff [OF this] have dps: "distinct (map fst ps)" using assms(1) by simp
  have none: "select_pool dist point = None \<longleftrightarrow> amount tot \<le> point"
    by (simp add: sp select_pool_loop_None word_le_nat_alt flip: tot)
  have "card {point. select_pool dist point = Some p} = nval v" if v: "(p, v) \<in> set ps" for v
  proof -
    obtain ys zs where ps: "ps = ys @ (p, v) # zs" using v by (meson split_list)
    have uniq: "ys' = ys \<and> v' = v" if "ps = ys' @ (p, v') # zs'" for ys' v' zs'
      using split_at_key [OF dps that] split_at_key [OF dps ps] by simp
    have "{point. select_pool dist point = Some p} =
        {point. nsum (map snd ys) \<le> unat point \<and> unat point < nsum (map snd ys) + nval v}"
      using ps uniq by (auto simp: sp select_pool_loop_Some)
    moreover have "nsum (map snd ys) + nval v \<le> 2 ^ 64" using ps tot nval_bound [of tot] by simp
    ultimately show ?thesis using select_interval by simp
  qed
  moreover have "{point. select_pool dist point = Some p} = {}" if "p \<notin> fst ` set ps"
    using that by (force simp: sp select_pool_loop_Some)
  moreover have "map_of ps p = Some v \<longleftrightarrow> get_stake_for dist p = Some v" for v
  proof -
    have "map_of ps p = Some v \<longleftrightarrow> (p, v) \<in> set ps" using dps by simp
    also have "\<dots> \<longleftrightarrow> (\<exists>pool. (p, pool) \<in> set dist \<and> v = pool_total_stake pool)" by (auto simp: ps_def)
    also have "\<dots> \<longleftrightarrow> get_stake_for dist p = Some v" using assms(1) by (auto simp: get_stake_for_def)
    finally show ?thesis .
  qed
  then have "map_of ps p = get_stake_for dist p" by (metis not_Some_eq)
  ultimately show ?thesis
    using none dps by (auto simp: map_of_None_keys dest: map_of_SomeD split: option.split)
qed

theorem select_pool_proportional_witness:
  "(select_pool [(StakePoolId (Hash 2), \<lparr> pool_total_stake = Value 3, member_stake = [] \<rparr>),
       (StakePoolId (Hash 1), \<lparr> pool_total_stake = Value 5, member_stake = [] \<rparr>)] 7 = None \<longleftrightarrow> amount (Value 8) \<le> 7) \<and>
   card {point. select_pool [(StakePoolId (Hash 2), \<lparr> pool_total_stake = Value 3, member_stake = [] \<rparr>),
       (StakePoolId (Hash 1), \<lparr> pool_total_stake = Value 5, member_stake = [] \<rparr>)] point =
     Some (StakePoolId (Hash 1))} = 5"
  using select_pool_proportional [of "[(StakePoolId (Hash 2), \<lparr> pool_total_stake = Value 3, member_stake = [] \<rparr>),
       (StakePoolId (Hash 1), \<lparr> pool_total_stake = Value 5, member_stake = [] \<rparr>)]" "Value 8" 7 "StakePoolId (Hash 1)"]
  by (simp add: dist_total_stake_eq get_stake_for_def)

section \<open>The stake of a pool\<close>

definition delegates_to :: "delegation_state \<Rightarrow> address tx_output \<Rightarrow> (stake_pool_id \<times> stake_key_id) option" where
  "delegates_to d out =
     (case kind (out_address out) of
        Group _ sk \<Rightarrow>
          Option.bind (hamt_map (stake_keys d) (StakeKeyId sk))
            (\<lambda>ki. map_option (\<lambda>p. (p, StakeKeyId sk)) (key_pool ki))
      | _ \<Rightarrow> None)"

definition pool_stake :: "delegation_state \<Rightarrow> address tx_output list \<Rightarrow> stake_pool_id \<Rightarrow> nat" where
  "pool_stake d outs p = nsum (map out_value (filter (\<lambda>out. map_option fst (delegates_to d out) = Some p) outs))"

definition key_stake :: "delegation_state \<Rightarrow> address tx_output list \<Rightarrow> stake_pool_id \<Rightarrow> stake_key_id \<Rightarrow> nat" where
  "key_stake d outs p k = nsum (map out_value (filter (\<lambda>out. delegates_to d out = Some (p, k)) outs))"

lemma stake_snoc [simp]:
  "pool_stake d (outs @ [out]) p =
     pool_stake d outs p + (if map_option fst (delegates_to d out) = Some p then nval (out_value out) else 0)"
  "key_stake d (outs @ [out]) p k =
     key_stake d outs p k + (if delegates_to d out = Some (p, k) then nval (out_value out) else 0)"
  by (simp_all add: pool_stake_def key_stake_def)

lemma stake_bounds:
  "pool_stake d outs p \<le> nsum (map out_value outs)" "key_stake d outs p k \<le> pool_stake d outs p"
proof -
  show "pool_stake d outs p \<le> nsum (map out_value outs)"
    by (induction outs rule: rev_induct) (simp_all add: pool_stake_def)
  show "key_stake d outs p k \<le> pool_stake d outs p"
    by (induction outs rule: rev_induct) (auto simp: pool_stake_def key_stake_def)
qed

lemma hm_update_simps [simp]:
  "map_of (hm_update k v m) = (map_of m)(k \<mapsto> v)"
  "distinct (map fst m) \<Longrightarrow> distinct (map fst (hm_update k v m))"
proof -
  show "map_of (hm_update k v m) = (map_of m)(k \<mapsto> v)" by (induction k v m rule: hm_update.induct) auto
  have "fst ` set (hm_update k v m) = insert k (fst ` set m)" for m :: "('a \<times> 'b) list"
    by (induction k v m rule: hm_update.induct) auto
  then show "distinct (map fst m) \<Longrightarrow> distinct (map fst (hm_update k v m))"
    by (induction k v m rule: hm_update.induct) auto
qed

text \<open>What the loop has established after the outputs \<open>outs\<close>.\<close>

definition row_ok ::
  "delegation_state \<Rightarrow> address tx_output list \<Rightarrow> stake_pool_id \<Rightarrow> pool_stake_distribution option \<Rightarrow> bool" where
  "row_ok d outs p row \<longleftrightarrow>
     (case row of
        None \<Rightarrow> \<forall>out \<in> set outs. map_option fst (delegates_to d out) \<noteq> Some p
      | Some psd \<Rightarrow> (\<exists>out \<in> set outs. map_option fst (delegates_to d out) = Some p) \<and>
          nval (pool_total_stake psd) = pool_stake d outs p \<and> distinct (map fst (member_stake psd)) \<and>
          (\<forall>k. nval (hm_entry (member_stake psd) k value_zero) = key_stake d outs p k))"

definition dist_ok :: "delegation_state \<Rightarrow> address tx_output list \<Rightarrow> stake_dist \<Rightarrow> bool" where
  "dist_ok d outs dist \<longleftrightarrow> distinct (map fst dist) \<and> (\<forall>p. row_ok d outs p (map_of dist p))"

lemma dist_add_output_eq:
  assumes "delegation_inv hs d"
  shows "dist_add_output hs d out dist =
    (case delegates_to d out of
       None \<Rightarrow> Ok dist
     | Some (p, k) \<Rightarrow>
         (let psd = hm_entry dist p \<lparr> pool_total_stake = Value 0, member_stake = [] \<rparr> in
          obind (unwrap (value_add (pool_total_stake psd) (out_value out))) (\<lambda>total.
            obind (unwrap (value_add (hm_entry (member_stake psd) k value_zero) (out_value out))) (\<lambda>member.
              Ok (hm_update p \<lparr> pool_total_stake = total, member_stake = hm_update k member (member_stake psd) \<rparr>
                dist)))))"
  using assms
  by (simp add: dist_add_output_def delegates_to_def delegation_inv_def hamt_lookup_eq hamt_map_def
      split: kind.split option.split)

lemma value_add_fits: "nval a + nval b < 2 ^ 64 \<Longrightarrow> \<exists>c. value_add a b = Ok c \<and> nval c = nval a + nval b"
proof (cases "value_add a b")
  case (Ok c)
  then show ?thesis using value_add_Ok [of a b c] by blast
next
  case (Err e)
  moreover assume "nval a + nval b < 2 ^ 64"
  ultimately show ?thesis using value_add_Err [of a b e] by simp
next
  case Panic
  then show ?thesis by (simp add: value_add_def)
qed

lemma row_ok_skip:
  "row_ok d outs q row \<Longrightarrow> map_option fst (delegates_to d out) \<noteq> Some q \<Longrightarrow> row_ok d (outs @ [out]) q row"
  by (auto simp: row_ok_def split: option.splits)

lemma dist_ok_entry:
  assumes "dist_ok d outs dist" and "psd = hm_entry dist p \<lparr> pool_total_stake = Value 0, member_stake = [] \<rparr>"
  shows "nval (pool_total_stake psd) = pool_stake d outs p" and "distinct (map fst (member_stake psd))"
    and "nval (hm_entry (member_stake psd) k value_zero) = key_stake d outs p k"
proof -
  from assms(1) have row: "row_ok d outs p (map_of dist p)" by (simp add: dist_ok_def)
  have "pool_stake d outs p = 0" if "map_of dist p = None"
  proof -
    from row that have "filter (\<lambda>out. map_option fst (delegates_to d out) = Some p) outs = []"
      by (simp add: row_ok_def filter_empty_conv)
    then show ?thesis by (simp only: pool_stake_def list.map nsum_simps)
  qed
  moreover from this stake_bounds(2) [of d outs p k] have "map_of dist p = None \<Longrightarrow> key_stake d outs p k = 0" by simp
  ultimately show "nval (pool_total_stake psd) = pool_stake d outs p" "distinct (map fst (member_stake psd))"
      "nval (hm_entry (member_stake psd) k value_zero) = key_stake d outs p k"
    using row unfolding assms(2)
    by (auto simp: row_ok_def hm_entry_def [of dist] hm_entry_def [of "[]"] split: option.splits)
qed

lemma dist_add_output_ok:
  assumes "delegation_inv hs d" and "dist_ok d outs dist" and "nsum (map out_value (outs @ [out])) < 2 ^ 64"
  shows "\<exists>dist'. dist_add_output hs d out dist = Ok dist' \<and> dist_ok d (outs @ [out]) dist'"
proof (cases "delegates_to d out")
  case None
  with assms(2) have "dist_ok d (outs @ [out]) dist" by (simp add: dist_ok_def row_ok_skip)
  with None show ?thesis by (simp add: dist_add_output_eq [OF assms(1)])
next
  case (Some pk)
  obtain p k where pk: "pk = (p, k)" by force
  define psd where "psd = hm_entry dist p \<lparr> pool_total_stake = Value 0, member_stake = [] \<rparr>"
  note entry = dist_ok_entry [OF assms(2) psd_def]
  have "pool_stake d outs p + nval (out_value out) < 2 ^ 64"
    using stake_bounds(1) [of d outs p] assms(3) by simp
  then obtain tot where tot: "value_add (pool_total_stake psd) (out_value out) = Ok tot"
      "nval tot = pool_stake d outs p + nval (out_value out)"
    using value_add_fits [of "pool_total_stake psd" "out_value out"] entry(1) by auto
  have "key_stake d outs p k + nval (out_value out) < 2 ^ 64"
    using stake_bounds(2) [of d outs p k] stake_bounds(1) [of d outs p] assms(3) by simp
  then obtain mem where mem: "value_add (hm_entry (member_stake psd) k value_zero) (out_value out) = Ok mem"
      "nval mem = key_stake d outs p k + nval (out_value out)"
    using value_add_fits [of "hm_entry (member_stake psd) k value_zero" "out_value out"] entry(3) [of k] by auto
  let ?psd = "\<lparr> pool_total_stake = tot, member_stake = hm_update k mem (member_stake psd) \<rparr>"
  have "dist_add_output hs d out dist = Ok (hm_update p ?psd dist)"
    using Some pk tot(1) mem(1) by (simp add: dist_add_output_eq [OF assms(1)] flip: psd_def)
  moreover have "nval (hm_entry (hm_update k mem (member_stake psd)) j value_zero) = key_stake d (outs @ [out]) p j" for j
    using entry(3) [of j] mem(2) Some pk by (auto simp: hm_entry_def)
  then have "row_ok d (outs @ [out]) p (Some ?psd)"
    using entry(2) tot(2) Some pk by (simp add: row_ok_def)
  then have "dist_ok d (outs @ [out]) (hm_update p ?psd dist)"
    using assms(2) Some pk by (simp add: dist_ok_def row_ok_skip)
  ultimately show ?thesis by blast
qed

text \<open>
  C24: the distribution of stake is what the unspent outputs say. When the values of all outputs fit in 64 bits, it is
  computed without a panic and has one entry for every pool some output is delegated to; the total of the entry
  is the sum of the outputs delegated to the pool, and each member has the sum of the outputs of their key.
\<close>

theorem get_distribution_correct:
  assumes "delegation_inv hs d" and "nsum (map out_value (utxo_values_collect (utxo_values utxos))) < 2 ^ 64"
  shows "\<exists>dist. get_distribution hs d utxos = (Ok dist :: (stake_dist, 'e) outcome) \<and>
    dist_ok d (utxo_values_collect (utxo_values utxos)) dist"
proof -
  have "\<exists>dist. fold_outcome (dist_add_output hs d) outs dist_empty = (Ok dist :: (stake_dist, 'e) outcome) \<and>
      dist_ok d outs dist" if "nsum (map out_value outs) < 2 ^ 64" for outs
    using that
  proof (induction outs rule: rev_induct)
    case Nil
    then show ?case by (simp add: dist_ok_def row_ok_def dist_empty_def)
  next
    case (snoc out outs)
    then obtain dist where dist: "fold_outcome (dist_add_output hs d) outs dist_empty = (Ok dist :: (stake_dist, 'e) outcome)"
        "dist_ok d outs dist" by auto
    obtain dist' where "dist_add_output hs d out dist = (Ok dist' :: (stake_dist, 'e) outcome)" "dist_ok d (outs @ [out]) dist'"
      using dist_add_output_ok [OF assms(1) dist(2) snoc.prems] by blast
    with dist(1) show ?case by (simp add: fold_outcome_append)
  qed
  from this [OF assms(2)] show ?thesis by (simp add: get_distribution_def)
qed

definition demo_staked :: "address utxo_ledger" where
  "demo_staked = one_entry (Hash 1) (TransactionUnspents
     [(0, \<lparr> out_address = Address Test (Group 3 7), out_value = Value 9 \<rparr>), (1, demo_output 4)])"

theorem get_distribution_correct_witness:
  "\<exists>dist psd. get_distribution demo_hashers demo_delegation demo_staked = (Ok dist :: (stake_dist, unit) outcome) \<and>
     map_of dist (stake_pool_to_id demo_crypto demo_pool) = Some psd \<and> nval (pool_total_stake psd) = 9"
proof -
  let ?p = "stake_pool_to_id demo_crypto demo_pool"
  have outs: "utxo_values_collect (utxo_values demo_staked) =
      [\<lparr> out_address = Address Test (Group 3 7), out_value = Value 9 \<rparr>, demo_output 4]"
    by (simp add: utxo_values_collect_left utxo_iter_left_start demo_staked_def one_entry_def hamt_entries_eq)
  then have "nsum (map out_value (utxo_values_collect (utxo_values demo_staked))) < 2 ^ 64"
    by (simp add: demo_output_def)
  then obtain dist where dist: "get_distribution demo_hashers demo_delegation demo_staked = (Ok dist :: (stake_dist, unit) outcome)"
      "dist_ok demo_delegation [\<lparr> out_address = Address Test (Group 3 7), out_value = Value 9 \<rparr>, demo_output 4] dist"
    using get_distribution_correct [OF demo_delegation_simps(1), of demo_staked, where 'e = unit] outs by auto
  have "delegates_to demo_delegation \<lparr> out_address = Address Test (Group 3 7), out_value = Value 9 \<rparr> =
      Some (?p, StakeKeyId 7)" "delegates_to demo_delegation (demo_output 4) = None"
    by (simp_all add: delegates_to_def demo_delegation_def demo_output_def)
  then show ?thesis
    using dist by (auto simp: dist_ok_def row_ok_def pool_stake_def dest!: spec [of _ ?p] split: option.splits)
qed

end
