(* ===== verification/Ledger.thy ===== *)
theory Ledger
  imports Block Distribution
begin

text \<open>
  The ledger, \<^verbatim>\<open>chain-impl-mockchain/src/ledger.rs\<close>: unspent outputs, legacy outputs, accounts, settings and delegation
  as one state, the state that the first block creates, and how blocks, transactions, updates and certificates
  change it. A step of the ledger is a function to an outcome; the reachable ledgers are those of a first block
  followed by any number of blocks.
\<close>

section \<open>State and errors\<close>

record ledger_hashers =
  tid_hash :: "transaction_id \<Rightarrow> u64"
  account_hash :: "account_id \<Rightarrow> u64"
  stake_hash :: stake_hashers

record ledger_env =
  env_crypto :: crypto
  env_legacy :: legacy
  env_hashers :: ledger_hashers

record ledger_static_parameters =
  block0_initial_hash :: hash
  block0_start_time :: block0_date
  block0_consensus :: consensus_version
  static_discrimination :: discrimination

definition static_parameters_default :: ledger_static_parameters where
  "static_parameters_default =
     \<lparr> block0_initial_hash = Hash 0, block0_start_time = Block0Date 0, block0_consensus = Bft,
       static_discrimination = Test \<rparr>"

record ledger_parameters =
  param_fees :: linear_fee
  param_allow_account_creation :: bool

record ledger =
  led_utxos :: "address utxo_ledger"
  led_oldutxos :: "old_address utxo_ledger"
  led_accounts :: account_ledger
  led_settings :: settings
  led_delegation :: delegation_state
  led_static_params :: ledger_static_parameters
  led_chain_length :: chain_length

datatype ledger_error =
    LedgerConfig config_error
  | NotEnoughSignatures nat nat
  | UtxoValueNotMatching val val
  | LedgerUtxoError utxo_error
  | UtxoInvalidSignature utxo_pointer "address tx_output" witness
  | OldUtxoInvalidSignature utxo_pointer "old_address tx_output" witness
  | OldUtxoInvalidPublicKey utxo_pointer "old_address tx_output" witness
  | AccountInvalidSignature account_id witness
  | TransactionHasNoInput
  | Block0OnlyMessageReceived
  | Block0TransactionHasInput
  | Block0TransactionHasOutput
  | Block0TransactionHasWitnesses
  | Block0InitialMessageMissing
  | Block0InitialMessageNoConsensus
  | Block0UtxoTotalValueTooBig
  | UtxoInputsTotal value_error
  | UtxoOutputsTotal value_error
  | LedgerAccount account_error
  | NotBalanced val val
  | ZeroOutput "address tx_output"
  | LedgerDelegation delegation_error
  | InvalidDiscrimination
  | ExpectingAccountWitness
  | ExpectingUtxoWitness
  | ExpectingInitialMessage
  | CertificateInvalidSignature

definition ledger_empty :: "ledger_static_parameters \<Rightarrow> ledger" where
  "ledger_empty sp =
     \<lparr> led_utxos = utxo_new, led_oldutxos = utxo_new, led_accounts = account_ledger_new,
       led_settings = settings_new, led_delegation = delegation_new, led_static_params = sp,
       led_chain_length = ChainLength 0 \<rparr>"

definition get_ledger_parameters :: "ledger \<Rightarrow> ledger_parameters" where
  "get_ledger_parameters l =
     \<lparr> param_fees = linear_fees (led_settings l),
       param_allow_account_creation = allow_account_creation (led_settings l) \<rparr>"

definition ledger_consensus_version :: "ledger \<Rightarrow> consensus_version" where
  "ledger_consensus_version l = block0_consensus (led_static_params l)"

definition get_stake_distribution :: "ledger_env \<Rightarrow> ledger \<Rightarrow> (stake_dist, 'e) outcome" where
  "get_stake_distribution env l = get_distribution (stake_hash (env_hashers env)) (led_delegation l) (led_utxos l)"

section \<open>Outputs and inputs of a transaction\<close>

definition apply_old_declaration ::
  "ledger_env \<Rightarrow> old_address utxo_ledger \<Rightarrow> utxo_declaration \<Rightarrow> (old_address utxo_ledger, ledger_error) outcome" where
  "apply_old_declaration env utxos decl =
     assert_then (length (declared_addrs decl) < 255)
       (obind (utxo_declaration_hash (env_crypto env) decl) (\<lambda>txid.
         map_err LedgerUtxoError
           (utxo_add (tid_hash (env_hashers env)) utxos txid
             (map (\<lambda>(i, d). (word_of_nat i, \<lparr> out_address = fst d, out_value = snd d \<rparr>))
               (enumerate 0 (declared_addrs decl))))))"

text \<open>One output: it goes to the new unspent outputs, or its value to an account.\<close>

definition apply_output ::
  "ledger_env \<Rightarrow> ledger_static_parameters \<Rightarrow> ledger_parameters \<Rightarrow> nat \<times> address tx_output
   \<Rightarrow> (u8 \<times> address tx_output) list \<times> account_ledger
   \<Rightarrow> ((u8 \<times> address tx_output) list \<times> account_ledger, ledger_error) outcome" where
  "apply_output env sp dp = (\<lambda>(index, out) (new_utxos, accounts).
     if out_value out = value_zero then Err (ZeroOutput out)
     else if discrimination (out_address out) \<noteq> static_discrimination sp then Err InvalidDiscrimination
     else case kind (out_address out) of
       Account identifier \<Rightarrow>
         (let account = Identifier identifier in
          case add_value (account_hash (env_hashers env)) accounts account (out_value out) of
            Ok accounts \<Rightarrow> Ok (new_utxos, accounts)
          | Panic \<Rightarrow> Panic
          | Err e \<Rightarrow>
              if e = NonExistent \<and> param_allow_account_creation dp then
                obind (map_err LedgerAccount
                    (add_account (account_hash (env_hashers env)) accounts account (out_value out)))
                  (\<lambda>accounts. Ok (new_utxos, accounts))
              else Err (LedgerAccount e))
     | _ \<Rightarrow> Ok (new_utxos @ [(word_of_nat index, out)], accounts))"

definition internal_apply_transaction_output ::
  "ledger_env \<Rightarrow> address utxo_ledger \<Rightarrow> account_ledger \<Rightarrow> ledger_static_parameters \<Rightarrow> ledger_parameters
   \<Rightarrow> transaction_id \<Rightarrow> address tx_output list
   \<Rightarrow> (address utxo_ledger \<times> account_ledger, ledger_error) outcome" where
  "internal_apply_transaction_output env utxos accounts sp dp tid outputs =
     obind (fold_outcome (apply_output env sp dp) (enumerate 0 outputs) ([], accounts))
       (\<lambda>(new_utxos, accounts).
         obind (map_err LedgerUtxoError (utxo_add (tid_hash (env_hashers env)) utxos tid new_utxos))
           (\<lambda>utxos. Ok (utxos, accounts)))"

definition input_utxo_verify ::
  "ledger_env \<Rightarrow> ledger \<Rightarrow> transaction_id \<Rightarrow> utxo_pointer \<Rightarrow> witness \<Rightarrow> (ledger, ledger_error) outcome" where
  "input_utxo_verify env l tid utxo w =
     (case w of
        WitnessAccount _ \<Rightarrow> Err ExpectingUtxoWitness
      | WitnessOldUtxo xpub sig \<Rightarrow>
          obind (map_err LedgerUtxoError
              (utxo_remove (tid_hash (env_hashers env)) (led_oldutxos l) (ptr_transaction_id utxo)
                (ptr_output_index utxo)))
            (\<lambda>(old_utxos, out).
              let l = l\<lparr>led_oldutxos := old_utxos\<rparr> in
              if ptr_value utxo \<noteq> out_value out then Err (UtxoValueNotMatching (ptr_value utxo) (out_value out))
              else
                obind (oldaddress_from_xpub (env_legacy env) (out_address out) xpub) (\<lambda>owner.
                  if owner then Err (OldUtxoInvalidPublicKey utxo out w)
                  else if verification_from (bip32_verify (env_crypto env) xpub sig (hash_as_ref tid)) = Failed then
                    Err (OldUtxoInvalidSignature utxo out w)
                  else Ok l))
      | WitnessUtxo sig \<Rightarrow>
          obind (map_err LedgerUtxoError
              (utxo_remove (tid_hash (env_hashers env)) (led_utxos l) (ptr_transaction_id utxo)
                (ptr_output_index utxo)))
            (\<lambda>(new_utxos, out).
              let l = l\<lparr>led_utxos := new_utxos\<rparr> in
              if ptr_value utxo \<noteq> out_value out then Err (UtxoValueNotMatching (ptr_value utxo) (out_value out))
              else
                obind (unwrap_opt (address_public_key (out_address out))) (\<lambda>pk.
                  if verification_from (ed25519_verify (env_crypto env) pk sig (hash_as_ref tid)) = Failed then
                    Err (UtxoInvalidSignature utxo out w)
                  else Ok l)))"

definition input_account_verify ::
  "ledger_env \<Rightarrow> account_ledger \<Rightarrow> transaction_id \<Rightarrow> account_id \<Rightarrow> val \<Rightarrow> witness
   \<Rightarrow> (account_ledger, ledger_error) outcome" where
  "input_account_verify env accounts tid account v w =
     obind (map_err LedgerAccount (remove_value (account_hash (env_hashers env)) accounts account v))
       (\<lambda>(accounts, spending_counter).
         case w of
           WitnessOldUtxo _ _ \<Rightarrow> Err ExpectingAccountWitness
         | WitnessUtxo _ \<Rightarrow> Err ExpectingAccountWitness
         | WitnessAccount sig \<Rightarrow>
             obind (tx_id_spending_counter tid spending_counter) (\<lambda>tidsc.
               case account of Identifier pk \<Rightarrow>
                 if verification_from (ed25519_verify (env_crypto env) pk sig tidsc) = Failed then
                   Err (AccountInvalidSignature account w)
                 else Ok accounts))"

definition apply_input ::
  "ledger_env \<Rightarrow> transaction_id \<Rightarrow> input \<times> witness \<Rightarrow> ledger \<Rightarrow> (ledger, ledger_error) outcome" where
  "apply_input env tid = (\<lambda>(input, w) l.
     obind (input_to_enum input) (\<lambda>e.
       case e of
         UtxoInput utxo \<Rightarrow> input_utxo_verify env l tid utxo w
       | AccountInput account_id v \<Rightarrow>
           obind (input_account_verify env (led_accounts l) tid account_id v w)
             (\<lambda>accounts. Ok (l\<lparr>led_accounts := accounts\<rparr>))))"

definition internal_apply_transaction ::
  "ledger_env \<Rightarrow> ledger \<Rightarrow> ledger_parameters \<Rightarrow> transaction_id \<Rightarrow> input list \<Rightarrow> address tx_output list
   \<Rightarrow> witness list \<Rightarrow> (ledger, ledger_error) outcome" where
  "internal_apply_transaction env l dp tid inputs outputs witnesses =
     assert_then (length inputs < 255)
     (assert_then (length outputs < 255)
     (assert_then (length witnesses < 255)
       (if length inputs = 0 then Err TransactionHasNoInput
        else if length inputs \<noteq> length witnesses then
          Err (NotEnoughSignatures (length inputs) (length witnesses))
        else
          obind (fold_outcome (apply_input env tid) (zip inputs witnesses) l) (\<lambda>l.
            obind (map_err UtxoInputsTotal (value_sum (map input_value inputs))) (\<lambda>total_input.
              obind (map_err UtxoOutputsTotal (value_sum (map input_value inputs))) (\<lambda>total_output.
                if total_input \<noteq> total_output then Err (NotBalanced total_input total_output)
                else
                  obind (internal_apply_transaction_output env (led_utxos l) (led_accounts l)
                      (led_static_params l) dp tid outputs)
                    (\<lambda>(new_utxos, new_accounts).
                      Ok (l\<lparr>led_utxos := new_utxos, led_accounts := new_accounts\<rparr>))))))))"

section \<open>Messages and blocks\<close>

text \<open>The extra part of a transaction is serialized by a function that may panic, like that of certificates.\<close>

definition transaction_hash ::
  "crypto \<Rightarrow> ('x \<Rightarrow> (bytes, unit) outcome) \<Rightarrow> (address, 'x) transaction \<Rightarrow> (transaction_id, 'e) outcome" where
  "transaction_hash cr ser tx = obind (unwrap (ser (tx_extra tx))) (\<lambda>w. Ok (tx_hash cr (\<lambda>_. w) tx))"

definition ser_no_extra :: "no_extra \<Rightarrow> (bytes, unit) outcome" where
  "ser_no_extra x = Ok (no_extra_serialize x)"

definition apply_transaction ::
  "ledger_env \<Rightarrow> ('x \<Rightarrow> (bytes, unit) outcome) \<Rightarrow> ledger \<Rightarrow> (address, 'x) auth_transaction \<Rightarrow> ledger_parameters
   \<Rightarrow> (ledger, ledger_error) outcome" where
  "apply_transaction env ser l signed_tx dp =
     obind (transaction_hash (env_crypto env) ser (auth_tx signed_tx)) (\<lambda>tid.
       internal_apply_transaction env l dp tid (tx_inputs (auth_tx signed_tx)) (tx_outputs (auth_tx signed_tx))
         (auth_witnesses signed_tx))"

definition apply_update :: "ledger \<Rightarrow> update_proposal \<Rightarrow> (ledger, ledger_error) outcome" where
  "apply_update l u = Ok (l\<lparr>led_settings := settings_apply (led_settings l) u\<rparr>)"

definition apply_certificate ::
  "ledger_env \<Rightarrow> ledger \<Rightarrow> (address, certificate) auth_transaction \<Rightarrow> ledger_parameters
   \<Rightarrow> (ledger, ledger_error) outcome" where
  "apply_certificate env l auth_cert dp =
     obind (certificate_verify (env_crypto env) (tx_extra (auth_tx auth_cert))) (\<lambda>verified.
       if verified = Failed then Err CertificateInvalidSignature
       else
         obind (apply_transaction env certificate_serialize l auth_cert dp) (\<lambda>l.
           obind (map_err LedgerDelegation
               (delegation_apply (env_crypto env) (stake_hash (env_hashers env)) (led_delegation l)
                 (tx_extra (auth_tx auth_cert))))
             (\<lambda>delegation. Ok (l\<lparr>led_delegation := delegation\<rparr>))))"

definition apply_message ::
  "ledger_env \<Rightarrow> ledger_parameters \<Rightarrow> message \<Rightarrow> ledger \<Rightarrow> (ledger, ledger_error) outcome" where
  "apply_message env dp m l =
     (case m of
        MsgInitial _ \<Rightarrow> Err Block0OnlyMessageReceived
      | MsgOldUtxoDeclaration _ \<Rightarrow> Err Block0OnlyMessageReceived
      | MsgTransaction t \<Rightarrow> apply_transaction env ser_no_extra l t dp
      | MsgUpdate u \<Rightarrow> apply_update l u
      | MsgCertificate t \<Rightarrow> apply_certificate env l t dp)"

definition apply_block ::
  "ledger_env \<Rightarrow> ledger \<Rightarrow> ledger_parameters \<Rightarrow> message list \<Rightarrow> (ledger, ledger_error) outcome" where
  "apply_block env l dp contents =
     obind (chain_length_next (led_chain_length l)) (\<lambda>n.
       fold_outcome (apply_message env dp) contents (l\<lparr>led_chain_length := n\<rparr>))"

section \<open>The first block\<close>

definition apply_config ::
  "config_param \<Rightarrow> ledger_static_parameters \<times> consensus_version option
   \<Rightarrow> ledger_static_parameters \<times> consensus_version option" where
  "apply_config config = (\<lambda>(params, consensus).
     case config of
       ConfigBlock0Date d \<Rightarrow> (params\<lparr>block0_start_time := d\<rparr>, consensus)
     | ConfigDiscrimination d \<Rightarrow> (params\<lparr>static_discrimination := d\<rparr>, consensus)
     | ConfigConsensusVersion v \<Rightarrow> (params, Some v))"

definition block0_parameters :: "hash \<Rightarrow> initial_ents \<Rightarrow> (ledger_static_parameters, ledger_error) outcome" where
  "block0_parameters block0_hash ents =
     (let (params, consensus) = fold apply_config (initial_configs ents) (static_parameters_default, None) in
      obind (ok_or Block0InitialMessageNoConsensus consensus) (\<lambda>v.
        Ok (params\<lparr>block0_consensus := v, block0_initial_hash := block0_hash\<rparr>)))"

definition validate_utxo_total_value :: "ledger \<Rightarrow> (unit, ledger_error) outcome" where
  "validate_utxo_total_value l =
     obind (map_err (\<lambda>_. Block0UtxoTotalValueTooBig) (account_total_value (led_accounts l))) (\<lambda>account_value.
       obind (map_err (\<lambda>_. Block0UtxoTotalValueTooBig)
           (value_sum (map (\<lambda>e. out_value (entry_output e)) (utxo_iter_collect (utxo_iter (led_oldutxos l))) @
              map (\<lambda>e. out_value (entry_output e)) (utxo_iter_collect (utxo_iter (led_utxos l))) @
              [account_value])))
         (\<lambda>_. Ok ()))"

definition block0_message ::
  "ledger_env \<Rightarrow> message \<Rightarrow> ledger \<times> ledger_parameters \<Rightarrow> (ledger \<times> ledger_parameters, ledger_error) outcome" where
  "block0_message env m = (\<lambda>(l, dp).
     case m of
       MsgInitial _ \<Rightarrow> Err Block0InitialMessageMissing
     | MsgOldUtxoDeclaration old \<Rightarrow>
         obind (apply_old_declaration env (led_oldutxos l) old) (\<lambda>u. Ok (l\<lparr>led_oldutxos := u\<rparr>, dp))
     | MsgTransaction t \<Rightarrow>
         if length (tx_inputs (auth_tx t)) \<noteq> 0 then Err Block0TransactionHasInput
         else if length (auth_witnesses t) \<noteq> 0 then Err Block0TransactionHasWitnesses
         else
           obind (transaction_hash (env_crypto env) ser_no_extra (auth_tx t)) (\<lambda>tid.
             obind (internal_apply_transaction_output env (led_utxos l) (led_accounts l) (led_static_params l) dp
                 tid (tx_outputs (auth_tx t)))
               (\<lambda>(new_utxos, new_accounts).
                 Ok (l\<lparr>led_utxos := new_utxos, led_accounts := new_accounts\<rparr>, dp)))
     | MsgUpdate u \<Rightarrow> obind (apply_update l u) (\<lambda>l. Ok (l, get_ledger_parameters l))
     | MsgCertificate t \<Rightarrow>
         if length (tx_inputs (auth_tx t)) \<noteq> 0 then Err Block0TransactionHasInput
         else if length (auth_witnesses t) \<noteq> 0 then Err Block0TransactionHasWitnesses
         else if length (tx_outputs (auth_tx t)) \<noteq> 0 then Err Block0TransactionHasOutput
         else
           obind (map_err LedgerDelegation
               (delegation_apply (env_crypto env) (stake_hash (env_hashers env)) (led_delegation l)
                 (tx_extra (auth_tx t))))
             (\<lambda>d. Ok (l\<lparr>led_delegation := d\<rparr>, dp)))"

definition ledger_new :: "ledger_env \<Rightarrow> hash \<Rightarrow> message list \<Rightarrow> (ledger, ledger_error) outcome" where
  "ledger_new env block0_hash contents =
     obind (case contents of
         MsgInitial ents # _ \<Rightarrow> block0_parameters block0_hash ents
       | _ # _ \<Rightarrow> Err ExpectingInitialMessage
       | [] \<Rightarrow> Err Block0InitialMessageMissing)
       (\<lambda>sp.
         obind (fold_outcome (block0_message env) (tl contents)
             (ledger_empty sp, \<lparr> param_fees = linear_fee_new 0 0 0, param_allow_account_creation = False \<rparr>))
           (\<lambda>(l, _). obind (validate_utxo_total_value l) (\<lambda>_. Ok l)))"

section \<open>Invariant and total value\<close>

definition ledger_inv :: "ledger_env \<Rightarrow> ledger \<Rightarrow> bool" where
  "ledger_inv env l \<longleftrightarrow>
     utxo_inv (tid_hash (env_hashers env)) (led_utxos l) \<and>
     utxo_inv (tid_hash (env_hashers env)) (led_oldutxos l) \<and>
     hamt_inv (account_hash (env_hashers env)) (led_accounts l) \<and>
     delegation_inv (stake_hash (env_hashers env)) (led_delegation l)"

definition ledger_total :: "ledger \<Rightarrow> nat" where
  "ledger_total l = utxo_total (led_utxos l) + utxo_total (led_oldutxos l) + acc_total (led_accounts l)"

lemma ledger_inv_empty: "ledger_inv env (ledger_empty sp)" "ledger_total (ledger_empty sp) = 0"
  using acc_total_new
  by (simp_all add: ledger_inv_def ledger_total_def ledger_empty_def delegation_inv_new(1) account_ledger_new_def)

definition to_account :: "address tx_output \<Rightarrow> bool" where
  "to_account out \<longleftrightarrow> (case kind (out_address out) of Account _ \<Rightarrow> True | _ \<Rightarrow> False)"

definition output_ok :: "ledger_static_parameters \<Rightarrow> address tx_output \<Rightarrow> bool" where
  "output_ok sp out \<longleftrightarrow> out_value out \<noteq> value_zero \<and> discrimination (out_address out) = static_discrimination sp"

definition kept_outputs :: "(nat \<times> address tx_output) list \<Rightarrow> (u8 \<times> address tx_output) list" where
  "kept_outputs xs = map (\<lambda>(i, out). (word_of_nat i, out)) (filter (\<lambda>(_, out). \<not> to_account out) xs)"

lemma kept_outputs_simps [simp]:
  "kept_outputs [] = []"
  "kept_outputs ((i, out) # xs) = (if to_account out then [] else [(word_of_nat i, out)]) @ kept_outputs xs"
  by (simp_all add: kept_outputs_def)

lemma apply_output_Ok:
  assumes "hamt_inv (account_hash (env_hashers env)) acc"
    and "apply_output env sp dp (i, out) (nu, acc) = Ok (nu', acc')"
  shows "hamt_inv (account_hash (env_hashers env)) acc'" and "output_ok sp out"
    and "nu' = nu @ kept_outputs [(i, out)]"
    and "acc_total acc' = acc_total acc + (if to_account out then nval (out_value out) else 0)"
proof -
  let ?hs = "account_hash (env_hashers env)"
  show "output_ok sp out" using assms(2) by (simp add: apply_output_def output_ok_def split: if_splits)
  have "hamt_inv ?hs acc' \<and> nu' = nu \<and> acc_total acc' = acc_total acc + nval (out_value out)"
    if k: "kind (out_address out) = Account pk" for pk
  proof (cases "add_value ?hs acc (Identifier pk) (out_value out)")
    case (Ok a)
    then show ?thesis
      using assms k by (auto simp: apply_output_def Let_def split: if_splits elim: add_value_Ok)
  next
    case (Err e)
    with assms k obtain a where "add_account ?hs acc (Identifier pk) (out_value out) = Ok a" "nu' = nu" "acc' = a"
      by (auto simp: apply_output_def Let_def split: if_splits)
    then show ?thesis using add_account_Ok [OF assms(1)] by blast
  qed (use assms k in \<open>auto simp: apply_output_def Let_def split: if_splits\<close>)
  then show "hamt_inv ?hs acc'" "nu' = nu @ kept_outputs [(i, out)]"
      "acc_total acc' = acc_total acc + (if to_account out then nval (out_value out) else 0)"
    using assms by (auto simp: apply_output_def to_account_def split: if_splits kind.splits)
qed

lemma apply_outputs_Ok:
  assumes "hamt_inv (account_hash (env_hashers env)) acc"
    and "fold_outcome (apply_output env sp dp) xs (nu, acc) = Ok (nu', acc')"
  shows "hamt_inv (account_hash (env_hashers env)) acc' \<and> (\<forall>(i, out) \<in> set xs. output_ok sp out) \<and>
    nu' = nu @ kept_outputs xs \<and>
    acc_total acc' + nsum (map (out_value \<circ> snd) (kept_outputs xs)) =
      acc_total acc + nsum (map (out_value \<circ> snd) xs)"
  using assms
proof (induction xs arbitrary: nu acc)
  case (Cons x xs)
  obtain i out where x: "x = (i, out)" by force
  from Cons.prems(2) x obtain nu1 acc1 where step: "apply_output env sp dp (i, out) (nu, acc) = Ok (nu1, acc1)"
    and rest: "fold_outcome (apply_output env sp dp) xs (nu1, acc1) = Ok (nu', acc')" by auto
  note ok = apply_output_Ok [OF Cons.prems(1) step]
  from Cons.IH [OF ok(1) rest] ok x show ?case by auto
qed simp

lemma kept_outputs_distinct:
  assumes "length outputs < 256"
  shows "distinct (map fst (kept_outputs (enumerate 0 outputs)))"
proof -
  have inj: "inj_on (word_of_nat :: nat \<Rightarrow> u8) {..<256}"
    by (rule inj_onI) (drule arg_cong [of _ _ unat], simp add: unat_of_nat)
  let ?xs = "filter (\<lambda>(_, out). \<not> to_account out) (enumerate 0 outputs)"
  have "distinct (map fst ?xs)" by (rule distinct_map_filter) simp
  moreover have "set (map fst ?xs) \<subseteq> {..<256}" using assms by (auto simp: in_set_enumerate_eq)
  ultimately have "distinct (map word_of_nat (map fst ?xs) :: u8 list)"
    using inj by (simp add: distinct_map [of word_of_nat] inj_on_subset del: map_map)
  moreover have "map fst (kept_outputs (enumerate 0 outputs)) = map word_of_nat (map fst ?xs)"
    by (simp add: kept_outputs_def case_prod_unfold)
  ultimately show ?thesis by simp
qed

definition created :: "transaction_id \<Rightarrow> address tx_output list \<Rightarrow> transaction_id \<times> u8 \<rightharpoonup> address tx_output" where
  "created tid outputs = (\<lambda>(t, i). if t = tid then map_of (rev (kept_outputs (enumerate 0 outputs))) i else None)"

lemma apply_transaction_output_Ok:
  assumes "utxo_inv (tid_hash (env_hashers env)) u" and "hamt_inv (account_hash (env_hashers env)) acc"
    and "internal_apply_transaction_output env u acc sp dp tid outputs = Ok (u', acc')"
  shows "utxo_inv (tid_hash (env_hashers env)) u'" and "hamt_inv (account_hash (env_hashers env)) acc'"
    and "\<forall>out \<in> set outputs. output_ok sp out"
    and "utxo_map u' = utxo_map u ++ created tid outputs"
    and "length outputs < 256 \<Longrightarrow>
      utxo_total u' + acc_total acc' = utxo_total u + acc_total acc + nsum (map out_value outputs)"
proof -
  let ?kept = "kept_outputs (enumerate 0 outputs)"
  obtain nu where outs: "fold_outcome (apply_output env sp dp) (enumerate 0 outputs) ([], acc) = Ok (nu, acc')"
    and add: "utxo_add (tid_hash (env_hashers env)) u tid nu = Ok u'"
    using assms(3) by (auto simp: internal_apply_transaction_output_def)
  note ok = apply_outputs_Ok [OF assms(2) outs]
  have nu: "nu = ?kept" using ok by simp
  note added = utxo_add_Ok [OF assms(1) add [unfolded nu]]
  show "utxo_inv (tid_hash (env_hashers env)) u'" by (rule added(1))
  show "hamt_inv (account_hash (env_hashers env)) acc'" using ok by simp
  have "set outputs = snd ` set (enumerate 0 outputs)" by (metis map_snd_enumerate set_map)
  then show "\<forall>out \<in> set outputs. output_ok sp out" using ok by auto
  show "utxo_map u' = utxo_map u ++ created tid outputs" using added(4) by (simp add: created_def)
  assume "length outputs < 256"
  from added(5) [OF kept_outputs_distinct [OF this]]
  have "utxo_total u' = utxo_total u + nsum (map (out_value \<circ> snd) ?kept)"
    by (simp add: nsum_def comp_def case_prod_unfold)
  moreover have "map (out_value \<circ> snd) (enumerate 0 outputs) = map out_value outputs"
    by (metis map_map map_snd_enumerate)
  ultimately show "utxo_total u' + acc_total acc' = utxo_total u + acc_total acc + nsum (map out_value outputs)"
    using ok by (simp del: map_map)
qed

section \<open>What an input takes\<close>

definition pointer_key :: "utxo_pointer \<Rightarrow> transaction_id \<times> u8" where
  "pointer_key p = (ptr_transaction_id p, ptr_output_index p)"

text \<open>What the witness of an input has to establish in the ledger before the transaction.\<close>

fun authorized :: "ledger_env \<Rightarrow> transaction_id \<Rightarrow> ledger \<Rightarrow> utxo_pointer \<times> witness \<Rightarrow> bool" where
  "authorized env tid l (p, WitnessUtxo sig) \<longleftrightarrow>
     (\<exists>out pk. utxo_map (led_utxos l) (pointer_key p) = Some out \<and> out_value out = ptr_value p \<and>
        address_public_key (out_address out) = Some pk \<and>
        ed25519_verify (env_crypto env) pk sig (hash_as_ref tid))"
| "authorized env tid l (p, WitnessOldUtxo xpub sig) \<longleftrightarrow>
     (\<exists>out. utxo_map (led_oldutxos l) (pointer_key p) = Some out \<and> out_value out = ptr_value p \<and>
        oldaddress_from_xpub (env_legacy env) (out_address out) xpub = (Ok False :: (bool, ledger_error) outcome) \<and>
        bip32_verify (env_crypto env) xpub sig (hash_as_ref tid))"
| "authorized env tid l (p, WitnessAccount sig) \<longleftrightarrow> False"

fun is_old :: "witness \<Rightarrow> bool" where
  "is_old (WitnessOldUtxo _ _) = True"
| "is_old _ = False"

definition spend :: "ledger \<Rightarrow> utxo_pointer \<times> witness \<Rightarrow> ledger \<Rightarrow> bool" where
  "spend l = (\<lambda>(p, w) l'.
     utxo_map (led_utxos l') =
       (if is_old w then utxo_map (led_utxos l) else (utxo_map (led_utxos l))(pointer_key p := None)) \<and>
     utxo_map (led_oldutxos l') =
       (if is_old w then (utxo_map (led_oldutxos l))(pointer_key p := None) else utxo_map (led_oldutxos l)) \<and>
     led_accounts l' = led_accounts l \<and> led_settings l' = led_settings l \<and> led_delegation l' = led_delegation l \<and>
     led_static_params l' = led_static_params l \<and> led_chain_length l' = led_chain_length l \<and>
     ledger_total l' + nval (ptr_value p) = ledger_total l)"

lemma verification_from_Failed [simp]: "verification_from b = Failed \<longleftrightarrow> \<not> b"
  by (simp add: verification_from_def)

lemma input_utxo_verify_Ok:
  assumes "ledger_inv env l" and "input_utxo_verify env l tid p w = Ok l'"
  shows "ledger_inv env l' \<and> authorized env tid l (p, w) \<and> spend l (p, w) l'"
proof (cases w)
  case (WitnessOldUtxo xpub sig)
  with assms(2) obtain u out where rm: "utxo_remove (tid_hash (env_hashers env)) (led_oldutxos l)
      (ptr_transaction_id p) (ptr_output_index p) = Ok (u, out)"
    and l': "l' = l\<lparr>led_oldutxos := u\<rparr>" "ptr_value p = out_value out"
      "oldaddress_from_xpub (env_legacy env) (out_address out) xpub = (Ok False :: (bool, ledger_error) outcome)"
      "bip32_verify (env_crypto env) xpub sig (hash_as_ref tid)"
    by (auto simp: input_utxo_verify_def Let_def split: if_splits)
  have "utxo_inv (tid_hash (env_hashers env)) (led_oldutxos l)" using assms(1) by (simp add: ledger_inv_def)
  from utxo_remove_Ok [OF this rm] l' WitnessOldUtxo assms(1) show ?thesis
    by (simp add: ledger_inv_def spend_def pointer_key_def ledger_total_def)
next
  case (WitnessUtxo sig)
  with assms(2) obtain u out pk where rm: "utxo_remove (tid_hash (env_hashers env)) (led_utxos l)
      (ptr_transaction_id p) (ptr_output_index p) = Ok (u, out)"
    and l': "l' = l\<lparr>led_utxos := u\<rparr>" "ptr_value p = out_value out" "address_public_key (out_address out) = Some pk"
      "ed25519_verify (env_crypto env) pk sig (hash_as_ref tid)"
    by (auto simp: input_utxo_verify_def Let_def split: if_splits)
  have "utxo_inv (tid_hash (env_hashers env)) (led_utxos l)" using assms(1) by (simp add: ledger_inv_def)
  from utxo_remove_Ok [OF this rm] l' WitnessUtxo assms(1) show ?thesis
    by (simp add: ledger_inv_def spend_def pointer_key_def ledger_total_def)
qed (use assms in \<open>simp add: input_utxo_verify_def\<close>)

lemma spending_counter_panics: "tx_id_spending_counter tid c = Panic"
  by (simp add: tx_id_spending_counter_def vec_set_def)

lemma input_account_verify_not_Ok: "input_account_verify env acc tid a v w \<noteq> Ok acc'"
  by (auto simp: input_account_verify_def spending_counter_panics split: witness.splits)

definition input_pointer :: "input \<Rightarrow> utxo_pointer" where
  "input_pointer i =
     \<lparr> ptr_transaction_id = Hash (input_ptr i), ptr_output_index = index_or_account i, ptr_value = input_value i \<rparr>"

lemma apply_input_Ok:
  assumes "ledger_inv env l" and "apply_input env tid (i, w) l = Ok l'"
  shows "input_get_type i = UtxoType \<and> ledger_inv env l' \<and> authorized env tid l (input_pointer i, w) \<and>
    spend l (input_pointer i, w) l'"
proof (cases "input_get_type i")
  case UtxoType
  with assms show ?thesis
    using input_utxo_verify_Ok [of env l tid "input_pointer i" w l']
    by (simp add: apply_input_def input_to_enum_def input_pointer_def)
next
  case AccountType
  with assms(2) show ?thesis
    by (auto simp: apply_input_def input_to_enum_def input_account_verify_not_Ok)
qed

text \<open>What the outputs are after all inputs were taken.\<close>

definition spent_keys :: "bool \<Rightarrow> (input \<times> witness) list \<Rightarrow> (transaction_id \<times> u8) set" where
  "spent_keys old xs = {pointer_key (input_pointer i) | i w. (i, w) \<in> set xs \<and> is_old w = old}"

definition distinct_inputs :: "(input \<times> witness) list \<Rightarrow> bool" where
  "distinct_inputs xs \<longleftrightarrow> distinct (map (\<lambda>(i, w). (is_old w, pointer_key (input_pointer i))) xs)"

lemma spent_keys_Cons [simp]:
  "spent_keys old [] = {}"
  "spent_keys old ((i, w) # xs) =
     (if is_old w = old then {pointer_key (input_pointer i)} else {}) \<union> spent_keys old xs"
  by (auto simp: spent_keys_def)

lemma authorized_after_spend:
  assumes "spend l (p, w) l1" and "authorized env tid l1 (q, v)"
  shows "authorized env tid l (q, v) \<and> (is_old v, pointer_key q) \<noteq> (is_old w, pointer_key p)"
  using assms by (cases v) (auto simp: spend_def split: if_splits)

lemma apply_inputs_Ok:
  assumes "ledger_inv env l" and "fold_outcome (apply_input env tid) xs l = Ok l'"
  shows "ledger_inv env l' \<and>
    (\<forall>(i, w) \<in> set xs. input_get_type i = UtxoType \<and> authorized env tid l (input_pointer i, w)) \<and>
    distinct_inputs xs \<and>
    utxo_map (led_utxos l') = utxo_map (led_utxos l) |` (- spent_keys False xs) \<and>
    utxo_map (led_oldutxos l') = utxo_map (led_oldutxos l) |` (- spent_keys True xs) \<and>
    led_accounts l' = led_accounts l \<and> led_settings l' = led_settings l \<and> led_delegation l' = led_delegation l \<and>
    led_static_params l' = led_static_params l \<and> led_chain_length l' = led_chain_length l \<and>
    ledger_total l' + nsum (map (input_value \<circ> fst) xs) = ledger_total l"
  using assms
proof (induction xs arbitrary: l)
  case Nil
  then show ?case by (simp add: distinct_inputs_def)
next
  case (Cons x xs)
  obtain i w where x: "x = (i, w)" by force
  from Cons.prems(2) x obtain l1 where step: "apply_input env tid (i, w) l = Ok l1"
    and rest: "fold_outcome (apply_input env tid) xs l1 = Ok l'" by auto
  from apply_input_Ok [OF Cons.prems(1) step] have i: "input_get_type i = UtxoType" "ledger_inv env l1"
    "authorized env tid l (input_pointer i, w)" and sp: "spend l (input_pointer i, w) l1" by auto
  note ih = Cons.IH [OF i(2) rest]
  have later: "authorized env tid l (input_pointer j, v) \<and>
      (is_old v, pointer_key (input_pointer j)) \<noteq> (is_old w, pointer_key (input_pointer i))"
    if "(j, v) \<in> set xs" for j v
    using ih that by (intro authorized_after_spend [OF sp]) auto
  have maps: "utxo_map (led_utxos l') = utxo_map (led_utxos l1) |` (- spent_keys False xs)"
      "utxo_map (led_oldutxos l') = utxo_map (led_oldutxos l1) |` (- spent_keys True xs)" using ih by blast+
  have "utxo_map (led_utxos l') = utxo_map (led_utxos l) |` (- spent_keys False (x # xs))"
      "utxo_map (led_oldutxos l') = utxo_map (led_oldutxos l) |` (- spent_keys True (x # xs))"
    unfolding maps using sp x by (rule_tac [!] ext) (auto simp: spend_def restrict_map_def)
  moreover have "distinct_inputs (x # xs)"
    using ih later x by (force simp: distinct_inputs_def)
  moreover have "ptr_value (input_pointer i) = input_value i" by (simp add: input_pointer_def)
  ultimately show ?case using ih sp i later x by (auto simp: spend_def)
qed

lemma apply_transaction_Ok:
  assumes "ledger_inv env l" and "internal_apply_transaction env l dp tid inputs outputs witnesses = Ok l'"
  obtains l1 where "fold_outcome (apply_input env tid) (zip inputs witnesses) l = Ok l1"
    "internal_apply_transaction_output env (led_utxos l1) (led_accounts l1) (led_static_params l1) dp tid outputs =
      Ok (led_utxos l', led_accounts l')"
    "l' = l1\<lparr>led_utxos := led_utxos l', led_accounts := led_accounts l'\<rparr>"
    "inputs \<noteq> []" "length inputs = length witnesses" "length outputs < 255"
  using assms(2) by (auto simp: internal_apply_transaction_def split: if_splits intro: that)

lemma transaction_Ok:
  assumes "ledger_inv env l" and "internal_apply_transaction env l dp tid inputs outputs witnesses = Ok l'"
  shows "ledger_inv env l'" and "inputs \<noteq> []" and "length inputs = length witnesses"
    and "(i, w) \<in> set (zip inputs witnesses) \<Longrightarrow>
      input_get_type i = UtxoType \<and> authorized env tid l (input_pointer i, w)"
    and "distinct_inputs (zip inputs witnesses)"
    and "utxo_map (led_utxos l') =
      (utxo_map (led_utxos l) |` (- spent_keys False (zip inputs witnesses))) ++ created tid outputs"
    and "utxo_map (led_oldutxos l') = utxo_map (led_oldutxos l) |` (- spent_keys True (zip inputs witnesses))"
    and "\<forall>out \<in> set outputs. output_ok (led_static_params l) out"
    and "ledger_total l' + nsum (map input_value inputs) = ledger_total l + nsum (map out_value outputs)"
    and "led_settings l' = led_settings l \<and> led_delegation l' = led_delegation l \<and>
      led_static_params l' = led_static_params l \<and> led_chain_length l' = led_chain_length l"
proof -
  obtain l1 where l1: "fold_outcome (apply_input env tid) (zip inputs witnesses) l = Ok l1"
    "internal_apply_transaction_output env (led_utxos l1) (led_accounts l1) (led_static_params l1) dp tid outputs =
      Ok (led_utxos l', led_accounts l')"
    "l' = l1\<lparr>led_utxos := led_utxos l', led_accounts := led_accounts l'\<rparr>"
    "inputs \<noteq> []" "length inputs = length witnesses" "length outputs < 255"
    by (rule apply_transaction_Ok [OF assms])
  note ins = apply_inputs_Ok [OF assms(1) l1(1)]
  from ins have inv1: "ledger_inv env l1" by blast
  then have "utxo_inv (tid_hash (env_hashers env)) (led_utxos l1)"
    "hamt_inv (account_hash (env_hashers env)) (led_accounts l1)" by (simp_all add: ledger_inv_def)
  note outs = apply_transaction_output_Ok [OF this l1(2)]
  have same: "led_oldutxos l' = led_oldutxos l1" "led_delegation l' = led_delegation l1"
      "led_settings l' = led_settings l1" "led_static_params l' = led_static_params l1"
      "led_chain_length l' = led_chain_length l1"
    by (subst l1(3), simp)+
  show "ledger_inv env l'" using inv1 outs(1,2) same by (simp add: ledger_inv_def)
  have "map (input_value \<circ> fst) (zip inputs witnesses) = map input_value inputs"
    by (metis l1(5) map_fst_zip map_map)
  then have "ledger_total l1 + nsum (map input_value inputs) = ledger_total l" using ins by simp
  then show "ledger_total l' + nsum (map input_value inputs) = ledger_total l + nsum (map out_value outputs)"
    using outs(5) l1(6) same(1) by (simp add: ledger_total_def)
  from same ins show "led_settings l' = led_settings l \<and> led_delegation l' = led_delegation l \<and>
      led_static_params l' = led_static_params l \<and> led_chain_length l' = led_chain_length l" by simp
  show "inputs \<noteq> []" "length inputs = length witnesses" by (fact l1)+
  show "input_get_type i = UtxoType \<and> authorized env tid l (input_pointer i, w)"
    if "(i, w) \<in> set (zip inputs witnesses)" using ins that by blast
  show "distinct_inputs (zip inputs witnesses)" using ins by blast
  show "utxo_map (led_utxos l') =
      (utxo_map (led_utxos l) |` (- spent_keys False (zip inputs witnesses))) ++ created tid outputs"
    using ins outs(4) by simp
  show "utxo_map (led_oldutxos l') = utxo_map (led_oldutxos l) |` (- spent_keys True (zip inputs witnesses))"
    using ins same(1) by simp
  show "\<forall>out \<in> set outputs. output_ok (led_static_params l) out" using ins outs(3) by simp
qed

end
