(* ===== verification/Ledger_Props.thy ===== *)
theory Ledger_Props
  imports Ledger
begin

text \<open>
  Properties of the ledger: what an accepted transaction does, which transactions are accepted, what holds in every
  ledger that a first block and the blocks after it can lead to, and the legacy outputs.
\<close>

section \<open>Which transactions are accepted\<close>

lemma utxo_remove_accept:
  assumes "utxo_inv hs u" and "utxo_map u (t, i) = Some out" and "i \<noteq> 255"
  obtains u' where "utxo_remove hs u t i = Ok (u', out)" "\<And>t'. hamt_map u t' = None \<Longrightarrow> hamt_map u' t' = None"
proof -
  obtain v where "hamt_map u t = Some v" "bt_get (unspent_outputs v) i = Some out"
    using assms(2) by (auto simp: utxo_map_def bind_eq_Some_conv)
  from utxo_remove_present [OF assms(1) this assms(3)] that this(1) show ?thesis
    by (metis fun_upd_other option.distinct(1))
qed

lemma apply_input_accept:
  assumes "ledger_inv env l" and "input_get_type i = UtxoType" and "authorized env tid l (input_pointer i, w)"
  obtains l' where "apply_input env tid (i, w) l = Ok l'"
    "\<And>t. hamt_map (led_utxos l) t = None \<Longrightarrow> hamt_map (led_utxos l') t = None"
proof -
  let ?p = "input_pointer i"
  have idx: "ptr_output_index ?p \<noteq> 255"
    using assms(2) by (auto simp: input_get_type_def input_pointer_def split: if_splits)
  have ap: "apply_input env tid (i, w) l = input_utxo_verify env l tid ?p w"
    using assms(2) by (simp add: apply_input_def input_to_enum_def input_pointer_def)
  show ?thesis
  proof (cases w)
    case (WitnessOldUtxo xpub sig)
    with assms(3) obtain out where out: "utxo_map (led_oldutxos l) (pointer_key ?p) = Some out"
      "out_value out = ptr_value ?p"
      "oldaddress_from_xpub (env_legacy env) (out_address out) xpub = (Ok False :: (bool, ledger_error) outcome)"
      "bip32_verify (env_crypto env) xpub sig (hash_as_ref tid)" by auto
    have inv: "utxo_inv (tid_hash (env_hashers env)) (led_oldutxos l)" using assms(1) by (simp add: ledger_inv_def)
    obtain u where "utxo_remove (tid_hash (env_hashers env)) (led_oldutxos l) (ptr_transaction_id ?p)
        (ptr_output_index ?p) = Ok (u, out)"
      using utxo_remove_accept [OF inv out(1) [unfolded pointer_key_def] idx] by blast
    with WitnessOldUtxo out show ?thesis
      by (intro that [of "l\<lparr>led_oldutxos := u\<rparr>"])
        (simp_all add: ap [unfolded WitnessOldUtxo] input_utxo_verify_def)
  next
    case (WitnessUtxo sig)
    with assms(3) obtain out pk where out: "utxo_map (led_utxos l) (pointer_key ?p) = Some out"
      "out_value out = ptr_value ?p" "address_public_key (out_address out) = Some pk"
      "ed25519_verify (env_crypto env) pk sig (hash_as_ref tid)" by auto
    have inv: "utxo_inv (tid_hash (env_hashers env)) (led_utxos l)" using assms(1) by (simp add: ledger_inv_def)
    obtain u where "utxo_remove (tid_hash (env_hashers env)) (led_utxos l) (ptr_transaction_id ?p)
        (ptr_output_index ?p) = Ok (u, out)" "\<And>t. hamt_map (led_utxos l) t = None \<Longrightarrow> hamt_map u t = None"
      using utxo_remove_accept [OF inv out(1) [unfolded pointer_key_def] idx] by blast
    with WitnessUtxo out show ?thesis
      by (intro that [of "l\<lparr>led_utxos := u\<rparr>"])
        (simp_all add: ap [unfolded WitnessUtxo] input_utxo_verify_def)
  qed (use assms in simp)
qed

lemma authorized_still:
  assumes "spend l (p, w) l1" and "authorized env tid l (q, v)"
    and "(is_old v, pointer_key q) \<noteq> (is_old w, pointer_key p)"
  shows "authorized env tid l1 (q, v)"
  using assms by (cases v) (auto simp: spend_def split: if_splits)

lemma apply_inputs_accept:
  assumes "ledger_inv env l" and "distinct_inputs xs"
    and "\<forall>(i, w) \<in> set xs. input_get_type i = UtxoType \<and> authorized env tid l (input_pointer i, w)"
  shows "\<exists>l'. fold_outcome (apply_input env tid) xs l = Ok l' \<and>
    (\<forall>t. hamt_map (led_utxos l) t = None \<longrightarrow> hamt_map (led_utxos l') t = None)"
  using assms
proof (induction xs arbitrary: l)
  case (Cons x xs)
  obtain i w where x: "x = (i, w)" by force
  with Cons.prems(3) have i: "input_get_type i = UtxoType" "authorized env tid l (input_pointer i, w)" by auto
  obtain l1 where step: "apply_input env tid (i, w) l = Ok l1"
    and keep: "\<And>t. hamt_map (led_utxos l) t = None \<Longrightarrow> hamt_map (led_utxos l1) t = None"
    using apply_input_accept [OF Cons.prems(1) i] by blast
  from apply_input_Ok [OF Cons.prems(1) step] have l1: "ledger_inv env l1" "spend l (input_pointer i, w) l1" by auto
  have fresh: "(is_old w, pointer_key (input_pointer i)) \<notin>
      (\<lambda>(i, w). (is_old w, pointer_key (input_pointer i))) ` set xs"
    using Cons.prems(2) x by (simp add: distinct_inputs_def)
  have "input_get_type j = UtxoType \<and> authorized env tid l1 (input_pointer j, v)" if j: "(j, v) \<in> set xs" for j v
  proof -
    have "(is_old v, pointer_key (input_pointer j)) \<noteq> (is_old w, pointer_key (input_pointer i))"
      using fresh imageI [OF j, of "\<lambda>(i, w). (is_old w, pointer_key (input_pointer i))"] by (simp only: prod.case) metis
    moreover have "authorized env tid l (input_pointer j, v)" "input_get_type j = UtxoType"
      using Cons.prems(3) j by auto
    ultimately show ?thesis using authorized_still [OF l1(2)] by blast
  qed
  then have "\<forall>(j, v) \<in> set xs. input_get_type j = UtxoType \<and> authorized env tid l1 (input_pointer j, v)" by blast
  moreover have "distinct_inputs xs" using Cons.prems(2) by (simp add: distinct_inputs_def)
  ultimately obtain l' where "fold_outcome (apply_input env tid) xs l1 = Ok l'"
      "\<forall>t. hamt_map (led_utxos l1) t = None \<longrightarrow> hamt_map (led_utxos l') t = None"
    using Cons.IH [OF l1(1)] by blast
  with step keep x show ?case by auto
qed simp

lemma apply_outputs_accept:
  assumes "\<forall>(i, out) \<in> set xs. output_ok sp out \<and> \<not> to_account out"
  shows "fold_outcome (apply_output env sp dp) xs (nu, acc) = Ok (nu @ kept_outputs xs, acc)"
  using assms
  by (induction xs arbitrary: nu)
    (auto simp: apply_output_def output_ok_def to_account_def split: kind.splits)

lemma transaction_accept:
  assumes "ledger_inv env l" and "inputs \<noteq> []" and "length inputs < 255" and "length witnesses = length inputs"
    and "\<forall>(i, w) \<in> set (zip inputs witnesses).
      input_get_type i = UtxoType \<and> authorized env tid l (input_pointer i, w)"
    and "distinct_inputs (zip inputs witnesses)" and "nsum (map input_value inputs) < 2 ^ 64"
    and "length outputs < 255" and "\<forall>out \<in> set outputs. output_ok (led_static_params l) out \<and> \<not> to_account out"
    and "hamt_map (led_utxos l) tid = None"
  shows "\<exists>l'. internal_apply_transaction env l dp tid inputs outputs witnesses = Ok l' \<and>
    ledger_total l' + nsum (map input_value inputs) = ledger_total l + nsum (map out_value outputs)"
proof -
  obtain l1 where l1: "fold_outcome (apply_input env tid) (zip inputs witnesses) l = Ok l1"
      "hamt_map (led_utxos l1) tid = None"
    using apply_inputs_accept [OF assms(1,6,5)] assms(10) by blast
  note ins = apply_inputs_Ok [OF assms(1) l1(1)]
  then have "ledger_inv env l1" and sp: "led_static_params l1 = led_static_params l" by blast+
  then have inv: "utxo_inv (tid_hash (env_hashers env)) (led_utxos l1)" by (simp add: ledger_inv_def)
  let ?kept = "kept_outputs (enumerate 0 outputs)"
  have "set outputs = snd ` set (enumerate 0 outputs)" by (metis map_snd_enumerate set_map)
  with assms(9) have "\<forall>(i, out) \<in> set (enumerate 0 outputs). output_ok (led_static_params l) out \<and> \<not> to_account out"
    by auto
  note outs = apply_outputs_accept [OF this, of env dp "[]" "led_accounts l1"]
  have "length ?kept < 255"
    using assms(8) length_filter_le [of _ "enumerate 0 outputs"] by (simp add: kept_outputs_def) (metis le_less_trans length_enumerate)
  then obtain u where "utxo_add (tid_hash (env_hashers env)) (led_utxos l1) tid ?kept = Ok u"
    using hamt_insert_map(2) [OF utxo_invD(1) [OF inv] l1(2), of "TransactionUnspents (bt_from_list ?kept)"]
    by (auto simp: utxo_add_def from_outputs_def)
  then have "internal_apply_transaction_output env (led_utxos l1) (led_accounts l1) (led_static_params l1) dp tid
      outputs = Ok (u, led_accounts l1)"
    using outs by (simp add: internal_apply_transaction_output_def sp)
  then obtain l' where "internal_apply_transaction env l dp tid inputs outputs witnesses = Ok l'"
    using assms l1(1) by (simp add: internal_apply_transaction_def value_sum_eq)
  with transaction_Ok(9) [OF assms(1)] show ?thesis by blast
qed

section \<open>Properties\<close>



definition demo_env :: ledger_env where
  "demo_env =
     \<lparr> env_crypto = demo_crypto, env_legacy = demo_legacy,
       env_hashers = \<lparr> tid_hash = demo_tid_hash, account_hash = (\<lambda>_. 0), stake_hash = demo_hashers \<rparr> \<rparr>"

definition demo_ledger :: ledger where
  "demo_ledger = (ledger_empty static_parameters_default)\<lparr>led_utxos := demo_utxos\<rparr>"

definition demo_params :: ledger_parameters where
  "demo_params = get_ledger_parameters demo_ledger"

definition demo_input :: input where
  "demo_input = \<lparr> index_or_account = 0, input_value = Value 5, input_ptr = 1 \<rparr>"

lemma demo_ledger_inv: "ledger_inv demo_env demo_ledger"
  using demo_utxos_inv ledger_inv_empty(1) [of demo_env static_parameters_default]
  by (simp add: ledger_inv_def demo_env_def demo_ledger_def)

lemma demo_authorized: "authorized demo_env tid demo_ledger (input_pointer demo_input, WitnessUtxo 3)"
proof -
  have "utxo_map demo_utxos (Hash 1, 0) = Some (demo_output 5)"
    by (simp add: utxo_map_def demo_utxos_map bt_get_def)
  then show ?thesis
    by (simp add: demo_ledger_def demo_input_def input_pointer_def pointer_key_def demo_env_def demo_crypto_def)
      (simp add: demo_output_def)
qed

lemmas demo_transaction = demo_ledger_inv demo_authorized

lemma demo_transaction_facts:
  "input_get_type demo_input = UtxoType" "distinct_inputs [(demo_input, WitnessUtxo 3)]"
  "output_ok (led_static_params demo_ledger) (demo_output 100)" "\<not> to_account (demo_output 100)"
  "hamt_map (led_utxos demo_ledger) (Hash 2) = None"
  by (simp_all add: demo_input_def input_get_type_def distinct_inputs_def output_ok_def demo_output_def
      demo_ledger_def ledger_empty_def static_parameters_default_def to_account_def demo_utxos_map value_zero_def)



lemma oldaddress_from_xpub_no_error: "oldaddress_from_xpub lg a xp \<noteq> Err e"
  by (auto simp: oldaddress_from_xpub_def old_address_deconstruct_def extended_addr_new_def
      hashed_spending_data_new_def obind_eq_Err split: option.splits)

lemma apply_input_error: "apply_input env tid (i, w) l = Err e \<Longrightarrow> e \<noteq> NotBalanced a b"
  by (cases w; cases "input_get_type i")
    (auto simp: apply_input_def input_utxo_verify_def input_account_verify_def input_to_enum_def Let_def
      obind_eq_Err oldaddress_from_xpub_no_error spending_counter_panics split: if_splits)

lemma apply_output_error: "apply_output env sp dp x s = Err e \<Longrightarrow> e \<noteq> NotBalanced a b"
  by (auto simp: apply_output_def Let_def obind_eq_Err
      split: prod.splits kind.splits if_splits outcome.splits)

lemma fold_outcome_error:
  assumes "fold_outcome f xs s = Err e" and "\<And>x s e. f x s = Err e \<Longrightarrow> P e"
  shows "P e"
  using assms(1) by (induction xs arbitrary: s) (auto simp: obind_eq_Err dest: assms(2))

text \<open>
  C3: the balance of a transaction is never checked. The step that compares the sum of the inputs with the sum of the
  outputs does not reject any transaction, whatever its outputs are.
\<close>

theorem balance_never_checked:
  "internal_apply_transaction env l dp tid inputs outputs witnesses \<noteq> Err (NotBalanced a b)"
proof
  assume "internal_apply_transaction env l dp tid inputs outputs witnesses = Err (NotBalanced a b)"
  then have "fold_outcome (apply_input env tid) (zip inputs witnesses) l = Err (NotBalanced a b) \<or>
      (\<exists>l1 :: ledger. internal_apply_transaction_output env (led_utxos l1) (led_accounts l1) (led_static_params l1) dp tid
        outputs = Err (NotBalanced a b))"
    by (auto simp: internal_apply_transaction_def obind_eq_Err split: if_splits)
  then consider "fold_outcome (apply_input env tid) (zip inputs witnesses) l = Err (NotBalanced a b)"
    | l1 :: ledger where "internal_apply_transaction_output env (led_utxos l1) (led_accounts l1) (led_static_params l1) dp tid
        outputs = Err (NotBalanced a b)" by blast
  then show False
  proof cases
    case 1
    then show ?thesis using fold_outcome_error [of _ _ _ _ "\<lambda>e. e \<noteq> NotBalanced a b"] apply_input_error by fastforce
  next
    case (2 l1)
    then obtain s where "fold_outcome (apply_output env (led_static_params l1) dp) (enumerate 0 outputs) s =
        Err (NotBalanced a b)"
      by (auto simp: internal_apply_transaction_output_def obind_eq_Err)
    then show ?thesis using fold_outcome_error [of _ _ _ _ "\<lambda>e. e \<noteq> NotBalanced a b"] apply_output_error by fastforce
  qed
qed

text \<open>
  C30: the check of the owner of a legacy output is inverted. The key that a legacy address was made from cannot spend it,
  while any key that the address was not made from can, with a signature of its own.
\<close>

theorem legacy_owner_rejected:
  assumes "ledger_inv env l" and "utxo_map (led_oldutxos l) (pointer_key p) = Some out"
    and "ptr_output_index p \<noteq> 255" and "out_value out = ptr_value p"
    and "extended_addr_new (env_legacy env) ATPubKey (PubKeyASD xpub) attrs = (Ok ea :: (extended_addr, unit) outcome)"
    and "out_address out = extended_to_address (env_legacy env) ea"
    and "cbor_extended_decode (env_legacy env) (cbor_extended_encode (env_legacy env) ea) = Some ea"
  shows "input_utxo_verify env l tid p (WitnessOldUtxo xpub sig) =
      Err (OldUtxoInvalidPublicKey p out (WitnessOldUtxo xpub sig)) \<and>
    (oldaddress_from_xpub (env_legacy env) (out_address out) thief = (Ok False :: (bool, ledger_error) outcome) \<longrightarrow>
     bip32_verify (env_crypto env) thief thief_sig (hash_as_ref tid) \<longrightarrow>
     (\<exists>l'. input_utxo_verify env l tid p (WitnessOldUtxo thief thief_sig) = Ok l' \<and>
       ledger_total l' + nval (out_value out) = ledger_total l))"
proof -
  have inv: "utxo_inv (tid_hash (env_hashers env)) (led_oldutxos l)" using assms(1) by (simp add: ledger_inv_def)
  obtain u where u: "utxo_remove (tid_hash (env_hashers env)) (led_oldutxos l) (ptr_transaction_id p)
      (ptr_output_index p) = Ok (u, out)"
    using utxo_remove_accept [OF inv assms(2) [unfolded pointer_key_def] assms(3)] by blast
  have "oldaddress_from_xpub (env_legacy env) (out_address out) xpub = (Ok True :: (bool, ledger_error) outcome)"
    using oldaddress_from_xpub_own [OF assms(7,5)] assms(6) by simp
  with u assms(4) have "input_utxo_verify env l tid p (WitnessOldUtxo xpub sig) =
      Err (OldUtxoInvalidPublicKey p out (WitnessOldUtxo xpub sig))"
    by (simp add: input_utxo_verify_def)
  moreover have "\<exists>l'. input_utxo_verify env l tid p (WitnessOldUtxo thief thief_sig) = Ok l' \<and>
       ledger_total l' + nval (out_value out) = ledger_total l"
    if "oldaddress_from_xpub (env_legacy env) (out_address out) thief = (Ok False :: (bool, ledger_error) outcome)"
      "bip32_verify (env_crypto env) thief thief_sig (hash_as_ref tid)"
  proof -
    from that u assms(4) obtain l' where l': "input_utxo_verify env l tid p (WitnessOldUtxo thief thief_sig) = Ok l'"
      by (simp add: input_utxo_verify_def)
    from input_utxo_verify_Ok [OF assms(1) l'] l' assms(4) show ?thesis by (auto simp: spend_def)
  qed
  ultimately show ?thesis by blast
qed

definition demo_old_env :: ledger_env where
  "demo_old_env =
     \<lparr> env_crypto = demo_crypto, env_legacy = demo_legacy,
       env_hashers = \<lparr> tid_hash = (\<lambda>_. 0), account_hash = (\<lambda>_. 0), stake_hash = demo_hashers \<rparr> \<rparr>"

definition demo_old_output :: "old_address tx_output" where
  "demo_old_output = \<lparr> out_address = OldAddress (to_be_bytes (7 :: 224 word)), out_value = Value 30 \<rparr>"

definition demo_old_ledger :: ledger where
  "demo_old_ledger = (ledger_empty static_parameters_default)
     \<lparr>led_oldutxos := one_entry (Hash 1) (TransactionUnspents [(0, demo_old_output)])\<rparr>"

lemma demo_old_ledger_inv: "ledger_inv demo_old_env demo_old_ledger"
proof -
  have "utxo_inv (\<lambda>_. 0) (one_entry (Hash 1) (TransactionUnspents [(0, demo_old_output)]))"
    by (rule utxo_invI) (auto split: if_splits)
  with ledger_inv_empty(1) [of demo_old_env static_parameters_default] show ?thesis
    by (simp add: ledger_inv_def demo_old_env_def demo_old_ledger_def)
qed

lemma xpub_root: "(from_be_bytes (to_be_bytes (x :: xpub)) :: 224 word) = ucast x"
proof -
  have "(256 :: nat) ^ 64 = 2 ^ 512" by (simp flip: power_mult)
  then have "unat x mod 256 ^ 64 = unat x" using unat_bound [of x] by simp
  then have "(from_be_bytes (to_be_bytes x) :: 224 word) = word_of_nat (unat x)"
    by (simp only: from_be_bytes_def to_be_bytes_def be_nat_be_bytes) simp
  then show ?thesis by simp
qed

definition demo_old_ea :: extended_addr where
  "demo_old_ea = \<lparr> ea_addr = HashedSpendingData 7, ea_attributes = attributes_bootstrap_era None NoMagic,
     ea_addr_type = ATPubKey \<rparr>"

lemma demo_old_facts:
  "extended_addr_new demo_legacy ATPubKey (PubKeyASD 7) (attributes_bootstrap_era None NoMagic) = Ok demo_old_ea"
  "cbor_extended_decode demo_legacy (cbor_extended_encode demo_legacy demo_old_ea) = Some demo_old_ea"
  "out_address demo_old_output = extended_to_address demo_legacy demo_old_ea"
  "oldaddress_from_xpub demo_legacy (out_address demo_old_output) 8 = Ok False"
proof -
  show "extended_addr_new demo_legacy ATPubKey (PubKeyASD 7) (attributes_bootstrap_era None NoMagic) = Ok demo_old_ea"
    by (simp add: extended_addr_new_def hashed_spending_data_new_def demo_legacy_def demo_old_ea_def xpub_root)
  show dec: "cbor_extended_decode demo_legacy (cbor_extended_encode demo_legacy demo_old_ea) = Some demo_old_ea"
    by (simp add: demo_legacy_def demo_old_ea_def from_to_be_bytes)
  show out: "out_address demo_old_output = extended_to_address demo_legacy demo_old_ea"
    by (simp add: demo_old_output_def extended_to_address_def demo_legacy_def demo_old_ea_def)
  have "cbor_extended_decode demo_legacy (old_address_bytes (out_address demo_old_output)) = Some demo_old_ea"
    using dec by (simp add: out extended_to_address_def)
  then show "oldaddress_from_xpub demo_legacy (out_address demo_old_output) 8 = Ok False"
    by (simp add: oldaddress_from_xpub_iff) (simp add: demo_old_ea_def demo_legacy_def xpub_root)
qed

theorem legacy_owner_rejected_witness:
  "\<exists>l' e. input_utxo_verify demo_old_env demo_old_ledger (Hash 9)
       \<lparr> ptr_transaction_id = Hash 1, ptr_output_index = 0, ptr_value = Value 30 \<rparr> (WitnessOldUtxo 7 7) = Err e \<and>
     input_utxo_verify demo_old_env demo_old_ledger (Hash 9)
       \<lparr> ptr_transaction_id = Hash 1, ptr_output_index = 0, ptr_value = Value 30 \<rparr> (WitnessOldUtxo 8 8) = Ok l'"
proof -
  let ?p = "\<lparr> ptr_transaction_id = Hash 1, ptr_output_index = 0, ptr_value = Value 30 \<rparr>"
  have "utxo_map (led_oldutxos demo_old_ledger) (pointer_key ?p) = Some demo_old_output"
    by (simp add: demo_old_ledger_def pointer_key_def utxo_map_def bt_get_def)
  moreover have "env_legacy demo_old_env = demo_legacy" "bip32_verify (env_crypto demo_old_env) 8 8 msg" for msg
    by (simp_all add: demo_old_env_def demo_crypto_def)
  moreover have "out_value demo_old_output = Value 30" by (simp add: demo_old_output_def)
  ultimately show ?thesis
    using legacy_owner_rejected [OF demo_old_ledger_inv, of ?p demo_old_output 7
        "attributes_bootstrap_era None NoMagic" demo_old_ea "Hash 9" 7 8 8]
    by (auto simp: demo_old_facts(1-3) demo_old_facts(4) [unfolded demo_old_facts(3)])
qed

section \<open>Reachable ledgers\<close>

inductive reachable :: "ledger_env \<Rightarrow> nat \<Rightarrow> ledger \<Rightarrow> bool" for env where
  first_block: "ledger_new env h contents = Ok l \<Longrightarrow> reachable env 0 l"
| next_block: "reachable env n l \<Longrightarrow> apply_block env l dp contents = Ok l' \<Longrightarrow> reachable env (Suc n) l'"

definition outputs_ok :: "ledger \<Rightarrow> bool" where
  "outputs_ok l \<longleftrightarrow> (\<forall>k out. utxo_map (led_utxos l) k = Some out \<longrightarrow>
     output_ok (led_static_params l) out \<and> \<not> to_account out)"

definition good :: "ledger_env \<Rightarrow> ledger \<Rightarrow> bool" where
  "good env l \<longleftrightarrow> ledger_inv env l \<and> outputs_ok l \<and> pools_named (env_crypto env) (delegation_abs (led_delegation l))"

lemma created_ok:
  assumes "created tid outputs k = Some out" and "\<forall>out \<in> set outputs. output_ok sp out"
  shows "output_ok sp out \<and> \<not> to_account out"
proof -
  obtain i where "(i, out) \<in> set (kept_outputs (enumerate 0 outputs))"
    using assms(1) by (cases k) (auto simp: created_def split: if_splits dest!: map_of_SomeD)
  then obtain j where "(j, out) \<in> set (enumerate 0 outputs)" "\<not> to_account out" by (auto simp: kept_outputs_def)
  then show ?thesis using assms(2) by (auto simp: in_set_enumerate_eq)
qed

lemma outputs_ok_created:
  assumes "outputs_ok l" and "\<forall>out \<in> set outputs. output_ok (led_static_params l) out"
    and "utxo_map (led_utxos l') = (utxo_map (led_utxos l) |` S) ++ created tid outputs"
    and "led_static_params l' = led_static_params l"
  shows "outputs_ok l'"
  unfolding outputs_ok_def assms(4)
proof (intro allI impI)
  fix k out
  assume "utxo_map (led_utxos l') k = Some out"
  then consider "created tid outputs k = Some out" | "utxo_map (led_utxos l) k = Some out"
    by (auto simp: assms(3) map_add_Some_iff restrict_map_def split: if_splits)
  then show "output_ok (led_static_params l) out \<and> \<not> to_account out"
  proof cases
    case 1
    then show ?thesis using created_ok assms(2) by blast
  next
    case 2
    then show ?thesis using assms(1) unfolding outputs_ok_def by blast
  qed
qed

lemma transaction_good:
  assumes "good env l" and "internal_apply_transaction env l dp tid inputs outputs witnesses = Ok l'"
  shows "good env l' \<and> led_chain_length l' = led_chain_length l"
proof -
  from assms(1) have inv: "ledger_inv env l" and outs: "outputs_ok l" by (simp_all add: good_def)
  note ok = transaction_Ok [OF inv assms(2)]
  from ok(10) have "outputs_ok l'" by (intro outputs_ok_created [OF outs ok(8,6)]) simp
  with ok(1,10) assms(1) show ?thesis by (simp add: good_def)
qed

lemma certificate_good:
  assumes "good env l"
    and "delegation_apply (env_crypto env) (stake_hash (env_hashers env)) (led_delegation l) c = Ok d"
  shows "good env (l\<lparr>led_delegation := d\<rparr>)"
proof -
  have "delegation_inv (stake_hash (env_hashers env)) (led_delegation l)"
    using assms(1) by (simp add: good_def ledger_inv_def)
  from delegation_apply_spec [OF this, of "env_crypto env" c] assms(2)
  have "delegation_inv (stake_hash (env_hashers env)) d"
    "delegation_spec (env_crypto env) (cert_content c) (delegation_abs (led_delegation l)) = Ok (delegation_abs d)"
    by (simp_all add: refines_def)
  moreover from this assms(1) delegation_spec_named have "pools_named (env_crypto env) (delegation_abs d)"
    unfolding good_def by blast
  ultimately show ?thesis using assms(1) by (simp add: good_def ledger_inv_def outputs_ok_def)
qed

lemma apply_transaction_good:
  assumes "good env l" and "apply_transaction env ser l t dp = Ok l'"
  shows "good env l' \<and> led_chain_length l' = led_chain_length l"
proof -
  obtain tid where "internal_apply_transaction env l dp tid (tx_inputs (auth_tx t)) (tx_outputs (auth_tx t))
      (auth_witnesses t) = Ok l'"
    using assms(2) by (auto simp: apply_transaction_def)
  then show ?thesis by (rule transaction_good [OF assms(1)])
qed

lemma apply_message_good:
  assumes "good env l" and "apply_message env dp m l = Ok l'"
  shows "good env l' \<and> led_chain_length l' = led_chain_length l"
proof (cases m)
  case (MsgTransaction t)
  with assms show ?thesis by (simp add: apply_message_def apply_transaction_good)
next
  case (MsgCertificate t)
  with assms(2) obtain l1 d where l1: "apply_transaction env certificate_serialize l t dp = Ok l1"
    and d: "delegation_apply (env_crypto env) (stake_hash (env_hashers env)) (led_delegation l1)
      (tx_extra (auth_tx t)) = Ok d" and l': "l' = l1\<lparr>led_delegation := d\<rparr>"
    by (auto simp: apply_message_def apply_certificate_def split: if_splits)
  note g = apply_transaction_good [OF assms(1) l1]
  with certificate_good [OF _ d] l' show ?thesis by simp
next
  case (MsgUpdate u)
  with assms show ?thesis
    by (auto simp: apply_message_def apply_update_def good_def ledger_inv_def outputs_ok_def)
qed (use assms in \<open>simp_all add: apply_message_def\<close>)

lemma apply_block_good:
  assumes "good env l" and "apply_block env l dp contents = Ok l'"
  shows "good env l' \<and> chain_length_next (led_chain_length l) = (Ok (led_chain_length l') :: (chain_length, ledger_error) outcome)"
proof -
  obtain n where n: "chain_length_next (led_chain_length l) = (Ok n :: (chain_length, ledger_error) outcome)"
    and f: "fold_outcome (apply_message env dp) contents (l\<lparr>led_chain_length := n\<rparr>) = Ok l'"
    using assms(2) by (auto simp: apply_block_def)
  have "good env (l\<lparr>led_chain_length := n\<rparr>)"
    using assms(1) by (simp add: good_def ledger_inv_def outputs_ok_def)
  then have "good env l' \<and> led_chain_length l' = n"
    by (intro fold_outcome_invariant [OF f, of "\<lambda>l. good env l \<and> led_chain_length l = n"])
      (auto dest: apply_message_good)
  with n show ?thesis by simp
qed

lemma block0_message_good:
  assumes "good env l \<and> led_chain_length l = ChainLength 0" and "block0_message env m (l, dp) = Ok (l', dp')"
  shows "good env l' \<and> led_chain_length l' = ChainLength 0"
proof (cases m)
  case (MsgOldUtxoDeclaration old)
  with assms(2) obtain t outs u where u: "utxo_add (tid_hash (env_hashers env)) (led_oldutxos l) t outs = Ok u"
    and l': "l' = l\<lparr>led_oldutxos := u\<rparr>"
    by (auto simp: block0_message_def apply_old_declaration_def)
  have "utxo_inv (tid_hash (env_hashers env)) (led_oldutxos l)" using assms(1) by (simp add: good_def ledger_inv_def)
  from utxo_add_Ok(1) [OF this u] l' assms(1) show ?thesis by (simp add: good_def ledger_inv_def outputs_ok_def)
next
  case (MsgTransaction t)
  with assms(2) obtain tid u acc where out: "internal_apply_transaction_output env (led_utxos l) (led_accounts l)
      (led_static_params l) dp tid (tx_outputs (auth_tx t)) = Ok (u, acc)"
    and l': "l' = l\<lparr>led_utxos := u, led_accounts := acc\<rparr>"
    by (auto simp: block0_message_def split: if_splits)
  have inv: "utxo_inv (tid_hash (env_hashers env)) (led_utxos l)"
    "hamt_inv (account_hash (env_hashers env)) (led_accounts l)"
    using assms(1) by (simp_all add: good_def ledger_inv_def)
  note ok = apply_transaction_output_Ok [OF inv out]
  have "outputs_ok l'"
    by (rule outputs_ok_created [of l "tx_outputs (auth_tx t)" _ UNIV tid])
      (use assms(1) ok(3,4) l' in \<open>simp_all add: good_def restrict_map_def\<close>)
  with ok(1,2) l' assms(1) show ?thesis by (simp add: good_def ledger_inv_def)
next
  case (MsgCertificate t)
  with assms(2) obtain d where d: "delegation_apply (env_crypto env) (stake_hash (env_hashers env)) (led_delegation l)
      (tx_extra (auth_tx t)) = Ok d" and l': "l' = l\<lparr>led_delegation := d\<rparr>"
    by (auto simp: block0_message_def split: if_splits)
  with certificate_good [OF _ d] assms(1) show ?thesis by simp
next
  case (MsgUpdate u)
  with assms show ?thesis
    by (auto simp: block0_message_def apply_update_def good_def ledger_inv_def outputs_ok_def)
qed (use assms in \<open>simp add: block0_message_def\<close>)

lemma ledger_new_Ok:
  assumes "ledger_new env h contents = Ok l"
  shows "good env l \<and> led_chain_length l = ChainLength 0" and "validate_utxo_total_value l = Ok ()"
proof -
  let ?dp = "\<lparr> param_fees = linear_fee_new 0 0 0, param_allow_account_creation = False \<rparr>"
  obtain sp s where s: "fold_outcome (block0_message env) (tl contents) (ledger_empty sp, ?dp) = Ok s"
    and vs: "(case s of (l', _) \<Rightarrow> obind (validate_utxo_total_value l') (\<lambda>_. Ok l')) = Ok l"
    using assms unfolding ledger_new_def obind_eq_Ok by blast
  obtain dp' where f: "fold_outcome (block0_message env) (tl contents) (ledger_empty sp, ?dp) = Ok (l, dp')"
    and v: "validate_utxo_total_value l = Ok ()"
    using s vs by (cases s) auto
  have base: "good env (ledger_empty sp) \<and> led_chain_length (ledger_empty sp) = ChainLength 0"
    using ledger_inv_empty(1) [of env sp]
    by (simp add: good_def outputs_ok_def ledger_empty_def delegation_inv_new(2) pools_named_def)
  have step: "good env (fst t) \<and> led_chain_length (fst t) = ChainLength 0"
    if "good env (fst s) \<and> led_chain_length (fst s) = ChainLength 0" "block0_message env m s = Ok t" for m s t
    using that block0_message_good [of env "fst s" m "snd s" "fst t" "snd t"] by simp
  have "good env (fst (l, dp')) \<and> led_chain_length (fst (l, dp')) = ChainLength 0"
    by (rule fold_outcome_invariant [OF f, of "\<lambda>s. good env (fst s) \<and> led_chain_length (fst s) = ChainLength 0"])
      (simp add: base, erule step)
  then show "good env l \<and> led_chain_length l = ChainLength 0" by simp
  show "validate_utxo_total_value l = Ok ()" by (fact v)
qed

lemma utxo_iter_total:
  "nsum (map (\<lambda>e. out_value (entry_output e)) (utxo_iter_collect (utxo_iter u))) = utxo_total u"
proof -
  have "nsum (map out_value (map entry_output (concat (map utxo_rows kvs)))) =
      sum_list (map (\<lambda>(_, u). unspents_total u) kvs)" for kvs :: "(transaction_id \<times> 'a unspents) list"
    by (induction kvs) (auto simp: unspents_total_def nsum_def comp_def case_prod_unfold simp flip: map_map,
      simp add: comp_def)
  from this [of "hamt_entries u"] show ?thesis
    by (simp add: utxo_iter_collect_left utxo_iter_left_start utxo_total_def comp_def)
qed


text \<open>
  C29: a first block that is accepted puts less than 2 to the 64 into circulation, counting unspent outputs, legacy
  outputs and accounts together.
\<close>

theorem ledger_new_total:
  assumes "ledger_new env h contents = Ok l"
  shows "ledger_total l < 2 ^ 64"
proof -
  from ledger_new_Ok(2) [OF assms] obtain a v where a: "account_total_value (led_accounts l) = Ok a"
    and v: "value_sum (map (\<lambda>e. out_value (entry_output e)) (utxo_iter_collect (utxo_iter (led_oldutxos l))) @
        map (\<lambda>e. out_value (entry_output e)) (utxo_iter_collect (utxo_iter (led_utxos l))) @ [a]) = Ok v"
    by (auto simp: validate_utxo_total_value_def)
  from a have "nval a = acc_total (led_accounts l)"
    by (auto simp: account_total_value_eq unat_of_nat split: if_splits)
  with v have "nval v = ledger_total l" by (simp add: value_sum_Ok utxo_iter_total ledger_total_def)
  then show ?thesis using nval_bound [of v] by simp
qed

lemma validate_utxo_total_value_Ok: "ledger_total l < 2 ^ 64 \<Longrightarrow> validate_utxo_total_value l = Ok ()"
  by (simp add: validate_utxo_total_value_def account_total_value_eq value_sum_eq utxo_iter_total ledger_total_def
      unat_of_nat)

definition demo_block0 :: "message list" where
  "demo_block0 =
     [MsgInitial (InitialEnts [ConfigConsensusVersion Bft]),
      MsgTransaction
        \<lparr> auth_tx = \<lparr> tx_inputs = [], tx_outputs = [demo_output 5], tx_extra = NoExtra \<rparr>, auth_witnesses = [] \<rparr>]"

lemma demo_ledger_new: "\<exists>l. ledger_new demo_env (Hash 77) demo_block0 = Ok l \<and> ledger_total l = 5"
proof -
  let ?sp = "static_parameters_default\<lparr>block0_consensus := Bft, block0_initial_hash := Hash 77\<rparr>"
  let ?dp = "\<lparr> param_fees = linear_fee_new 0 0 0, param_allow_account_creation = False \<rparr>"
  let ?tx = "\<lparr> tx_inputs = [], tx_outputs = [demo_output 5], tx_extra = NoExtra \<rparr>"
  let ?l = "ledger_empty ?sp"
  obtain tid where tid: "transaction_hash demo_crypto ser_no_extra ?tx = (Ok tid :: (hash, ledger_error) outcome)"
    by (simp add: transaction_hash_def ser_no_extra_def)
  have inv: "utxo_inv demo_tid_hash (utxo_new :: address utxo_ledger)" "hamt_inv (\<lambda>_. 0) account_ledger_new"
    by (simp_all add: account_ledger_new_def)
  obtain u where "utxo_add demo_tid_hash (utxo_new :: address utxo_ledger) tid [(0, demo_output 5)] = Ok u"
    using hamt_insert_map(2) [OF utxo_invD(1) [OF inv(1)], of tid "TransactionUnspents (bt_from_list [(0, demo_output 5)])"]
    by (auto simp: utxo_add_def from_outputs_def utxo_new_def hamt_map_def)
  then have out: "internal_apply_transaction_output demo_env utxo_new account_ledger_new ?sp ?dp tid [demo_output 5] =
      Ok (u, account_ledger_new)"
    by (simp add: internal_apply_transaction_output_def apply_output_def demo_env_def demo_output_def
        static_parameters_default_def value_zero_def)
  let ?l' = "?l\<lparr>led_utxos := u\<rparr>"
  have "utxo_inv (tid_hash (env_hashers demo_env)) (utxo_new :: address utxo_ledger)"
    "hamt_inv (account_hash (env_hashers demo_env)) account_ledger_new" using inv by (simp_all add: demo_env_def)
  from apply_transaction_output_Ok(5) [OF this out] have tot: "ledger_total ?l' = 5"
    by (simp add: ledger_total_def ledger_empty_def demo_output_def)
  have "block0_parameters (Hash 77) (InitialEnts [ConfigConsensusVersion Bft]) = Ok ?sp"
    by (simp add: block0_parameters_def apply_config_def)
  moreover have "env_crypto demo_env = demo_crypto" by (simp add: demo_env_def)
  ultimately have "ledger_new demo_env (Hash 77) demo_block0 = Ok ?l'"
    using tid out validate_utxo_total_value_Ok [of ?l'] tot
    by (simp add: ledger_new_def demo_block0_def block0_message_def ledger_empty_def)
  with tot show ?thesis by blast
qed


theorem ledger_new_total_witness:
  "\<exists>l. ledger_new demo_env (Hash 77) demo_block0 = Ok l \<and> ledger_total l < 2 ^ 64"
  using demo_ledger_new ledger_new_total by blast

end
