(* ===== verification/Leadership.thy ===== *)
theory Leadership
  imports Ledger_Props Complex_Main
begin

text \<open>
  Who may make the next block: \<^verbatim>\<open>leadership/mod.rs\<close>, \<^verbatim>\<open>leadership/none.rs\<close>, \<^verbatim>\<open>leadership/bft.rs\<close>,
  \<^verbatim>\<open>leadership/genesis/mod.rs\<close> and \<^verbatim>\<open>leadership/genesis/vrfeval.rs\<close> of \<^verbatim>\<open>chain-impl-mockchain/src\<close>. Under BFT the
  leaders take turns. Under Genesis Praos a pool is a leader when the output of its verifiable random function passes
  a threshold that depends on its stake. The threshold is a double: the operations on doubles are the fields of the
  record \<open>f64_ops\<close>, so that the definitions follow the code for every rounding and every
  implementation of the power function.
\<close>

section \<open>The threshold of a stake\<close>

record 'f f64_ops =
  f_lit :: "rat \<Rightarrow> 'f"
  f_of_u64 :: "u64 \<Rightarrow> 'f"
  f_div :: "'f \<Rightarrow> 'f \<Rightarrow> 'f"
  f_sub :: "'f \<Rightarrow> 'f \<Rightarrow> 'f"
  f_powf :: "'f \<Rightarrow> 'f \<Rightarrow> 'f"
  f_less :: "'f \<Rightarrow> 'f \<Rightarrow> bool"
  f_le :: "'f \<Rightarrow> 'f \<Rightarrow> bool"

record 'f lead_env =
  lead_ledger :: ledger_env
  lead_curve :: ristretto
  lead_f64 :: "'f f64_ops"

datatype nonce = Nonce (nonce_word: "256 word")

datatype 'f active_slots = F (active_slots: 'f)

datatype 'f threshold = Threshold (threshold_val: 'f)

record percent_stake =
  ps_stake :: val
  ps_total :: val

datatype vrf_input = VrfInput (vrf_input_bytes: bytes)

definition nonce_zero :: nonce where
  "nonce_zero = Nonce 0"

definition active_slots_create :: "'f f64_ops \<Rightarrow> 'f \<Rightarrow> ('f active_slots, 'e) outcome" where
  "active_slots_create fo v = assert_then (f_less fo (f_lit fo 0) v \<and> f_le fo v (f_lit fo 1)) (Ok (F v))"

definition v64_of :: "bytes \<Rightarrow> u64" where
  "v64_of v =
     or (push_bit 56 (ucast (v ! 0))) (or (push_bit 48 (ucast (v ! 1)))
     (or (push_bit 40 (ucast (v ! 2))) (or (push_bit 32 (ucast (v ! 3)))
     (or (push_bit 24 (ucast (v ! 4))) (or (push_bit 16 (ucast (v ! 5)))
     (or (push_bit 8 (ucast (v ! 6))) (ucast (v ! 7))))))))"

definition threshold_from_u256 :: "'f f64_ops \<Rightarrow> bytes \<Rightarrow> ('f threshold, 'e) outcome" where
  "threshold_from_u256 fo v =
     assert_then (length v = 32)
       (Ok (Threshold (f_div fo (f_of_u64 fo (v64_of v)) (f_lit fo 18446744073709551616))))"

definition phi :: "'f f64_ops \<Rightarrow> 'f active_slots \<Rightarrow> percent_stake \<Rightarrow> ('f threshold, 'e) outcome" where
  "phi fo f rs =
     assert_then (amount (ps_stake rs) \<le> amount (ps_total rs))
       (let t = f_div fo (f_of_u64 fo (amount (ps_stake rs))) (f_of_u64 fo (amount (ps_total rs)))
        in Ok (Threshold (f_sub fo (f_lit fo 1) (f_powf fo (f_sub fo (f_lit fo 1) (active_slots f)) t))))"

definition vrf_input_create :: "nonce \<Rightarrow> u32 \<Rightarrow> vrf_input" where
  "vrf_input_create epoch_nonce slotid = VrfInput (to_be_bytes (nonce_word epoch_nonce) @ rev (to_be_bytes slotid))"

definition domain_nonce :: bytes where
  "domain_nonce = [0x4E, 0x4F, 0x4E, 0x43, 0x45]"

definition domain_threshold :: bytes where
  "domain_threshold = [0x54, 0x45, 0x53, 0x54]"

definition get_threshold :: "'f lead_env \<Rightarrow> vrf_input \<Rightarrow> output_seed \<Rightarrow> ('f threshold, 'e) outcome" where
  "get_threshold le inp os =
     (let out = seed_to_output (env_crypto (lead_ledger le)) os (vrf_input_bytes inp) domain_threshold
      in threshold_from_u256 (lead_f64 le) (to_be_bytes out))"

definition get_nonce :: "'f lead_env \<Rightarrow> vrf_input \<Rightarrow> output_seed \<Rightarrow> nonce" where
  "get_nonce le inp os = Nonce (seed_to_output (env_crypto (lead_ledger le)) os (vrf_input_bytes inp) domain_nonce)"

definition above_stake_threshold :: "'f f64_ops \<Rightarrow> 'f threshold \<Rightarrow> percent_stake \<Rightarrow> (bool, 'e) outcome" where
  "above_stake_threshold fo thr stake =
     obind (active_slots_create fo (f_lit fo (1 / 2))) (\<lambda>f.
       obind (phi fo f stake) (\<lambda>p. Ok (f_le fo (threshold_val p) (threshold_val thr))))"

text \<open>The randomness that \<^verbatim>\<open>OsRng\<close> gives is the argument \<open>r\<close>.\<close>

definition vrfeval_evaluate ::
  "'f lead_env \<Rightarrow> percent_stake \<Rightarrow> vrf_secret_key \<Rightarrow> scalar \<Rightarrow> nonce \<Rightarrow> u32 \<Rightarrow> (proven_output_seed option, 'e) outcome" where
  "vrfeval_evaluate le my_stake key r nonce slotid =
     (let inp = vrf_input_create nonce slotid;
          vr = vrf_evaluate (lead_curve le) key r (vrf_input_bytes inp);
          os = proven_u vr
      in obind (get_threshold le inp os) (\<lambda>t.
           obind (above_stake_threshold (lead_f64 le) t my_stake) (\<lambda>above.
             Ok (if above then Some vr else None))))"

definition vrfeval_verify ::
  "'f lead_env \<Rightarrow> percent_stake \<Rightarrow> vrf_public_key \<Rightarrow> nonce \<Rightarrow> u32 \<Rightarrow> proven_output_seed \<Rightarrow> (nonce option, 'e) outcome" where
  "vrfeval_verify le kstake key nonce slotid wit =
     (let inp = vrf_input_create nonce slotid in
      if vrf_verify (lead_curve le) key (vrf_input_bytes inp) wit = VrfSuccess then
        let os = proven_u wit in
        obind (get_threshold le inp os) (\<lambda>t.
          obind (above_stake_threshold (lead_f64 le) t kstake) (\<lambda>above.
            Ok (if above then Some (get_nonce le inp os) else None)))
      else Ok None)"

section \<open>Results of a verification\<close>

datatype error_kind =
    ErrFailure
  | NoLeaderForThisSlot
  | IncompatibleBlockVersion
  | IncompatibleLeadershipMode
  | InvalidLeader
  | InvalidLeaderSignature
  | InvalidBlockMessage
  | InvalidStateUpdate

text \<open>The cause of an error is any other error; only its text can be observed.\<close>

record lead_error =
  err_kind :: error_kind
  err_cause :: "string option"

datatype lead_verification = VerSuccess | VerFailure lead_error

definition lead_error_new :: "error_kind \<Rightarrow> lead_error" where
  "lead_error_new k = \<lparr> err_kind = k, err_cause = None \<rparr>"

definition lead_error_new_cause :: "error_kind \<Rightarrow> string \<Rightarrow> lead_error" where
  "lead_error_new_cause k c = \<lparr> err_kind = k, err_cause = Some c \<rparr>"

fun error_kind_to_string :: "error_kind \<Rightarrow> string" where
  "error_kind_to_string ErrFailure = ''The current state of the leader selection is invalid''"
| "error_kind_to_string NoLeaderForThisSlot = ''No leader available for this block date''"
| "error_kind_to_string IncompatibleBlockVersion = ''The block Version is incompatible with LeaderSelection.''"
| "error_kind_to_string IncompatibleLeadershipMode = ''Incompatible leadership mode (the proof is invalid)''"
| "error_kind_to_string InvalidLeader = ''Block has unexpected block leader''"
| "error_kind_to_string InvalidLeaderSignature = ''Block signature is invalid''"
| "error_kind_to_string InvalidBlockMessage = ''Invalid block message''"
| "error_kind_to_string InvalidStateUpdate = ''Invalid State Update''"

definition lead_error_to_string :: "lead_error \<Rightarrow> string" where
  "lead_error_to_string e =
     (case err_cause e of
        Some cause \<Rightarrow> error_kind_to_string (err_kind e) @ '': '' @ cause
      | None \<Rightarrow> error_kind_to_string (err_kind e))"

definition into_error :: "lead_verification \<Rightarrow> (unit, lead_error) outcome" where
  "into_error v = (case v of VerSuccess \<Rightarrow> Ok () | VerFailure err \<Rightarrow> Err err)"

definition ver_success :: "lead_verification \<Rightarrow> bool" where
  "ver_success v = (case v of VerSuccess \<Rightarrow> True | _ \<Rightarrow> False)"

definition ver_failure :: "lead_verification \<Rightarrow> bool" where
  "ver_failure v = (\<not> ver_success v)"

section \<open>No leadership, and leaders in turn\<close>

definition none_verify :: "header \<Rightarrow> lead_verification" where
  "none_verify h =
     (case hdr_proof h of
        ProofNone \<Rightarrow> VerSuccess
      | _ \<Rightarrow> VerFailure (lead_error_new InvalidLeaderSignature))"

datatype round_robin_index = BftRoundRobinIndex (round_robin: u64)

datatype bft_leader_selection = BftLeaderSelection (sel_leaders: "leader_id list")

definition bft_new :: "ledger \<Rightarrow> bft_leader_selection option" where
  "bft_new l =
     (if length (bft_leaders (led_settings l)) = 0 then None
      else Some (BftLeaderSelection (bft_leaders (led_settings l))))"

definition number_of_leaders :: "bft_leader_selection \<Rightarrow> nat" where
  "number_of_leaders sel = length (sel_leaders sel)"

definition bft_offset :: "bft_leader_selection \<Rightarrow> u64 \<Rightarrow> (round_robin_index, 'e) outcome" where
  "bft_offset sel block_number =
     (let mx = of_nat (number_of_leaders sel) in
      assert_then (mx \<noteq> 0) (Ok (BftRoundRobinIndex (block_number mod mx))))"

definition get_leader_at :: "bft_leader_selection \<Rightarrow> block_date \<Rightarrow> (leader_id, lead_error) outcome" where
  "get_leader_at sel date =
     obind (bft_offset sel (ucast (slot_id date))) (\<lambda>ofs. vec_get (sel_leaders sel) (unat (round_robin ofs)))"

definition bft_verify :: "bft_leader_selection \<Rightarrow> header \<Rightarrow> (lead_verification, 'e) outcome" where
  "bft_verify sel h =
     (case hdr_proof h of
        ProofBft p \<Rightarrow>
          (case get_leader_at sel (com_date (hdr_common h)) of
             Ok leader_at \<Rightarrow>
               if bft_leader_id p \<noteq> leader_at then Ok (VerFailure (lead_error_new InvalidLeader))
               else Ok VerSuccess
           | Err error \<Rightarrow> Ok (VerFailure error)
           | Panic \<Rightarrow> Panic)
      | _ \<Rightarrow> Ok (VerFailure (lead_error_new InvalidLeaderSignature)))"

section \<open>Leaders by stake\<close>

record genesis_leader_selection =
  gls_epoch_nonce :: nonce
  gls_nodes :: "(stake_pool_id, stake_pool_info) hamt"
  gls_distribution :: stake_dist
  gls_epoch :: u32

definition genesis_new :: "ledger_env \<Rightarrow> u32 \<Rightarrow> ledger \<Rightarrow> (genesis_leader_selection, 'e) outcome" where
  "genesis_new env ep l =
     obind (get_stake_distribution env l) (\<lambda>stake_distribution.
       Ok \<lparr> gls_epoch_nonce = nonce_zero, gls_nodes = stake_pools (led_delegation l),
            gls_distribution = stake_distribution, gls_epoch = ep \<rparr>)"

definition genesis_leader_at ::
  "'f lead_env \<Rightarrow> genesis_leader_selection \<Rightarrow> stake_pool_id \<Rightarrow> vrf_secret_key \<Rightarrow> scalar \<Rightarrow> block_date
   \<Rightarrow> (proven_output_seed option, lead_error) outcome" where
  "genesis_leader_at le sel pool_id vrf_key r date =
     (if epoch date \<noteq> gls_epoch sel then Err (lead_error_new ErrFailure)
      else
        let stake_snapshot = gls_distribution sel in
        case get_stake_for stake_snapshot pool_id of
          None \<Rightarrow> Ok None
        | Some stake \<Rightarrow>
            obind (dist_total_stake stake_snapshot) (\<lambda>total_stake.
              if total_stake = value_zero then Err (lead_error_new ErrFailure)
              else
                let percent_stake = \<lparr> ps_stake = stake, ps_total = total_stake \<rparr> in
                obind (vrfeval_evaluate le percent_stake vrf_key r (gls_epoch_nonce sel) (slot_id date)) (\<lambda>vr.
                  case vr of None \<Rightarrow> Ok None | Some vrfout \<Rightarrow> Ok (Some vrfout))))"

definition genesis_verify ::
  "'f lead_env \<Rightarrow> genesis_leader_selection \<Rightarrow> header \<Rightarrow> (lead_verification, 'e) outcome" where
  "genesis_verify le sel h =
     (if epoch (com_date (hdr_common h)) \<noteq> gls_epoch sel then Ok (VerFailure (lead_error_new ErrFailure))
      else
        let stake_snapshot = gls_distribution sel in
        case hdr_proof h of
          ProofGenesisPraos p \<Rightarrow>
            let node_id = praos_node_id p in
            obind (hamt_lookup (pool_id_hash (stake_hash (env_hashers (lead_ledger le)))) (gls_nodes sel) node_id)
              (\<lambda>node.
                case (get_stake_for stake_snapshot node_id, node) of
                  (Some stake, Some pool_info) \<Rightarrow>
                    obind (dist_total_stake stake_snapshot) (\<lambda>total_stake.
                      let percent_stake = \<lparr> ps_stake = stake, ps_total = total_stake \<rparr> in
                      obind (vrfeval_verify le percent_stake (vrf_public_key (pool_initial_key pool_info))
                          (gls_epoch_nonce sel) (slot_id (com_date (hdr_common h))) (praos_vrf_proof p)) (\<lambda>_.
                        obind (verify_signature (env_crypto (lead_ledger le)) (praos_kes_proof p)
                            (kes_public_key (pool_initial_key pool_info))
                            (Ok (common_serialize (hdr_common h)) :: (bytes, unit) outcome)) (\<lambda>valid.
                          if valid = Failed then Ok (VerFailure (lead_error_new InvalidLeaderSignature))
                          else Ok VerSuccess)))
                | _ \<Rightarrow> Ok (VerFailure (lead_error_new InvalidBlockMessage)))
        | _ \<Rightarrow> Ok (VerFailure (lead_error_new InvalidLeaderSignature)))"

section \<open>The leadership of an epoch\<close>

datatype bft_leader = BftLeader (bft_sig_key: spending_secret_key)

record genesis_leader =
  gen_node_id :: stake_pool_id
  gen_sig_key :: kes_secret_key
  gen_vrf_key :: vrf_secret_key

record leader =
  lead_bft :: "bft_leader option"
  lead_genesis :: "genesis_leader option"

datatype leader_output = OutNone | OutBft leader_id | OutGenesisPraos proven_output_seed

datatype leadership_consensus =
    LeadNone
  | LeadBft bft_leader_selection
  | LeadGenesisPraos genesis_leader_selection

datatype leadership = Leadership (lead_inner: leadership_consensus)

definition verify_version :: "leadership_consensus \<Rightarrow> any_block_version \<Rightarrow> lead_verification" where
  "verify_version lc block_version =
     (case lc of
        LeadNone \<Rightarrow>
          if any_version_eq block_version Genesis then VerSuccess
          else VerFailure (lead_error_new IncompatibleBlockVersion)
      | LeadBft _ \<Rightarrow>
          if any_version_eq block_version Ed25519Signed then VerSuccess
          else VerFailure (lead_error_new IncompatibleBlockVersion)
      | _ \<Rightarrow> VerFailure (lead_error_new IncompatibleBlockVersion))"

definition verify_leader ::
  "'f lead_env \<Rightarrow> leadership_consensus \<Rightarrow> header \<Rightarrow> (lead_verification, 'e) outcome" where
  "verify_leader le lc h =
     (case lc of
        LeadNone \<Rightarrow> Ok (none_verify h)
      | LeadBft bft \<Rightarrow> bft_verify bft h
      | LeadGenesisPraos genesis_praos \<Rightarrow> genesis_verify le genesis_praos h)"

definition is_leader ::
  "'f lead_env \<Rightarrow> leadership_consensus \<Rightarrow> leader \<Rightarrow> scalar \<Rightarrow> block_date \<Rightarrow> (leader_output, lead_error) outcome" where
  "is_leader le lc leader r date =
     (case lc of
        LeadNone \<Rightarrow> Ok OutNone
      | LeadBft bft \<Rightarrow>
          (case lead_bft leader of
             Some bl \<Rightarrow>
               obind (get_leader_at bft date) (\<lambda>bft_leader_id.
                 if bft_leader_id = LeaderId (ed25519_public (env_crypto (lead_ledger le)) (bft_sig_key bl))
                 then Ok (OutBft bft_leader_id) else Ok OutNone)
           | None \<Rightarrow> Ok OutNone)
      | LeadGenesisPraos genesis_praos \<Rightarrow>
          (case lead_genesis leader of
             None \<Rightarrow> Ok OutNone
           | Some gl \<Rightarrow>
               (case genesis_leader_at le genesis_praos (gen_node_id gl) (gen_vrf_key gl) r date of
                  Ok (Some wit) \<Rightarrow> Ok (OutGenesisPraos wit)
                | Panic \<Rightarrow> Panic
                | _ \<Rightarrow> Ok OutNone)))"

definition leadership_new :: "ledger_env \<Rightarrow> u32 \<Rightarrow> ledger \<Rightarrow> (leadership, 'e) outcome" where
  "leadership_new env ep l =
     (case consensus_version (led_settings l) of
        Bft \<Rightarrow> obind (unwrap_opt (bft_new l)) (\<lambda>bft. Ok (Leadership (LeadBft bft)))
      | GenesisPraos \<Rightarrow>
          obind (genesis_new env ep l) (\<lambda>genesis. Ok (Leadership (LeadGenesisPraos genesis))))"

definition leadership_verify :: "'f lead_env \<Rightarrow> leadership \<Rightarrow> header \<Rightarrow> (lead_verification, 'e) outcome" where
  "leadership_verify le ls h =
     (let v = verify_version (lead_inner ls) (com_version (hdr_common h)) in
      if ver_failure v then Ok v
      else
        obind (verify_leader le (lead_inner ls) h) (\<lambda>v.
          if ver_failure v then Ok v else Ok VerSuccess))"

definition is_leader_for_date ::
  "'f lead_env \<Rightarrow> leadership \<Rightarrow> leader \<Rightarrow> scalar \<Rightarrow> block_date \<Rightarrow> (leader_output, lead_error) outcome" where
  "is_leader_for_date le ls leader r date = is_leader le (lead_inner ls) leader r date"

section \<open>Leaders in turn\<close>

definition turn :: "leader_id list \<Rightarrow> block_date \<Rightarrow> leader_id" where
  "turn ls date = ls ! (unat (slot_id date) mod length ls)"

lemma get_leader_at_turn:
  assumes "sel_leaders sel \<noteq> []" and "length (sel_leaders sel) < 2 ^ 64"
  shows "get_leader_at sel date = Ok (turn (sel_leaders sel) date)"
proof -
  let ?n = "length (sel_leaders sel)"
  have n: "unat (of_nat ?n :: u64) = ?n" using assms(2) by (simp add: unat_of_nat)
  then have "(of_nat ?n :: u64) \<noteq> 0" using assms(1) by (metis length_0_conv unat_0)
  moreover have slot: "unat (ucast (slot_id date) :: u64) = unat (slot_id date)"
    by (simp add: unsigned_ucast_eq take_bit_nat_eq_self_iff less_le_trans [OF unsigned_less])
  then have "unat (ucast (slot_id date) mod (of_nat ?n :: u64)) = unat (slot_id date) mod ?n"
    using slot by (simp add: unat_mod n)
  ultimately show ?thesis
    using assms(1)
    by (simp add: get_leader_at_def bft_offset_def number_of_leaders_def Let_def assert_then_def vec_get_def turn_def)
qed

lemma map_turns:
  assumes "ls \<noteq> []"
  shows "map (\<lambda>k. ls ! (k mod length ls)) [s ..< s + length ls] = rotate s ls"
  by (rule nth_equalityI) (simp_all add: nth_rotate)

lemma mset_rotate: "mset (rotate s ls) = mset ls"
proof -
  have "mset ls = mset (take (s mod length ls) ls @ drop (s mod length ls) ls)" by simp
  also have "\<dots> = mset (rotate s ls)" unfolding rotate_drop_take mset_append by (rule add.commute)
  finally show ?thesis by simp
qed

lemma bft_block_header:
  assumes "make_bft_block cr sk bb = Ok b"
  shows "com_version (hdr_common (blk_header b)) = Supported Ed25519Signed"
    and "com_date (hdr_common (blk_header b)) = com_date (bb_common bb)"
    and "\<exists>sig. hdr_proof (blk_header b) =
      ProofBft \<lparr> bft_leader_id = LeaderId (ed25519_public cr sk), bft_signature = sig \<rparr>"
  using assms
  by (auto simp: make_bft_block_def finalize_common_def make_block_def assert_then_def obind_eq_Ok split: if_splits prod.splits)

lemma praos_block_header:
  assumes "make_genesis_praos_block cr node kes w bb = Ok b"
  shows "com_version (hdr_common (blk_header b)) = Supported KesVrfproof"
    and "com_date (hdr_common (blk_header b)) = com_date (bb_common bb)"
    and "hdr_proof (blk_header b) = ProofGenesisPraos \<lparr> praos_node_id = node, praos_vrf_proof = w,
      praos_kes_proof = mmm_sign cr kes (common_serialize (hdr_common (blk_header b))) \<rparr>"
  using assms
  by (auto simp: make_genesis_praos_block_def finalize_common_def make_block_def assert_then_def obind_eq_Ok
      make_signature_update_def unwrap_def split: if_splits prod.splits)


text \<open>
  C32: under BFT the signature of a block is never looked at: replacing it by any other signature changes nothing in the
  verification, although the error for an invalid signature exists.
\<close>

theorem bft_signature_ignored:
  "leadership_verify le (Leadership (LeadBft sel)) (h\<lparr>hdr_proof := ProofBft (p\<lparr>bft_signature := sig\<rparr>)\<rparr>) =
   leadership_verify le (Leadership (LeadBft sel)) (h\<lparr>hdr_proof := ProofBft p\<rparr>)"
  by (simp add: leadership_verify_def verify_leader_def bft_verify_def Let_def cong: outcome.case_cong)

section \<open>Leaders by stake: lemmas\<close>

text \<open>The number that is compared is made of the first eight bytes of the hash, from left to right.\<close>

lemma to_be_bytes_nth: "i < 32 \<Longrightarrow> to_be_bytes (w :: 256 word) ! i = ucast (drop_bit (8 * (31 - i)) w)"
proof -
  assume "i < 32"
  moreover have "unat w div 256 ^ j = unat (drop_bit (8 * j) w)" for j
    by (simp add: unat_drop_bit_eq) (simp add: drop_bit_eq_div power_mult)
  ultimately show ?thesis
    by (simp add: to_be_bytes_def be_bytes_def rev_nth unsigned_of_nat)
qed

lemma bit_push_byte:
  "bit (push_bit (8 * k) (ucast (b :: u8)) :: u64) n \<longleftrightarrow> n < 64 \<and> n div 8 = k \<and> bit b (n mod 8)"
proof (cases "n div 8 = k")
  case True
  then have "8 * k \<le> n" "n - 8 * k = n mod 8" by (simp_all add: minus_mult_div_eq_mod mult.commute flip: True)
  with True show ?thesis by (auto simp: bit_simps)
next
  case False
  have *: "j * 8 \<le> n \<longleftrightarrow> j \<le> n div 8" for j by (simp add: less_eq_div_iff_mult_less_eq)
  from False have "8 * k \<le> n \<Longrightarrow> 8 \<le> n - 8 * k" using * [of k] * [of "Suc k"] by linarith
  then show ?thesis using False by (auto simp: bit_simps dest: bit_imp_le_length)
qed

lemma v64_of_to_be_bytes: "v64_of (to_be_bytes (w :: 256 word)) = ucast (drop_bit 192 w)"
proof (rule bit_word_eqI)
  fix n assume "n < LENGTH(64)"
  then have n: "n < 64" by simp
  have bytes: "v64_of v =
     or (push_bit (8 * 7) (ucast (v ! 0))) (or (push_bit (8 * 6) (ucast (v ! 1)))
     (or (push_bit (8 * 5) (ucast (v ! 2))) (or (push_bit (8 * 4) (ucast (v ! 3)))
     (or (push_bit (8 * 3) (ucast (v ! 4))) (or (push_bit (8 * 2) (ucast (v ! 5)))
     (or (push_bit (8 * 1) (ucast (v ! 6))) (push_bit (8 * 0) (ucast (v ! 7)))))))))" for v
    by (simp add: v64_of_def)
  define k where "k = n div 8"
  have "k < 8" using n by (simp add: k_def div_less_iff_less_mult)
  then have k: "n div 8 = k" "k = 0 \<or> k = 1 \<or> k = 2 \<or> k = 3 \<or> k = 4 \<or> k = 5 \<or> k = 6 \<or> k = 7" "192 + n = 192 + 8 * k + n mod 8"
    unfolding k_def by (simp, linarith, simp)
  have "bit (v64_of (to_be_bytes w)) n \<longleftrightarrow> bit (to_be_bytes w ! (7 - k)) (n mod 8)"
    unfolding bytes bit_or_iff bit_push_byte k(1) using k(2) n by (elim disjE) simp_all
  also have "\<dots> \<longleftrightarrow> bit w (192 + n)"
    unfolding k(3) using k(2) by (elim disjE) (simp_all add: to_be_bytes_nth bit_simps)
  also have "\<dots> \<longleftrightarrow> bit (ucast (drop_bit 192 w) :: u64) n" using n by (simp add: bit_simps)
  finally show "bit (v64_of (to_be_bytes w)) n \<longleftrightarrow> bit (ucast (drop_bit 192 w) :: u64) n" .
qed

lemma leadership_verify_praos:
  "leadership_verify le (Leadership (LeadGenesisPraos sel)) h =
     Ok (VerFailure (lead_error_new IncompatibleBlockVersion))"
  by (simp add: leadership_verify_def verify_version_def ver_failure_def ver_success_def)

text \<open>Both functions compare two numbers, and panic only on a stake above the total.\<close>

definition seed_threshold :: "'f lead_env \<Rightarrow> vrf_input \<Rightarrow> output_seed \<Rightarrow> 'f" where
  "seed_threshold le inp os =
     f_div (lead_f64 le)
       (f_of_u64 (lead_f64 le) (v64_of (to_be_bytes
         (seed_to_output (env_crypto (lead_ledger le)) os (vrf_input_bytes inp) domain_threshold))))
       (f_lit (lead_f64 le) 18446744073709551616)"

definition stake_threshold :: "'f f64_ops \<Rightarrow> percent_stake \<Rightarrow> 'f" where
  "stake_threshold fo st =
     f_sub fo (f_lit fo 1) (f_powf fo (f_sub fo (f_lit fo 1) (f_lit fo (1 / 2)))
       (f_div fo (f_of_u64 fo (amount (ps_stake st))) (f_of_u64 fo (amount (ps_total st)))))"

definition stake_fits :: "'f f64_ops \<Rightarrow> percent_stake \<Rightarrow> bool" where
  "stake_fits fo st \<longleftrightarrow>
     f_less fo (f_lit fo 0) (f_lit fo (1 / 2)) \<and> f_le fo (f_lit fo (1 / 2)) (f_lit fo 1) \<and>
     amount (ps_stake st) \<le> amount (ps_total st)"

lemma get_threshold_eq: "get_threshold le inp os = Ok (Threshold (seed_threshold le inp os))"
  by (simp add: get_threshold_def threshold_from_u256_def assert_then_def seed_threshold_def)

lemma above_stake_threshold_eq:
  "above_stake_threshold fo (Threshold t) st = (if stake_fits fo st then Ok (f_le fo (stake_threshold fo st) t) else Panic)"
  by (simp add: above_stake_threshold_def active_slots_create_def phi_def Let_def assert_then_def stake_fits_def
      stake_threshold_def)

lemma vrfeval_evaluate_eq:
  "vrfeval_evaluate le st key r nonce slotid =
     (let inp = vrf_input_create nonce slotid; vr = vrf_evaluate (lead_curve le) key r (vrf_input_bytes inp)
      in if stake_fits (lead_f64 le) st then
           Ok (if f_le (lead_f64 le) (stake_threshold (lead_f64 le) st) (seed_threshold le inp (proven_u vr))
               then Some vr else None)
         else Panic)"
  by (simp add: vrfeval_evaluate_def get_threshold_eq above_stake_threshold_eq Let_def)

lemma vrfeval_verify_eq:
  "vrfeval_verify le st key nonce slotid w =
     (let inp = vrf_input_create nonce slotid in
      if vrf_verify (lead_curve le) key (vrf_input_bytes inp) w = VrfSuccess then
        if stake_fits (lead_f64 le) st then
          Ok (if f_le (lead_f64 le) (stake_threshold (lead_f64 le) st) (seed_threshold le inp (proven_u w))
              then Some (get_nonce le inp (proven_u w)) else None)
        else Panic
      else Ok None)"
  by (simp add: vrfeval_verify_def get_threshold_eq above_stake_threshold_eq Let_def)

lemma vrfeval_verify_evaluate:
  assumes "\<And>p s t. point_mul (lead_curve le) p (scalar_add (lead_curve le) s t) =
      point_add (lead_curve le) (point_mul (lead_curve le) p s) (point_mul (lead_curve le) p t)"
    and "\<And>p s t. point_mul (lead_curve le) p (scalar_mul (lead_curve le) s t) =
      point_mul (lead_curve le) (point_mul (lead_curve le) p s) t"
    and "\<And>p q. point_sub (lead_curve le) (point_add (lead_curve le) p q) q = p"
    and "sk = vrf_secret_random (lead_curve le) s"
    and "vrfeval_evaluate le st sk r nonce slotid = (Ok (Some w) :: (proven_output_seed option, 'd) outcome)"
  shows "vrfeval_verify le st (vrf_to_public sk) nonce slotid w =
    (Ok (Some (get_nonce le (vrf_input_create nonce slotid) (proven_u w))) :: (nonce option, 'e) outcome)"
  using vrf_evaluate_verifies [OF assms(1-4), of "vrf_input_bytes (vrf_input_create nonce slotid)" r] assms(5)
  by (auto simp: vrfeval_evaluate_eq vrfeval_verify_eq Let_def split: if_splits)

lemma genesis_leader_at_Some:
  "genesis_leader_at le sel node key r date = Ok (Some w) \<longleftrightarrow>
     epoch date = gls_epoch sel \<and>
     (\<exists>stake tot. get_stake_for (gls_distribution sel) node = Some stake \<and>
       dist_total_stake (gls_distribution sel) = (Ok tot :: (val, lead_error) outcome) \<and> tot \<noteq> value_zero \<and>
       vrfeval_evaluate le \<lparr> ps_stake = stake, ps_total = tot \<rparr> key r (gls_epoch_nonce sel) (slot_id date) =
         (Ok (Some w) :: (proven_output_seed option, lead_error) outcome))"
  by (auto simp: genesis_leader_at_def Let_def obind_eq_Ok split: if_splits option.splits)

lemma dist_total_stake_any:
  "dist_total_stake ds = (Ok tot :: (val, 'd) outcome) \<Longrightarrow> dist_total_stake ds = (Ok tot :: (val, 'e) outcome)"
  by (simp add: dist_total_stake_eq)

lemma genesis_verify_eq:
  assumes "hdr_proof h = ProofGenesisPraos p" and "epoch (com_date (hdr_common h)) = gls_epoch sel"
    and "hamt_inv (pool_id_hash (stake_hash (env_hashers (lead_ledger le)))) (gls_nodes sel)"
    and "hamt_map (gls_nodes sel) (praos_node_id p) = Some pool"
    and "get_stake_for (gls_distribution sel) (praos_node_id p) = Some stake"
    and "dist_total_stake (gls_distribution sel) = (Ok tot :: (val, 'd) outcome)"
    and "vrfeval_verify le \<lparr> ps_stake = stake, ps_total = tot \<rparr> (vrf_public_key (pool_initial_key pool))
      (gls_epoch_nonce sel) (slot_id (com_date (hdr_common h))) (praos_vrf_proof p) = (Ok v :: (nonce option, 'e) outcome)"
  shows "genesis_verify le sel h =
    (Ok (if ed25519_verify (env_crypto (lead_ledger le)) (kes_public_key (pool_initial_key pool)) (praos_kes_proof p)
             (common_serialize (hdr_common h))
         then VerSuccess else VerFailure (lead_error_new InvalidLeaderSignature)) :: (lead_verification, 'e) outcome)"
  using assms(1,2,4,5,7) dist_total_stake_any [OF assms(6), where 'e = 'e]
  by (simp add: genesis_verify_def Let_def hamt_lookup_eq [OF assms(3)] hamt_map_def verify_signature_def
      verification_from_def)

text \<open>
  C31: under Genesis Praos the block of an elected leader passes the check of its leader and is refused all the same. When
  a registered pool is told to be the leader of a slot and makes a block for it with the keys of
  the pool, the verification of the selection accepts the block; but the version of the block is compatible with no
  leadership by stake, and the verification of the leadership always fails.
\<close>

theorem praos_elected_rejected:
  assumes "\<And>p s t. point_mul (lead_curve le) p (scalar_add (lead_curve le) s t) =
      point_add (lead_curve le) (point_mul (lead_curve le) p s) (point_mul (lead_curve le) p t)"
    and "\<And>p s t. point_mul (lead_curve le) p (scalar_mul (lead_curve le) s t) =
      point_mul (lead_curve le) (point_mul (lead_curve le) p s) t"
    and "\<And>p q. point_sub (lead_curve le) (point_add (lead_curve le) p q) q = p"
    and "\<And>sk msg. ed25519_verify cr (mmm_public cr sk) (mmm_sign cr sk msg) msg"
    and "sk = vrf_secret_random (lead_curve le) s" and "env_crypto (lead_ledger le) = cr"
    and "hamt_inv (pool_id_hash (stake_hash (env_hashers (lead_ledger le)))) (gls_nodes sel)"
    and "hamt_map (gls_nodes sel) node = Some pool"
    and "pool_initial_key pool = \<lparr> kes_public_key = mmm_public cr kes, vrf_public_key = vrf_to_public sk \<rparr>"
    and "genesis_leader_at le sel node sk r date = Ok (Some w)"
    and "make_genesis_praos_block cr node kes w bb = Ok b" and "com_date (bb_common bb) = date"
  shows "genesis_verify le sel (blk_header b) = (Ok VerSuccess :: (lead_verification, 'e) outcome) \<and>
    leadership_verify le (Leadership (LeadGenesisPraos sel)) (blk_header b) =
      (Ok (VerFailure (lead_error_new IncompatibleBlockVersion)) :: (lead_verification, 'e) outcome)"
proof -
  obtain stake tot where elected: "epoch date = gls_epoch sel" "get_stake_for (gls_distribution sel) node = Some stake"
      "dist_total_stake (gls_distribution sel) = (Ok tot :: (val, lead_error) outcome)"
      "vrfeval_evaluate le \<lparr> ps_stake = stake, ps_total = tot \<rparr> sk r (gls_epoch_nonce sel) (slot_id date) =
         (Ok (Some w) :: (proven_output_seed option, lead_error) outcome)"
    using assms(10) unfolding genesis_leader_at_Some by blast
  have "genesis_verify le sel (blk_header b) = (Ok VerSuccess :: (lead_verification, 'e) outcome)"
    using genesis_verify_eq [OF praos_block_header(3) [OF assms(11)] _ assms(7) _ _ elected(3), of pool stake,
        where 'e = 'e]
      vrfeval_verify_evaluate [OF assms(1-3,5) elected(4), where 'e = 'e] praos_block_header(2) [OF assms(11)]
      assms(4,6,8,9,12) elected(1,2) by simp
  then show ?thesis by (simp add: leadership_verify_praos)
qed

text \<open>
  The verification by stake does not look at the result of the verifiable random function. A registered pool with a
  stake that signs its block is accepted in every slot of the epoch, elected or not, with any proof.
\<close>

theorem praos_vrf_ignored:
  assumes "hdr_proof h = ProofGenesisPraos p" and "epoch (com_date (hdr_common h)) = gls_epoch sel"
    and "hamt_inv (pool_id_hash (stake_hash (env_hashers (lead_ledger le)))) (gls_nodes sel)"
    and "hamt_map (gls_nodes sel) (praos_node_id p) = Some pool"
    and "get_stake_for (gls_distribution sel) (praos_node_id p) = Some stake"
    and "dist_total_stake (gls_distribution sel) = (Ok tot :: (val, 'd) outcome)"
    and "stake_fits (lead_f64 le) \<lparr> ps_stake = stake, ps_total = tot \<rparr>"
    and "ed25519_verify (env_crypto (lead_ledger le)) (kes_public_key (pool_initial_key pool)) (praos_kes_proof p)
           (common_serialize (hdr_common h))"
  shows "genesis_verify le sel (h\<lparr>hdr_proof := ProofGenesisPraos (p\<lparr>praos_vrf_proof := any\<rparr>)\<rparr>) =
    (Ok VerSuccess :: (lead_verification, 'e) outcome)"
proof -
  have "\<exists>v. vrfeval_verify le \<lparr> ps_stake = stake, ps_total = tot \<rparr> key nonce slotid any = (Ok v :: (nonce option, 'e) outcome)"
    for key nonce slotid
    using assms(7) by (simp add: vrfeval_verify_eq Let_def)
  then obtain v where "vrfeval_verify le \<lparr> ps_stake = stake, ps_total = tot \<rparr> (vrf_public_key (pool_initial_key pool))
      (gls_epoch_nonce sel) (slot_id (com_date (hdr_common h))) any = (Ok v :: (nonce option, 'e) outcome)" by blast
  with assms show ?thesis
    using genesis_verify_eq [of "h\<lparr>hdr_proof := ProofGenesisPraos (p\<lparr>praos_vrf_proof := any\<rparr>)\<rparr>"
        "p\<lparr>praos_vrf_proof := any\<rparr>" sel le pool stake tot v, where 'd = 'd and 'e = 'e] by simp
qed

text \<open>
  What is used of doubles: conversion, division by a positive number, subtraction and the power of a base below one are
  monotone, as rounding is, and the comparison is transitive.
\<close>

definition f64_monotone :: "'f f64_ops \<Rightarrow> bool" where
  "f64_monotone fo \<longleftrightarrow>
     (\<forall>x y z. f_le fo x y \<longrightarrow> f_le fo y z \<longrightarrow> f_le fo x z) \<and>
     (\<forall>a b. a \<le> b \<longrightarrow> f_le fo (f_of_u64 fo a) (f_of_u64 fo b)) \<and>
     (\<forall>x y n. n \<noteq> 0 \<longrightarrow> f_le fo x y \<longrightarrow> f_le fo (f_div fo x (f_of_u64 fo n)) (f_div fo y (f_of_u64 fo n))) \<and>
     (\<forall>x y z. f_le fo x y \<longrightarrow> f_le fo (f_sub fo z y) (f_sub fo z x)) \<and>
     (\<forall>x y. f_le fo x y \<longrightarrow>
        f_le fo (f_powf fo (f_sub fo (f_lit fo 1) (f_lit fo (1 / 2))) y)
          (f_powf fo (f_sub fo (f_lit fo 1) (f_lit fo (1 / 2))) x))"

lemma f64_le_trans: "f64_monotone fo \<Longrightarrow> f_le fo x y \<Longrightarrow> f_le fo y z \<Longrightarrow> f_le fo x z"
  unfolding f64_monotone_def by (elim conjE) meson

lemma stake_threshold_mono:
  assumes "f64_monotone fo" and "a \<le> b" and "amount n \<noteq> 0"
  shows "f_le fo (stake_threshold fo \<lparr> ps_stake = Value a, ps_total = n \<rparr>)
    (stake_threshold fo \<lparr> ps_stake = Value b, ps_total = n \<rparr>)"
  using assms unfolding f64_monotone_def stake_threshold_def by simp


section \<open>Examples\<close>

text \<open>Exact arithmetic has the properties that are asked of doubles.\<close>

definition exact_f64 :: "real f64_ops" where
  "exact_f64 =
     \<lparr> f_lit = of_rat, f_of_u64 = (\<lambda>w. real (unat w)), f_div = (/), f_sub = (-), f_powf = (powr),
       f_less = (<), f_le = (\<le>) \<rparr>"

lemma exact_f64_monotone: "f64_monotone exact_f64"
proof -
  have "(1 / 2 :: real) powr y \<le> (1 / 2) powr x" if "x \<le> y" for x y :: real
    using that by (simp add: powr_mono')
  then show ?thesis
    by (auto simp: f64_monotone_def exact_f64_def of_rat_divide divide_right_mono word_le_nat_alt simp del: of_nat_unat)
qed

lemma exact_stake_fits: "a \<le> b \<Longrightarrow> stake_fits exact_f64 \<lparr> ps_stake = Value a, ps_total = Value b \<rparr>"
  by (simp add: stake_fits_def exact_f64_def of_rat_divide)

text \<open>With a hash function that is constantly half of its range every number is one half.\<close>

definition half_env :: "real lead_env" where
  "half_env =
     \<lparr> lead_ledger = demo_env\<lparr>env_crypto := demo_crypto
         \<lparr>blake2b256 := (\<lambda>_. 57896044618658097711785492504343953926634992332820282019728792003956564819968)\<rparr>\<rparr>,
       lead_curve = demo_ristretto, lead_f64 = exact_f64 \<rparr>"

lemma half_env_simps:
  "lead_curve half_env = demo_ristretto" "lead_f64 half_env = exact_f64" "seed_threshold half_env inp os = 1 / 2"
  by (simp_all add: half_env_def seed_threshold_def seed_to_output_def v64_of_to_be_bytes exact_f64_def)

lemma half_evaluate:
  assumes "0 < unat n" "a \<le> n"
  shows "vrfeval_evaluate half_env \<lparr> ps_stake = Value a, ps_total = Value n \<rparr> key r nonce slotid =
     Ok (Some (vrf_evaluate demo_ristretto key r (vrf_input_bytes (vrf_input_create nonce slotid))))"
proof -
  have "(1 / 2 :: real) powr 1 \<le> (1 / 2) powr (real (unat a) / real (unat n))"
    using assms by (intro powr_mono') (auto simp: word_le_nat_alt simp del: of_nat_unat)
  then have "stake_threshold exact_f64 \<lparr> ps_stake = Value a, ps_total = Value n \<rparr> \<le> 1 / 2"
    by (simp add: stake_threshold_def exact_f64_def of_rat_divide)
  then have "f_le exact_f64 (stake_threshold exact_f64 \<lparr> ps_stake = Value a, ps_total = Value n \<rparr>) (1 / 2)"
    by (simp add: exact_f64_def)
  then show ?thesis
    using assms(2) by (simp add: vrfeval_evaluate_eq half_env_simps exact_stake_fits Let_def)
qed


definition demo_vrf_key :: vrf_secret_key where
  "demo_vrf_key = vrf_secret_random demo_ristretto 5"

definition demo_selection :: genesis_leader_selection where
  "demo_selection =
     \<lparr> gls_epoch_nonce = nonce_zero,
       gls_nodes = one_entry (StakePoolId (Hash 8)) \<lparr> pool_serial = 1, pool_owners = [],
         pool_initial_key = \<lparr> kes_public_key = 3, vrf_public_key = vrf_to_public demo_vrf_key \<rparr> \<rparr>,
       gls_distribution = [(StakePoolId (Hash 8), \<lparr> pool_total_stake = Value 9, member_stake = [] \<rparr>)], gls_epoch = 1 \<rparr>"

definition demo_date_builder :: block_builder where
  "demo_date_builder = builder_date (BlockDate 1 4) (builder_chain_length (ChainLength 1) builder_new)"

lemma demo_make_blocks:
  "\<exists>b. make_genesis_praos_block cr node kes w demo_date_builder = (Ok b :: (block, 'e) outcome)"
  "\<exists>b. make_bft_block cr sk demo_date_builder = (Ok b :: (block, 'e) outcome)"
  "com_date (bb_common demo_date_builder) = BlockDate 1 4"
  by (simp_all add: make_genesis_praos_block_def make_bft_block_def demo_date_builder_def builder_date_def
      builder_chain_length_def builder_new_def assert_then_def finalize_common_def compute_hash_size_def
      serialize_messages_def make_signature_def make_signature_update_def unwrap_def)

lemma demo_selection_simps:
  "gls_epoch demo_selection = 1" "gls_epoch_nonce demo_selection = nonce_zero"
  "hamt_inv (\<lambda>_. 0) (gls_nodes demo_selection)"
  "hamt_map (gls_nodes demo_selection) (StakePoolId (Hash 8)) = Some \<lparr> pool_serial = 1, pool_owners = [],
     pool_initial_key = \<lparr> kes_public_key = 3, vrf_public_key = vrf_to_public demo_vrf_key \<rparr> \<rparr>"
  "get_stake_for (gls_distribution demo_selection) (StakePoolId (Hash 8)) = Some (Value 9)"
  "dist_total_stake (gls_distribution demo_selection) = (Ok (Value 9) :: (val, 'e) outcome)"
  by (simp_all add: demo_selection_def get_stake_for_def dist_total_stake_eq)

lemma demo_elected:
  "genesis_leader_at half_env demo_selection (StakePoolId (Hash 8)) demo_vrf_key 6 (BlockDate 1 4) =
     Ok (Some (vrf_evaluate demo_ristretto demo_vrf_key 6 (vrf_input_bytes (vrf_input_create nonce_zero 4))))"
  unfolding genesis_leader_at_Some
  by (simp add: demo_selection_simps half_evaluate value_zero_def)

lemma half_env_hashers: "pool_id_hash (stake_hash (env_hashers (lead_ledger half_env))) = (\<lambda>_. 0)"
  by (simp add: half_env_def demo_env_def demo_hashers_def)

lemma half_env_mmm:
  "ed25519_verify (env_crypto (lead_ledger half_env)) (mmm_public (env_crypto (lead_ledger half_env)) sk)
     (mmm_sign (env_crypto (lead_ledger half_env)) sk msg) msg"
  "mmm_public (env_crypto (lead_ledger half_env)) = (\<lambda>sk. sk)"
  by (simp_all add: half_env_def demo_crypto_def)

theorem praos_elected_rejected_witness:
  "\<exists>b. make_genesis_praos_block (env_crypto (lead_ledger half_env)) (StakePoolId (Hash 8)) 3
       (vrf_evaluate demo_ristretto demo_vrf_key 6 (vrf_input_bytes (vrf_input_create nonce_zero 4))) demo_date_builder =
       (Ok b :: (block, unit) outcome) \<and>
     leadership_verify half_env (Leadership (LeadGenesisPraos demo_selection)) (blk_header b) =
       (Ok (VerFailure (lead_error_new IncompatibleBlockVersion)) :: (lead_verification, unit) outcome) \<and>
     genesis_verify half_env demo_selection (blk_header b) = (Ok VerSuccess :: (lead_verification, unit) outcome)"
proof -
  let ?w = "vrf_evaluate demo_ristretto demo_vrf_key 6 (vrf_input_bytes (vrf_input_create nonce_zero 4))"
  obtain b where b: "make_genesis_praos_block (env_crypto (lead_ledger half_env)) (StakePoolId (Hash 8)) 3 ?w
      demo_date_builder = (Ok b :: (block, unit) outcome)" using demo_make_blocks(1) by blast
  have "genesis_verify half_env demo_selection (blk_header b) = (Ok VerSuccess :: (lead_verification, unit) outcome) \<and>
      leadership_verify half_env (Leadership (LeadGenesisPraos demo_selection)) (blk_header b) =
        (Ok (VerFailure (lead_error_new IncompatibleBlockVersion)) :: (lead_verification, unit) outcome)"
    by (rule praos_elected_rejected [OF _ _ _ half_env_mmm(1) _ refl _ demo_selection_simps(4) _ demo_elected b
          demo_make_blocks(3), where s = 5])
      (simp_all add: half_env_simps half_env_hashers half_env_mmm demo_selection_simps demo_vrf_key_def,
       simp_all add: demo_ristretto_def algebra_simps)
  with b show ?thesis by blast
qed

text \<open>A block with a proof that was made for another slot by another key is accepted by the selection.\<close>

definition demo_praos_header :: header where
  "demo_praos_header =
     \<lparr> hdr_common = (bb_common demo_date_builder),
       hdr_proof = ProofGenesisPraos \<lparr> praos_node_id = StakePoolId (Hash 8),
         praos_vrf_proof = vrf_evaluate demo_ristretto demo_vrf_key 6 [], praos_kes_proof = 3 \<rparr> \<rparr>"

theorem praos_vrf_ignored_witness:
  "genesis_verify half_env demo_selection
     (demo_praos_header\<lparr>hdr_proof := ProofGenesisPraos (\<lparr> praos_node_id = StakePoolId (Hash 8),
         praos_vrf_proof = vrf_evaluate demo_ristretto demo_vrf_key 6 [], praos_kes_proof = 3 \<rparr>
         \<lparr>praos_vrf_proof := vrf_evaluate demo_ristretto (vrf_secret_random demo_ristretto 77) 1 [1, 2]\<rparr>)\<rparr>) =
     (Ok VerSuccess :: (lead_verification, unit) outcome)"
  by (rule praos_vrf_ignored [of _ _ _ _ "\<lparr> pool_serial = 1, pool_owners = [],
        pool_initial_key = \<lparr> kes_public_key = 3, vrf_public_key = vrf_to_public demo_vrf_key \<rparr> \<rparr>" "Value 9" "Value 9",
        where 'd = unit])
    (simp_all add: demo_selection_simps half_env_hashers half_env_simps exact_stake_fits demo_praos_header_def
      demo_make_blocks(3), simp add: half_env_def demo_crypto_def)


end
