(* ===== verification/Block_Store.thy ===== *)
theory Block_Store
  imports Btree
begin

text \<open>
  Stores of blocks: the trait \<^verbatim>\<open>BlockStore\<close> with its provided methods (\<^verbatim>\<open>chain-storage/src/store.rs\<close>) and the store in
  memory (\<^verbatim>\<open>memory.rs\<close>). Next to its parent, a block may have a link to a far ancestor, so that long
  distances are travelled in few steps. The trait is a record of the required methods, and the provided methods take it
  as an argument; its contract is the locale \<open>block_store\<close>. The loop that follows the links need not end
  in a store with wrong links: not returning is the value \<open>None\<close>.
\<close>

section \<open>Results of computations that may not return\<close>

fun dbind :: "('a, 'e) outcome option \<Rightarrow> ('a \<Rightarrow> ('b, 'e) outcome option) \<Rightarrow> ('b, 'e) outcome option" where
  "dbind None f = None"
| "dbind (Some (Ok x)) f = f x"
| "dbind (Some (Err e)) f = Some (Err e)"
| "dbind (Some Panic) f = Some Panic"

section \<open>Blocks and their links\<close>

datatype store_error = BlockNotFound | CannotIterate

record 'id back_link =
  link_distance :: u64
  link_hash :: 'id

record 'id block_info =
  bi_hash :: 'id
  bi_depth :: u64
  bi_links :: "'id back_link list"

text \<open>What the trait \<^verbatim>\<open>Block\<close> gives.\<close>

record ('b, 'id) block_ops =
  bo_id :: "'b \<Rightarrow> ('id, store_error) outcome"
  bo_parent_id :: "'b \<Rightarrow> 'id"
  bo_zero :: 'id
  bo_serialize :: "'b \<Rightarrow> (bytes, store_error) outcome"
  bo_deserialize :: "bytes \<Rightarrow> ('b, store_error) outcome"

record ('s, 'b, 'id) store_ops =
  put_block_internal :: "'s \<Rightarrow> 'b \<Rightarrow> 'id block_info \<Rightarrow> ('s, store_error) outcome"
  get_block :: "'s \<Rightarrow> 'id \<Rightarrow> ('b \<times> 'id block_info, store_error) outcome"
  get_block_info :: "'s \<Rightarrow> 'id \<Rightarrow> ('id block_info, store_error) outcome"
  put_tag :: "'s \<Rightarrow> string \<Rightarrow> 'id \<Rightarrow> ('s, store_error) outcome"
  get_tag :: "'s \<Rightarrow> string \<Rightarrow> ('id option, store_error) outcome"

fun store_error_to_string :: "store_error \<Rightarrow> string" where
  "store_error_to_string BlockNotFound = ''block not found''"
| "store_error_to_string CannotIterate = ''cannot iterate between the 2 given blocks''"

definition parent_id :: "'id block_info \<Rightarrow> ('id, 'e) outcome" where
  "parent_id i = obind (unwrap_opt (find (\<lambda>x. link_distance x = 1) (bi_links i))) (\<lambda>l. Ok (link_hash l))"

definition compute_fast_link :: "u64 \<Rightarrow> u64" where
  "compute_fast_link depth =
     (let order = depth mod 32;
          distance = (if order = 0 then 1 else push_bit (unat order) 1 - 1)
      in if distance < depth then depth - distance else 0)"

text \<open>Of several maxima \<^verbatim>\<open>max_by_key\<close> returns the last.\<close>

definition max_by_key :: "('a \<Rightarrow> 'k::linorder) \<Rightarrow> 'a list \<Rightarrow> 'a option" where
  "max_by_key f xs =
     fold (\<lambda>x best. case best of None \<Rightarrow> Some x | Some y \<Rightarrow> if f y \<le> f x then Some x else Some y) xs None"

definition best_link :: "u64 \<Rightarrow> 'id block_info \<Rightarrow> 'id back_link option" where
  "best_link target cur =
     max_by_key link_distance (filter (\<lambda>x. link_distance x \<le> bi_depth cur - target) (bi_links cur))"

text \<open>
  The callback is called with every block that is left behind; the loop returns these blocks in order next to its
  result.
\<close>

partial_function (option) ancestor_loop ::
  "('id \<Rightarrow> ('id block_info, store_error) outcome) \<Rightarrow> u64 \<Rightarrow> 'id block_info \<Rightarrow> 'id block_info list
   \<Rightarrow> (('id block_info, store_error) outcome \<times> 'id block_info list) option" where
  "ancestor_loop get target cur seen =
     (if target < bi_depth cur then
        case best_link target cur of
          None \<Rightarrow> Some (Panic, seen)
        | Some link \<Rightarrow>
            let seen = seen @ [cur] in
            (case get (link_hash link) of
               Ok nxt \<Rightarrow> ancestor_loop get target nxt seen
             | Err e \<Rightarrow> Some (Err e, seen)
             | Panic \<Rightarrow> Some (Panic, seen))
      else Some (assert_then (target = bi_depth cur) (Ok cur), seen))"

definition get_path_to_nth_ancestor ::
  "('s, 'b, 'id) store_ops \<Rightarrow> 's \<Rightarrow> 'id \<Rightarrow> u64
   \<Rightarrow> (('id block_info, store_error) outcome \<times> 'id block_info list) option" where
  "get_path_to_nth_ancestor st s h distance =
     (case get_block_info st s h of
        Ok cur \<Rightarrow>
          if bi_depth cur \<le> distance then Some (Panic, [])
          else ancestor_loop (get_block_info st s) (bi_depth cur - distance) cur []
      | Err e \<Rightarrow> Some (Err e, [])
      | Panic \<Rightarrow> Some (Panic, []))"

definition get_nth_ancestor ::
  "('s, 'b, 'id) store_ops \<Rightarrow> 's \<Rightarrow> 'id \<Rightarrow> u64 \<Rightarrow> ('id block_info, store_error) outcome option" where
  "get_nth_ancestor st s h distance = map_option fst (get_path_to_nth_ancestor st s h distance)"

definition block_exists :: "('s, 'b, 'id) store_ops \<Rightarrow> 's \<Rightarrow> 'id \<Rightarrow> (bool, store_error) outcome" where
  "block_exists st s h =
     (case get_block_info st s h of
        Ok _ \<Rightarrow> Ok True
      | Err BlockNotFound \<Rightarrow> Ok False
      | Err err \<Rightarrow> Err err
      | Panic \<Rightarrow> Panic)"

definition compute_links ::
  "('s, 'b, 'id) store_ops \<Rightarrow> ('b, 'id) block_ops \<Rightarrow> 's \<Rightarrow> 'id
   \<Rightarrow> (u64 \<times> 'id back_link list, store_error) outcome option" where
  "compute_links st ops s parent_hash =
     (let back_links = [\<lparr> link_distance = 1, link_hash = parent_hash \<rparr>] in
      if parent_hash = bo_zero ops then Some (Ok (1, back_links))
      else
        dbind (Some (get_block_info st s parent_hash)) (\<lambda>parent_info.
          if \<not> 0 < bi_depth parent_info then Some Panic
          else
            let depth = 1 + bi_depth parent_info;
                fast_link = compute_fast_link depth;
                distance = depth - fast_link
            in if distance \<noteq> 1 \<and> 0 < fast_link then
                 dbind (get_nth_ancestor st s parent_hash (depth - 1 - fast_link)) (\<lambda>far.
                   Some (Ok (depth, back_links @ [\<lparr> link_distance = distance, link_hash = bi_hash far \<rparr>])))
               else Some (Ok (depth, back_links))))"

definition put_block ::
  "('s, 'b, 'id) store_ops \<Rightarrow> ('b, 'id) block_ops \<Rightarrow> 's \<Rightarrow> 'b \<Rightarrow> ('s, store_error) outcome option" where
  "put_block st ops s b =
     dbind (Some (bo_id ops b)) (\<lambda>block_hash.
       dbind (Some (block_exists st s block_hash)) (\<lambda>found.
         if found then Some (Ok s)
         else
           dbind (compute_links st ops s (bo_parent_id ops b)) (\<lambda>(depth, back_links).
             Some (put_block_internal st s b
               \<lparr> bi_hash = block_hash, bi_depth = depth, bi_links = back_links \<rparr>))))"

definition is_ancestor ::
  "('s, 'b, 'id) store_ops \<Rightarrow> ('b, 'id) block_ops \<Rightarrow> 's \<Rightarrow> 'id \<Rightarrow> 'id
   \<Rightarrow> (u64 option, store_error) outcome option" where
  "is_ancestor st ops s ancestor descendent =
     (if ancestor = descendent then Some (Ok (Some 0))
      else
        dbind (Some (get_block_info st s descendent)) (\<lambda>desc.
          if ancestor = bo_zero ops then Some (Ok (Some (bi_depth desc)))
          else
            dbind (Some (get_block_info st s ancestor)) (\<lambda>anc.
              if bi_depth desc \<le> bi_depth anc then Some (Ok None)
              else
                dbind (get_nth_ancestor st s (bi_hash desc) (bi_depth desc - bi_depth anc)) (\<lambda>info.
                  if bi_hash info = bi_hash anc then Some (Ok (Some (bi_depth desc - bi_depth anc)))
                  else Some (Ok None)))))"

section \<open>Iteration over a range\<close>

text \<open>The last of the pending infos is the top of the stack.\<close>

record 'id block_iterator =
  it_to_depth :: u64
  it_cur_depth :: u64
  it_pending :: "'id block_info list"

definition iterate_range ::
  "('s, 'b, 'id) store_ops \<Rightarrow> ('b, 'id) block_ops \<Rightarrow> 's \<Rightarrow> 'id \<Rightarrow> 'id
   \<Rightarrow> ('id block_iterator, store_error) outcome option" where
  "iterate_range st ops s from_id to_id =
     dbind (is_ancestor st ops s from_id to_id) (\<lambda>r.
       case r of
         None \<Rightarrow> Some (Err CannotIterate)
       | Some distance \<Rightarrow>
           dbind (Some (get_block_info st s to_id)) (\<lambda>to_info.
             Some (Ok \<lparr> it_to_depth = bi_depth to_info, it_cur_depth = bi_depth to_info - distance,
                       it_pending = [to_info] \<rparr>)))"

text \<open>A call yields \<open>None\<close> at the end and otherwise a result, which is an info or an error.\<close>

definition block_iter_next ::
  "('s, 'b, 'id) store_ops \<Rightarrow> 's \<Rightarrow> 'id block_iterator
   \<Rightarrow> (('id block_info, store_error) outcome option \<times> 'id block_iterator, store_error) outcome option" where
  "block_iter_next st s it =
     (if it_to_depth it \<le> it_cur_depth it then Some (Ok (None, it))
      else
        let it = it\<lparr>it_cur_depth := it_cur_depth it + 1\<rparr> in
        if it_pending it = [] then Some Panic
        else
          let block_info = last (it_pending it);
              rest = butlast (it_pending it)
          in if bi_depth block_info = it_cur_depth it then
               Some (Ok (Some (Ok block_info), it\<lparr>it_pending := rest\<rparr>))
             else if \<not> it_cur_depth it < bi_depth block_info then Some Panic
             else
               dbind (Some (parent_id block_info)) (\<lambda>parent.
                 case get_path_to_nth_ancestor st s parent (bi_depth block_info - it_cur_depth it - 1) of
                   None \<Rightarrow> None
                 | Some (Panic, _) \<Rightarrow> Some Panic
                 | Some (r, seen) \<Rightarrow>
                     Some (Ok (Some r, it\<lparr>it_pending := rest @ [block_info] @ seen\<rparr>))))"

text \<open>Calling an iterator up to \<open>n\<close> times and collecting what it yields, as \<^verbatim>\<open>collect\<close> does.\<close>

fun iter_collect ::
  "('s, 'b, 'id) store_ops \<Rightarrow> 's \<Rightarrow> nat \<Rightarrow> 'id block_iterator \<Rightarrow> ('id block_info list, store_error) outcome option" where
  "iter_collect st s 0 it = None"
| "iter_collect st s (Suc n) it =
     dbind (block_iter_next st s it) (\<lambda>(r, it).
       case r of
         None \<Rightarrow> Some (Ok [])
       | Some item \<Rightarrow> dbind (Some item) (\<lambda>i. dbind (iter_collect st s n it) (\<lambda>is. Some (Ok (i # is)))))"

section \<open>The store in memory\<close>

record ('b, 'id) memory_store =
  mem_blocks :: "'id \<rightharpoonup> bytes \<times> 'id block_info"
  mem_tags :: "string \<rightharpoonup> 'id"

definition memory_new :: "('b, 'id) memory_store" where
  "memory_new = \<lparr> mem_blocks = Map.empty, mem_tags = Map.empty \<rparr>"

definition mem_put_block_internal ::
  "('b, 'id) block_ops \<Rightarrow> ('b, 'id) memory_store \<Rightarrow> 'b \<Rightarrow> 'id block_info
   \<Rightarrow> (('b, 'id) memory_store, store_error) outcome" where
  "mem_put_block_internal ops s b i =
     obind (unwrap (bo_serialize ops b)) (\<lambda>w. Ok (s\<lparr>mem_blocks := (mem_blocks s)(bi_hash i \<mapsto> (w, i))\<rparr>))"

definition mem_get_block ::
  "('b, 'id) block_ops \<Rightarrow> ('b, 'id) memory_store \<Rightarrow> 'id \<Rightarrow> ('b \<times> 'id block_info, store_error) outcome" where
  "mem_get_block ops s h =
     (case mem_blocks s h of
        None \<Rightarrow> Err BlockNotFound
      | Some (w, i) \<Rightarrow> obind (unwrap (bo_deserialize ops w)) (\<lambda>b. Ok (b, i)))"

definition mem_get_block_info :: "('b, 'id) memory_store \<Rightarrow> 'id \<Rightarrow> ('id block_info, store_error) outcome" where
  "mem_get_block_info s h = (case mem_blocks s h of None \<Rightarrow> Err BlockNotFound | Some (_, i) \<Rightarrow> Ok i)"

definition mem_put_tag ::
  "('b, 'id) memory_store \<Rightarrow> string \<Rightarrow> 'id \<Rightarrow> (('b, 'id) memory_store, store_error) outcome" where
  "mem_put_tag s tag h =
     assert_then (mem_blocks s h \<noteq> None) (Ok (s\<lparr>mem_tags := (mem_tags s)(tag \<mapsto> h)\<rparr>))"

definition mem_get_tag :: "('b, 'id) memory_store \<Rightarrow> string \<Rightarrow> ('id option, store_error) outcome" where
  "mem_get_tag s tag = (case mem_tags s tag of Some h \<Rightarrow> Ok (Some h) | None \<Rightarrow> Ok None)"

definition memory_ops :: "('b, 'id) block_ops \<Rightarrow> (('b, 'id) memory_store, 'b, 'id) store_ops" where
  "memory_ops ops =
     \<lparr> put_block_internal = mem_put_block_internal ops, get_block = mem_get_block ops,
       get_block_info = mem_get_block_info, put_tag = mem_put_tag, get_tag = mem_get_tag \<rparr>"

section \<open>Chains of parents\<close>

type_synonym 'id info_map = "'id \<rightharpoonup> 'id block_info"

definition info_parent :: "'id block_info \<Rightarrow> 'id" where
  "info_parent i =
     (case find (\<lambda>x. link_distance x = 1) (bi_links i) of Some l \<Rightarrow> link_hash l | None \<Rightarrow> bi_hash i)"

definition step_back :: "'id info_map \<Rightarrow> 'id \<Rightarrow> 'id" where
  "step_back m h = (case m h of Some i \<Rightarrow> info_parent i | None \<Rightarrow> h)"

definition nth_parent :: "'id info_map \<Rightarrow> nat \<Rightarrow> 'id \<Rightarrow> 'id" where
  "nth_parent m n = (step_back m ^^ n)"

abbreviation ndepth :: "'id block_info \<Rightarrow> nat" where
  "ndepth i \<equiv> unat (bi_depth i)"

abbreviation ndist :: "'id back_link \<Rightarrow> nat" where
  "ndist l \<equiv> unat (link_distance l)"

text \<open>
  A good entry has a link to its parent, which is the zero hash at depth one and otherwise a block one less deep; every
  link leads to the ancestor at its distance.
\<close>

definition info_ok :: "'id \<Rightarrow> 'id info_map \<Rightarrow> 'id \<Rightarrow> 'id block_info \<Rightarrow> bool" where
  "info_ok zero m h i \<longleftrightarrow>
     bi_hash i = h \<and> 0 < ndepth i \<and> (\<exists>l \<in> set (bi_links i). link_distance l = 1) \<and>
     (\<forall>l \<in> set (bi_links i). 0 < ndist l \<and> link_hash l = nth_parent m (ndist l) h \<and>
        (ndepth i = 1 \<longrightarrow> link_distance l = 1) \<and> (1 < ndepth i \<longrightarrow> ndist l < ndepth i)) \<and>
     (if ndepth i = 1 then info_parent i = zero
      else \<exists>p. m (info_parent i) = Some p \<and> Suc (ndepth p) = ndepth i)"

definition infos_ok :: "'id \<Rightarrow> 'id info_map \<Rightarrow> bool" where
  "infos_ok zero m \<longleftrightarrow> m zero = None \<and> (\<forall>h i. m h = Some i \<longrightarrow> info_ok zero m h i)"

lemma infos_okD: "infos_ok zero m \<Longrightarrow> m h = Some i \<Longrightarrow> info_ok zero m h i"
  by (simp add: infos_ok_def)

lemma nth_parent_simps [simp]:
  "nth_parent m 0 h = h" "nth_parent m (Suc n) h = step_back m (nth_parent m n h)"
  by (simp_all add: nth_parent_def)

lemma nth_parent_add: "nth_parent m (a + b) h = nth_parent m a (nth_parent m b h)"
  by (simp add: nth_parent_def funpow_add)

lemma step_back_Some: "m h = Some i \<Longrightarrow> step_back m h = info_parent i"
  by (simp add: step_back_def)

lemma nth_parent_stored:
  assumes "infos_ok zero m" and "m h = Some i" and "n < ndepth i"
  shows "\<exists>j. m (nth_parent m n h) = Some j \<and> ndepth j = ndepth i - n"
  using assms(3)
proof (induction n)
  case 0
  with assms show ?case by simp
next
  case (Suc n)
  then obtain j where j: "m (nth_parent m n h) = Some j" "ndepth j = ndepth i - n" by auto
  with Suc.prems infos_okD [OF assms(1) j(1)] obtain p where "m (info_parent j) = Some p" "Suc (ndepth p) = ndepth j"
    by (auto simp: info_ok_def split: if_splits)
  with j show ?case by (simp add: step_back_Some)
qed

lemma nth_parent_zero:
  assumes "infos_ok zero m" and "m h = Some i"
  shows "nth_parent m (ndepth i) h = zero"
proof -
  from infos_okD [OF assms] have pos: "0 < ndepth i" by (simp add: info_ok_def)
  then obtain j where j: "m (nth_parent m (ndepth i - 1) h) = Some j" "ndepth j = 1"
    using nth_parent_stored [OF assms, of "ndepth i - 1"] by auto
  then have "step_back m (nth_parent m (ndepth i - 1) h) = zero"
    using infos_okD [OF assms(1) j(1)] by (simp add: step_back_Some info_ok_def)
  with pos show ?thesis using nth_parent_simps(2) [of m "ndepth i - 1" h] by simp
qed

lemma nth_parent_depth_unique:
  assumes "infos_ok zero m" and "m h = Some i" and "n < ndepth i" and "m (nth_parent m n h) = Some j"
  shows "ndepth j = ndepth i - n" and "bi_hash j = nth_parent m n h"
  using nth_parent_stored [OF assms(1-3)] infos_okD [OF assms(1,4)] assms(4) by (auto simp: info_ok_def)

section \<open>Following the links\<close>

lemma max_by_key_Some:
  assumes "x \<in> set xs"
  shows "\<exists>y \<in> set xs. max_by_key f xs = Some y \<and> f x \<le> f y"
proof -
  let ?g = "\<lambda>x best. case best of None \<Rightarrow> Some x | Some y \<Rightarrow> if f y \<le> f x then Some x else Some y"
  have "\<exists>y \<in> insert a (set xs). fold ?g xs (Some a) = Some y \<and> (\<forall>x \<in> insert a (set xs). f x \<le> f y)" for a xs
  proof (induction xs arbitrary: a)
    case (Cons b xs)
    then show ?case using Cons [of a] Cons [of b] by (cases "f a \<le> f b") (fastforce, fastforce)
  qed simp
  from this [of "hd xs" "tl xs"] assms show ?thesis
    unfolding max_by_key_def by (cases xs) auto
qed

lemma best_link_Some:
  assumes "info_ok zero m h i" and "target < bi_depth i" and "0 < unat target"
  shows "\<exists>l. best_link target i = Some l \<and> l \<in> set (bi_links i) \<and> 0 < ndist l \<and> ndist l \<le> ndepth i - unat target \<and>
    link_hash l = nth_parent m (ndist l) h"
proof -
  have d: "unat (bi_depth i - target) = ndepth i - unat target"
    using assms(2) by (simp add: unat_sub)
  obtain l1 where "l1 \<in> set (bi_links i)" "link_distance l1 = 1" using assms(1) by (auto simp: info_ok_def)
  moreover then have "link_distance l1 \<le> bi_depth i - target"
    using assms(2) d by (simp add: word_le_nat_alt word_less_nat_alt)
  ultimately obtain l where "best_link target i = Some l" "l \<in> set (bi_links i)" "link_distance l \<le> bi_depth i - target"
    unfolding best_link_def
    using max_by_key_Some [of l1 "filter (\<lambda>x. link_distance x \<le> bi_depth i - target) (bi_links i)" link_distance] by auto
  with assms(1) d show ?thesis by (auto simp: info_ok_def word_le_nat_alt)
qed

text \<open>The blocks that are left behind on the way from a block to a depth.\<close>

definition path_ok :: "'id info_map \<Rightarrow> 'id \<Rightarrow> nat \<Rightarrow> nat \<Rightarrow> 'id block_info list \<Rightarrow> bool" where
  "path_ok m h depth target path \<longleftrightarrow>
     sorted_wrt (\<lambda>a b. ndepth b < ndepth a) path \<and>
     (\<forall>p \<in> set path. target < ndepth p \<and> ndepth p \<le> depth \<and> m (nth_parent m (depth - ndepth p) h) = Some p)"

lemma ancestor_loop_correct:
  assumes "infos_ok zero m" and get: "\<And>h i. m h = Some i \<Longrightarrow> get h = Ok i"
    and "m h = Some i" and "0 < unat target" and "unat target \<le> ndepth i"
  shows "\<exists>j path. ancestor_loop get target i seen = Some (Ok j, seen @ path) \<and>
    m (nth_parent m (ndepth i - unat target) h) = Some j \<and> path_ok m h (ndepth i) (unat target) path"
  using assms(3,5)
proof (induction "ndepth i" arbitrary: h i seen rule: less_induct)
  case less
  show ?case
  proof (cases "target < bi_depth i")
    case False
    with less.prems have "target = bi_depth i" by (simp add: word_less_nat_alt word_unat_eq_iff)
    with less.prems show ?thesis
      by (subst ancestor_loop.simps) (simp add: assert_then_def path_ok_def)
  next
    case True
    obtain l where l: "best_link target i = Some l" "0 < ndist l" "ndist l \<le> ndepth i - unat target"
        "link_hash l = nth_parent m (ndist l) h"
      using best_link_Some [OF infos_okD [OF assms(1) less.prems(1)] True assms(4)] by blast
    have "ndist l < ndepth i" using l(3) assms(4) less.prems(2) by linarith
    then obtain j where j: "m (nth_parent m (ndist l) h) = Some j" "ndepth j = ndepth i - ndist l"
      using nth_parent_stored [OF assms(1) less.prems(1)] by blast
    have "ndepth j < ndepth i" "unat target \<le> ndepth j"
      using j(2) l(2,3) less.prems(2) True by (simp_all add: word_less_nat_alt)
    then obtain k path where k: "ancestor_loop get target j (seen @ [i]) = Some (Ok k, (seen @ [i]) @ path)"
        "m (nth_parent m (ndepth j - unat target) (nth_parent m (ndist l) h)) = Some k"
        "path_ok m (nth_parent m (ndist l) h) (ndepth j) (unat target) path"
      using less.hyps [of j "nth_parent m (ndist l) h" "seen @ [i]"] j(1) by blast
    have "ancestor_loop get target i seen = Some (Ok k, seen @ i # path)"
      using k(1) by (subst ancestor_loop.simps) (simp add: True l(1,4) get [OF j(1)])
    moreover have "ndepth j - unat target + ndist l = ndepth i - unat target" using j(2) l(2,3) by simp
    then have "m (nth_parent m (ndepth i - unat target) h) = Some k"
      using k(2) by (simp flip: nth_parent_add)
    moreover have "path_ok m h (ndepth i) (unat target) (i # path)"
    proof -
      have "ndepth j - ndepth p + ndist l = ndepth i - ndepth p" if "ndepth p \<le> ndepth j" for p
        using that j(2) l(2,3) less.prems(2) by simp
      then show ?thesis
        using k(3) j(2) l(2,3) less.prems True
        by (fastforce simp: path_ok_def word_less_nat_alt simp flip: nth_parent_add)
    qed
    ultimately show ?thesis by blast
  qed
qed

lemma unat_diff_1: "unat c < unat a \<Longrightarrow> unat (a - c - 1) = unat a - unat c - 1" for a c :: u64
  by (simp add: unat_sub word_le_nat_alt)

lemma path_ok_weaken: "path_ok m h depth target path \<Longrightarrow> (\<forall>p \<in> set path. target' < ndepth p) \<Longrightarrow> path_ok m h depth target' path"
  by (simp add: path_ok_def)

lemma path_ok_append:
  assumes "path_ok m h depth target xs" and "\<forall>p \<in> set xs. d < ndepth p" and "d \<le> depth"
    and "path_ok m (nth_parent m (depth - d) h) d target ys"
  shows "path_ok m h depth target (xs @ ys)"
proof -
  have "nth_parent m (depth - ndepth p) h = nth_parent m (d - ndepth p) (nth_parent m (depth - d) h)"
    if "ndepth p \<le> d" for p
  proof -
    have "depth - ndepth p = d - ndepth p + (depth - d)" using that assms(3) by simp
    then show ?thesis by (simp only: nth_parent_add)
  qed
  then show ?thesis using assms by (fastforce simp: path_ok_def sorted_wrt_append)
qed

lemma path_ok_snoc:
  assumes "path_ok m h depth target (xs @ [p])"
  shows "path_ok m h depth target xs" "\<forall>q \<in> set xs. ndepth p < ndepth q" "target < ndepth p" "ndepth p \<le> depth"
    "m (nth_parent m (depth - ndepth p) h) = Some p"
  using assms by (auto simp: path_ok_def sorted_wrt_append)

lemma parent_id_ok: "info_ok zero m h i \<Longrightarrow> parent_id i = Ok (info_parent i)"
  unfolding info_ok_def parent_id_def info_parent_def
  by (auto simp: unwrap_opt_def find_None_iff split: option.splits)

text \<open>
  An iterator towards \<open>t\<close>: the stack of pending blocks holds ancestors of the last block, the
  deepest at the bottom, all of them above the current depth.
\<close>

definition iter_inv :: "'id info_map \<Rightarrow> 'id \<Rightarrow> 'id block_info \<Rightarrow> 'id block_iterator \<Rightarrow> bool" where
  "iter_inv m t i it \<longleftrightarrow>
     it_to_depth it = bi_depth i \<and> unat (it_cur_depth it) \<le> ndepth i \<and>
     path_ok m t (ndepth i) (unat (it_cur_depth it)) (it_pending it) \<and>
     (unat (it_cur_depth it) < ndepth i \<longrightarrow> (\<exists>rest. it_pending it = i # rest))"

section \<open>Adding a block\<close>

lemma nth_parent_Suc2: "nth_parent m (Suc n) h = nth_parent m n (step_back m h)"
  by (simp add: nth_parent_def funpow_swap1)

lemma nth_parent_upd:
  assumes "infos_ok zero m" and "m h = None" and "m x = Some i" and "n \<le> ndepth i"
  shows "nth_parent (m(h \<mapsto> j)) n x = nth_parent m n x"
  using assms(4)
proof (induction n)
  case (Suc n)
  then obtain k where "m (nth_parent m n x) = Some k" using nth_parent_stored [OF assms(1,3), of n] by auto
  with assms(2) have "nth_parent m n x \<noteq> h" by auto
  with Suc show ?case by (simp add: step_back_def)
qed simp

text \<open>The links of a new block, given from its parent.\<close>

definition links_ok :: "'id \<Rightarrow> 'id info_map \<Rightarrow> 'id \<Rightarrow> nat \<Rightarrow> 'id back_link list \<Rightarrow> bool" where
  "links_ok zero m p depth links \<longleftrightarrow>
     (\<exists>fast. links = \<lparr> link_distance = 1, link_hash = p \<rparr> # fast \<and> length fast \<le> 1 \<and>
       (\<forall>l \<in> set fast. 1 < ndist l \<and> ndist l < depth \<and> link_hash l = nth_parent m (ndist l - 1) p)) \<and>
     (if depth = 1 then p = zero else \<exists>i. m p = Some i \<and> Suc (ndepth i) = depth)"

lemma infos_ok_insert:
  assumes ok: "infos_ok zero m" and new: "m h = None" "h \<noteq> zero" and links: "links_ok zero m p (ndepth i) (bi_links i)"
    and i: "bi_hash i = h" "0 < ndepth i"
  shows "infos_ok zero (m(h \<mapsto> i))" and "info_parent i = p"
proof -
  let ?m = "m(h \<mapsto> i)"
  obtain fast where fast: "bi_links i = \<lparr> link_distance = 1, link_hash = p \<rparr> # fast"
      "\<And>l. l \<in> set fast \<Longrightarrow> 1 < ndist l \<and> ndist l < ndepth i \<and> link_hash l = nth_parent m (ndist l - 1) p"
    using links by (auto simp: links_ok_def)
  then show par: "info_parent i = p" by (simp add: info_parent_def)
  have far: "nth_parent ?m (ndist l) h = link_hash l" if "l \<in> set fast" for l
  proof -
    have "ndepth i \<noteq> 1" using fast(2) [OF that] by simp
    then obtain pi where "m p = Some pi" "Suc (ndepth pi) = ndepth i" using links by (auto simp: links_ok_def)
    then have "nth_parent ?m (ndist l - 1) p = nth_parent m (ndist l - 1) p"
      using nth_parent_upd [OF ok new(1), of p pi "ndist l - 1" i] fast(2) [OF that] by auto
    then show ?thesis
      using fast(2) [OF that] nth_parent_Suc2 [of ?m "ndist l - 1" h] by (simp add: step_back_def par)
  qed
  have "info_ok zero ?m h i"
    unfolding info_ok_def
  proof (intro conjI)
    show "\<forall>l \<in> set (bi_links i). 0 < ndist l \<and> link_hash l = nth_parent ?m (ndist l) h \<and>
        (ndepth i = 1 \<longrightarrow> link_distance l = 1) \<and> (1 < ndepth i \<longrightarrow> ndist l < ndepth i)"
      using far fast(2) by (fastforce simp: fast(1) step_back_def par)
    show "if ndepth i = 1 then info_parent i = zero else \<exists>q. ?m (info_parent i) = Some q \<and> Suc (ndepth q) = ndepth i"
      using links new by (auto simp: links_ok_def par split: if_splits)
  qed (use i fast(1) in auto)
  moreover have "info_ok zero ?m x k" if "m x = Some k" for x k
  proof -
    have *: "nth_parent ?m n x = nth_parent m n x" if "n \<le> ndepth k" for n
      using nth_parent_upd [OF ok new(1) \<open>m x = Some k\<close> that] .
    have k: "info_ok zero m x k" using infos_okD [OF ok that] .
    have "link_hash l = nth_parent ?m (ndist l) x" if "l \<in> set (bi_links k)" for l
      using k that * [of "ndist l"] by (cases "ndepth k = 1") (fastforce simp: info_ok_def)+
    moreover have "m q = Some y \<Longrightarrow> ?m q = Some y" for q y using new(1) by auto
    ultimately show ?thesis using k new(1) unfolding info_ok_def by (auto split: if_splits)
  qed
  ultimately show "infos_ok zero ?m" using ok new by (auto simp: infos_ok_def)
qed

lemma compute_fast_link_bounds:
  assumes "1 < unat depth" and "compute_fast_link depth \<noteq> 0"
  shows "0 < unat (compute_fast_link depth)" "unat (compute_fast_link depth) < unat depth"
proof -
  show "0 < unat (compute_fast_link depth)" using assms(2) unat_gt_0 by blast
  let ?d = "if depth mod 32 = 0 then 1 else push_bit (unat (depth mod 32)) 1 - 1 :: u64"
  have "0 < ?d"
  proof (cases "depth mod 32 = 0")
    case False
    let ?k = "unat (depth mod 32)"
    have k: "0 < ?k" using False unat_gt_0 by blast
    have "\<not> bit (push_bit ?k 1 :: u64) 0" using k by (simp only: bit_push_bit_iff) simp
    then have "push_bit ?k 1 \<noteq> (1 :: u64)" by (metis bit_1_0)
    with False show ?thesis by (simp add: word_gt_0)
  qed simp
  have less: "unat (depth - d) < unat depth" if "d < depth" "0 < d" for d
    using that unat_sub [of d depth] by (simp add: word_less_nat_alt word_le_nat_alt)
  have "compute_fast_link depth = (if ?d < depth then depth - ?d else 0)"
    by (simp only: compute_fast_link_def Let_def)
  then show "unat (compute_fast_link depth) < unat depth"
    using assms(1) less [OF _ \<open>0 < ?d\<close>] by (cases "?d < depth") (simp only: if_True, simp only: if_False unat_0)
qed

section \<open>The contract of a store\<close>

text \<open>The links that \<^verbatim>\<open>put_block\<close> makes: one to the parent, and at most one other.\<close>

definition standard_links :: "'id back_link list \<Rightarrow> bool" where
  "standard_links links \<longleftrightarrow>
     (\<exists>l fast. links = l # fast \<and> link_distance l = 1 \<and> length fast \<le> 1 \<and> (\<forall>f \<in> set fast. link_distance f \<noteq> 1))"

definition storable :: "('b, 'id) block_ops \<Rightarrow> 'b \<Rightarrow> bool" where
  "storable ops b \<longleftrightarrow> (\<exists>w. bo_serialize ops b = Ok w \<and> bo_deserialize ops w = Ok b)"

locale block_store =
  fixes st :: "('s, 'b, 'id) store_ops" and ops :: "('b, 'id) block_ops"
    and infos :: "'s \<Rightarrow> 'id info_map" and inv_s :: "'s \<Rightarrow> bool"
  assumes get_info: "inv_s s \<Longrightarrow> get_block_info st s h = (case infos s h of None \<Rightarrow> Err BlockNotFound | Some i \<Rightarrow> Ok i)"
    and put: "inv_s s \<Longrightarrow> infos s (bi_hash i) = None \<Longrightarrow> storable ops b \<Longrightarrow> standard_links (bi_links i) \<Longrightarrow>
      \<exists>s'. put_block_internal st s b i = Ok s' \<and> inv_s s' \<and> infos s' = (infos s)(bi_hash i \<mapsto> i) \<and>
        get_block st s' (bi_hash i) = Ok (b, i) \<and> (\<forall>h. h \<noteq> bi_hash i \<longrightarrow> get_block st s' h = get_block st s h)"
begin

lemma path_to_ancestor:
  assumes "inv_s s" and "infos_ok zero (infos s)" and "infos s h = Some i" and "unat d < ndepth i"
  shows "\<exists>j path. get_path_to_nth_ancestor st s h d = Some (Ok j, path) \<and>
    infos s (nth_parent (infos s) (unat d) h) = Some j \<and> path_ok (infos s) h (ndepth i) (ndepth i - unat d) path"
proof -
  have d: "unat (bi_depth i - d) = ndepth i - unat d" "\<not> bi_depth i \<le> d"
    using assms(4) by (simp_all add: unat_sub word_le_nat_alt)
  have "\<exists>j path. ancestor_loop (get_block_info st s) (bi_depth i - d) i [] = Some (Ok j, [] @ path) \<and>
      infos s (nth_parent (infos s) (ndepth i - unat (bi_depth i - d)) h) = Some j \<and>
      path_ok (infos s) h (ndepth i) (unat (bi_depth i - d)) path"
    using assms d by (intro ancestor_loop_correct [where zero = zero]) (simp_all add: get_info)
  then show ?thesis
    using assms(3,4) d by (simp add: get_path_to_nth_ancestor_def get_info [OF assms(1)])
qed

lemma nth_ancestor:
  assumes "inv_s s" and "infos_ok zero (infos s)" and "infos s h = Some i" and "unat d < ndepth i"
  shows "\<exists>j. get_nth_ancestor st s h d = Some (Ok j) \<and> infos s (nth_parent (infos s) (unat d) h) = Some j"
  using path_to_ancestor [OF assms] by (auto simp: get_nth_ancestor_def)

lemma links_computed:
  assumes s: "inv_s s" "infos_ok (bo_zero ops) (infos s)" and p: "infos s p = Some i" and fits: "ndepth i + 1 < 2 ^ 64"
  shows "\<exists>links. compute_links st ops s p = Some (Ok (1 + bi_depth i, links)) \<and> standard_links links \<and>
    unat (1 + bi_depth i) = Suc (ndepth i) \<and> links_ok (bo_zero ops) (infos s) p (Suc (ndepth i)) links"
proof -
  let ?d = "1 + bi_depth i" and ?f = "compute_fast_link (1 + bi_depth i)"
  have pos: "0 < ndepth i" using infos_okD [OF s(2) p] by (simp add: info_ok_def)
  have d: "unat ?d = Suc (ndepth i)" using fits by (simp add: unat_add_no_overflow)
  have nz: "p \<noteq> bo_zero ops" using s(2) p by (auto simp: infos_ok_def)
  have start: "compute_links st ops s p =
      (if ?d - ?f \<noteq> 1 \<and> 0 < ?f then
         dbind (get_nth_ancestor st s p (?d - 1 - ?f)) (\<lambda>far. Some (Ok (?d,
           [\<lparr> link_distance = 1, link_hash = p \<rparr>, \<lparr> link_distance = ?d - ?f, link_hash = bi_hash far \<rparr>])))
       else Some (Ok (?d, [\<lparr> link_distance = 1, link_hash = p \<rparr>])))"
    using pos nz by (simp add: compute_links_def get_info [OF s(1)] p Let_def word_less_nat_alt)
  show ?thesis
  proof (cases "?d - ?f \<noteq> 1 \<and> 0 < ?f")
    case False
    then show ?thesis
      using start d p pos by (auto simp: standard_links_def links_ok_def)
  next
    case True
    then have f: "0 < unat ?f" "unat ?f < Suc (ndepth i)"
      using compute_fast_link_bounds [of ?d] d pos by auto
    have df: "unat (?d - ?f) = Suc (ndepth i) - unat ?f"
      using f(2) d by (simp add: unat_sub word_le_nat_alt del: add.commute)
    with True f(2) have far: "1 < unat (?d - ?f)"
      by (metis Suc_lessI One_nat_def unat_1 word_unat_eq_iff zero_less_diff)
    have bk: "unat (?d - 1 - ?f) = ndepth i - unat ?f" using f(2) d df far by (simp add: unat_sub word_le_nat_alt)
    then obtain j where j: "get_nth_ancestor st s p (?d - 1 - ?f) = Some (Ok j)"
        "infos s (nth_parent (infos s) (ndepth i - unat ?f) p) = Some j"
      using nth_ancestor [OF s p, of "?d - 1 - ?f"] f(1) pos by auto
    have "bi_hash j = nth_parent (infos s) (ndepth i - unat ?f) p"
      using nth_parent_depth_unique(2) [OF s(2) p _ j(2)] f(1) pos by simp
    moreover have "unat (?d - ?f) - 1 = ndepth i - unat ?f" using df f(2) by simp
    ultimately show ?thesis
      using start True j(1) d p pos far df f(1) by (auto simp: standard_links_def links_ok_def)
  qed
qed

lemma compute_links_cases:
  assumes s: "inv_s s" "infos_ok (bo_zero ops) (infos s)" and fits: "\<And>i. infos s p = Some i \<Longrightarrow> ndepth i + 1 < 2 ^ 64"
  obtains (Missing) "compute_links st ops s p = Some (Err BlockNotFound)"
  | (Links) depth links where "compute_links st ops s p = Some (Ok (depth, links))" "standard_links links"
proof (cases "p = bo_zero ops")
  case True
  then show thesis
    by (intro Links [of 1 "[\<lparr> link_distance = 1, link_hash = p \<rparr>]"]) (simp_all add: compute_links_def standard_links_def)
next
  case False
  show thesis
  proof (cases "infos s p")
    case None
    with False show thesis by (intro Missing) (simp add: compute_links_def get_info [OF s(1)] Let_def)
  next
    case (Some i)
    with links_computed [OF s Some fits [OF Some]] show thesis by (blast intro: Links)
  qed
qed

lemma block_exists_eq: "inv_s s \<Longrightarrow> block_exists st s h = Ok (infos s h \<noteq> None)"
  by (simp add: block_exists_def get_info split: option.splits)

lemma put_new:
  assumes s: "inv_s s" "infos_ok (bo_zero ops) (infos s)" and b: "storable ops b" "bo_id ops b = Ok h"
    and new: "infos s h = None" "h \<noteq> bo_zero ops"
    and links: "compute_links st ops s (bo_parent_id ops b) = Some (Ok (depth, links))" "standard_links links"
      "links_ok (bo_zero ops) (infos s) (bo_parent_id ops b) (unat depth) links" "0 < unat depth"
  shows "\<exists>s' i. put_block st ops s b = Some (Ok s') \<and> inv_s s' \<and> infos_ok (bo_zero ops) (infos s') \<and>
    infos s' = (infos s)(h \<mapsto> i) \<and> bi_depth i = depth \<and> info_parent i = bo_parent_id ops b \<and>
    get_block st s' h = Ok (b, i) \<and> (\<forall>h'. h' \<noteq> h \<longrightarrow> get_block st s' h' = get_block st s h')"
proof -
  let ?i = "\<lparr> bi_hash = h, bi_depth = depth, bi_links = links \<rparr>"
  obtain s' where s': "put_block_internal st s b ?i = Ok s'" "inv_s s'" "infos s' = (infos s)(h \<mapsto> ?i)"
      "get_block st s' h = Ok (b, ?i)" "\<forall>h'. h' \<noteq> h \<longrightarrow> get_block st s' h' = get_block st s h'"
    using put [OF s(1) _ b(1), of ?i] new(1) links(2) by auto
  have "put_block st ops s b = Some (Ok s')"
    using s'(1) by (simp add: put_block_def b(2) block_exists_eq [OF s(1)] new(1) links(1))
  moreover have "infos_ok (bo_zero ops) ((infos s)(h \<mapsto> ?i))" "info_parent ?i = bo_parent_id ops b"
    using infos_ok_insert [OF s(2) new, of "bo_parent_id ops b" ?i] links(3,4) by simp_all
  ultimately show ?thesis using s' by (intro exI [of _ s'] exI [of _ ?i]) simp
qed

lemma put_block_cases:
  assumes s: "inv_s s" "infos_ok (bo_zero ops) (infos s)" and b: "storable ops b" "bo_id ops b = Ok h" "h \<noteq> bo_zero ops"
    and fits: "\<And>i. infos s (bo_parent_id ops b) = Some i \<Longrightarrow> ndepth i + 1 < 2 ^ 64"
  shows "if infos s h \<noteq> None then put_block st ops s b = Some (Ok s)
    else if bo_parent_id ops b \<noteq> bo_zero ops \<and> infos s (bo_parent_id ops b) = None then
      put_block st ops s b = Some (Err BlockNotFound)
    else \<exists>s' i. put_block st ops s b = Some (Ok s') \<and> inv_s s' \<and> infos_ok (bo_zero ops) (infos s') \<and>
      infos s' = (infos s)(h \<mapsto> i) \<and> info_parent i = bo_parent_id ops b \<and>
      ndepth i = (case infos s (bo_parent_id ops b) of None \<Rightarrow> 1 | Some p \<Rightarrow> Suc (ndepth p)) \<and>
      get_block st s' h = Ok (b, i) \<and> (\<forall>h'. h' \<noteq> h \<longrightarrow> get_block st s' h' = get_block st s h')"
proof (cases "infos s h")
  case (Some i)
  then show ?thesis by (simp add: put_block_def b(2) block_exists_eq [OF s(1)])
next
  case new: None
  let ?p = "bo_parent_id ops b"
  show ?thesis
  proof (cases "infos s ?p")
    case None
    show ?thesis
    proof (cases "?p = bo_zero ops")
      case True
      have "compute_links st ops s ?p = Some (Ok (1, [\<lparr> link_distance = 1, link_hash = ?p \<rparr>]))"
        by (simp add: compute_links_def True)
      with put_new [OF s b(1,2) new b(3), of 1 "[\<lparr> link_distance = 1, link_hash = ?p \<rparr>]"] True None new
      show ?thesis by (fastforce simp: standard_links_def links_ok_def)
    next
      case False
      with None new show ?thesis
        by (simp add: put_block_def b(2) block_exists_eq [OF s(1)] compute_links_def get_info [OF s(1)] Let_def)
    qed
  next
    case (Some i)
    with links_computed [OF s Some fits [OF Some]] put_new [OF s b(1,2) new b(3)] new
    show ?thesis by fastforce
  qed
qed

lemma ancestor_cases:
  assumes s: "inv_s s" "infos_ok (bo_zero ops) (infos s)" and d: "infos s d = Some i"
    and a: "a = bo_zero ops \<or> infos s a \<noteq> None"
  shows "\<exists>r. is_ancestor st ops s a d = Some (Ok r) \<and>
    (case r of
       None \<Rightarrow> \<forall>n. nth_parent (infos s) n d \<noteq> a
     | Some n \<Rightarrow> unat n \<le> ndepth i \<and> nth_parent (infos s) (unat n) d = a \<and> (a \<noteq> bo_zero ops \<longrightarrow> unat n < ndepth i))"
proof -
  let ?m = "infos s" and ?z = "bo_zero ops"
  have beyond: "nth_parent ?m (ndepth i + n) d = ?z" for n
  proof (induction n)
    case 0
    then show ?case using nth_parent_zero [OF s(2) d] by simp
  next
    case (Suc n)
    then show ?case using s(2) by (simp add: step_back_def infos_ok_def)
  qed
  have pos: "0 < ndepth i" "bi_hash i = d" using infos_okD [OF s(2) d] by (simp_all add: info_ok_def)
  consider "a = d" | "a \<noteq> d" "a = ?z" | j where "a \<noteq> d" "a \<noteq> ?z" "?m a = Some j" using a by auto
  then show ?thesis
  proof cases
    case 1
    then show ?thesis using pos by (simp add: is_ancestor_def)
  next
    case 2
    then show ?thesis using nth_parent_zero [OF s(2) d] by (simp add: is_ancestor_def get_info [OF s(1)] d)
  next
    case 3
    have j: "0 < ndepth j" "bi_hash j = a" using infos_okD [OF s(2) 3(3)] by (simp_all add: info_ok_def)
    have at: "n < ndepth i \<and> ndepth j = ndepth i - n" if "nth_parent ?m n d = a" for n
    proof -
      have "n < ndepth i" using beyond [of "n - ndepth i"] that 3(2) by (cases "n < ndepth i") auto
      then show ?thesis using nth_parent_depth_unique(1) [OF s(2) d, of n j] that 3(3) by simp
    qed
    show ?thesis
    proof (cases "bi_depth i \<le> bi_depth j")
      case True
      have "\<forall>n. nth_parent ?m n d \<noteq> a"
      proof (intro allI notI)
        fix n assume n: "nth_parent ?m n d = a"
        with 3(1) have "n \<noteq> 0" using nth_parent_simps(1) [of ?m d] by metis
        with at [OF n] True show False unfolding word_le_nat_alt by linarith
      qed
      with True 3 show ?thesis by (simp add: is_ancestor_def get_info [OF s(1)] d)
    next
      case False
      let ?n = "bi_depth i - bi_depth j"
      have n: "unat ?n = ndepth i - ndepth j" "unat ?n < ndepth i"
        using False j(1) by (simp_all add: unat_sub word_le_nat_alt)
      obtain k where k: "get_nth_ancestor st s d ?n = Some (Ok k)" "?m (nth_parent ?m (unat ?n) d) = Some k"
        using nth_ancestor [OF s d n(2)] by blast
      have "bi_hash k = nth_parent ?m (unat ?n) d" using nth_parent_depth_unique(2) [OF s(2) d n(2) k(2)] .
      moreover have "nth_parent ?m x d \<noteq> a" if "nth_parent ?m (unat ?n) d \<noteq> a" for x
        using at [of x] that n(1) by auto
      ultimately show ?thesis
        using False 3 k(1) n j(2) pos(2)
        by (cases "nth_parent ?m (unat ?n) d = a") (auto simp: is_ancestor_def get_info [OF s(1)] d)
    qed
  qed
qed

lemma iter_done: "iter_inv m t i it \<Longrightarrow> unat (it_cur_depth it) = ndepth i \<Longrightarrow> block_iter_next st s it = Some (Ok (None, it))"
  by (simp add: iter_inv_def block_iter_next_def word_le_nat_alt)

lemma search_from_parent:
  assumes s: "inv_s s" "infos_ok zero (infos s)" and t: "infos s t = Some i"
    and p: "infos s (nth_parent (infos s) (ndepth i - ndepth p) t) = Some p" "ndepth p \<le> ndepth i"
    and c: "0 < unat c" "unat c < ndepth p"
  shows "\<exists>j path. parent_id p = (Ok (info_parent p) :: ('id, 'e) outcome) \<and>
    get_path_to_nth_ancestor st s (info_parent p) (bi_depth p - c - 1) = Some (Ok j, path) \<and>
    infos s (nth_parent (infos s) (ndepth i - unat c) t) = Some j \<and>
    path_ok (infos s) (nth_parent (infos s) (ndepth i - (ndepth p - 1)) t) (ndepth p - 1) (unat c) path"
proof -
  let ?m = "infos s" and ?h = "nth_parent (infos s) (ndepth i - ndepth p) t" and ?d = "bi_depth p - c - 1"
  have d: "unat ?d = ndepth p - unat c - 1" using unat_diff_1 [OF c(2)] .
  have par: "info_parent p = nth_parent ?m (ndepth i - (ndepth p - 1)) t"
  proof -
    have "ndepth i - (ndepth p - 1) = Suc (ndepth i - ndepth p)" using p(2) c by simp
    then show ?thesis by (simp add: step_back_Some [of ?m ?h, OF p(1)])
  qed
  have "ndepth i - (ndepth p - 1) < ndepth i" "ndepth i - (ndepth i - (ndepth p - 1)) = ndepth p - 1"
    using p(2) c by linarith+
  then obtain q where q: "?m (info_parent p) = Some q" "ndepth q = ndepth p - 1"
    using nth_parent_stored [OF s(2) t] unfolding par by metis
  have "unat ?d < ndepth q" using q(2) d c by linarith
  then obtain j path where j: "get_path_to_nth_ancestor st s (info_parent p) ?d = Some (Ok j, path)"
      "?m (nth_parent ?m (unat ?d) (info_parent p)) = Some j"
      "path_ok ?m (info_parent p) (ndepth q) (ndepth q - unat ?d) path"
    using path_to_ancestor [OF s q(1)] by blast
  moreover have "ndepth q - unat ?d = unat c" using q(2) d c by linarith
  moreover have "ndepth i - unat c = unat ?d + (ndepth i - (ndepth p - 1))" using d c p(2) by linarith
  ultimately show ?thesis
    using q(2) par parent_id_ok [OF infos_okD [OF s(2) p(1)]] by (simp only: nth_parent_add) blast
qed

lemma iter_step:
  assumes s: "inv_s s" "infos_ok zero (infos s)" and t: "infos s t = Some i"
    and it: "iter_inv (infos s) t i it" "unat (it_cur_depth it) < ndepth i"
  shows "\<exists>j it'. block_iter_next st s it = Some (Ok (Some (Ok j), it')) \<and> iter_inv (infos s) t i it' \<and>
    unat (it_cur_depth it') = Suc (unat (it_cur_depth it)) \<and>
    infos s (nth_parent (infos s) (ndepth i - Suc (unat (it_cur_depth it))) t) = Some j"
proof -
  let ?m = "infos s" and ?c = "it_cur_depth it + 1"
  have c: "unat ?c = Suc (unat (it_cur_depth it))"
    using it(2) unat_bound [of "bi_depth i"] by (simp add: unat_add_no_overflow)
  obtain rest p where p: "it_pending it = rest @ [p]" "\<exists>tl. rest @ [p] = i # tl"
    using it by (metis (no_types, lifting) iter_inv_def rev_exhaust list.distinct(1))
  have path: "path_ok ?m t (ndepth i) (unat (it_cur_depth it)) (rest @ [p])" and to: "it_to_depth it = bi_depth i"
    using it(1) p(1) by (simp_all add: iter_inv_def)
  note p' = path_ok_snoc [OF path]
  have enter: "\<not> it_to_depth it \<le> it_cur_depth it" using it(2) to by (simp add: word_le_nat_alt)
  have above: "\<forall>q \<in> set rest. unat ?c < ndepth q" using p'(2,3) c by fastforce
  show ?thesis
  proof (cases "bi_depth p = ?c")
    case True
    have "block_iter_next st s it = Some (Ok (Some (Ok p), it\<lparr>it_cur_depth := ?c, it_pending := rest\<rparr>))"
      using enter p(1) True by (simp add: block_iter_next_def Let_def)
    moreover have "iter_inv ?m t i (it\<lparr>it_cur_depth := ?c, it_pending := rest\<rparr>)"
      using to c it(2) p(2) True path_ok_weaken [OF p'(1) above] by (auto simp: iter_inv_def append_eq_Cons_conv)
    ultimately show ?thesis using p'(5) c True by auto
  next
    case False
    then have gt: "unat ?c < ndepth p" using p'(3) c by (simp add: word_unat_eq_iff)
    then obtain j path' where j: "parent_id p = (Ok (info_parent p) :: ('id, store_error) outcome)"
        "get_path_to_nth_ancestor st s (info_parent p) (bi_depth p - ?c - 1) = Some (Ok j, path')"
        "?m (nth_parent ?m (ndepth i - unat ?c) t) = Some j"
        "path_ok ?m (nth_parent ?m (ndepth i - (ndepth p - 1)) t) (ndepth p - 1) (unat ?c) path'"
      using search_from_parent [OF s t p'(5,4), of ?c] c by fastforce
    let ?it = "it\<lparr>it_cur_depth := ?c, it_pending := rest @ [p] @ path'\<rparr>"
    have "block_iter_next st s it = Some (Ok (Some (Ok j), ?it))"
      using enter p(1) False gt j(1,2) by (simp add: block_iter_next_def Let_def word_less_nat_alt)
    moreover have "path_ok ?m t (ndepth i) (unat ?c) (rest @ [p])" "\<forall>x \<in> set (rest @ [p]). ndepth p - 1 < ndepth x"
      using path_ok_weaken [OF path, of "unat ?c"] above gt p'(2) by (auto intro: less_imp_diff_less)
    then have "path_ok ?m t (ndepth i) (unat ?c) ((rest @ [p]) @ path')"
      by (rule path_ok_append [OF _ _ _ j(4)]) (use p'(4) in simp)
    then have "iter_inv ?m t i ?it" using to c it(2) p(2) by (auto simp: iter_inv_def append_eq_Cons_conv)
    ultimately show ?thesis using j(3) c by auto
  qed
qed

lemma range_collect_left:
  assumes s: "inv_s s" "infos_ok zero (infos s)" and t: "infos s t = Some i"
    and "iter_inv (infos s) t i it" and "ndepth i - unat (it_cur_depth it) < n"
  shows "\<exists>js. iter_collect st s n it = Some (Ok js) \<and> length js = ndepth i - unat (it_cur_depth it) \<and>
    (\<forall>k < length js. infos s (nth_parent (infos s) (length js - Suc k) t) = Some (js ! k))"
  using assms(4,5)
proof (induction n arbitrary: it)
  case (Suc n)
  show ?case
  proof (cases "unat (it_cur_depth it) < ndepth i")
    case False
    then have "unat (it_cur_depth it) = ndepth i" using Suc.prems(1) by (simp add: iter_inv_def)
    then show ?thesis by (simp add: iter_done [OF Suc.prems(1)])
  next
    case True
    obtain j it' where j: "block_iter_next st s it = Some (Ok (Some (Ok j), it'))" "iter_inv (infos s) t i it'"
        "unat (it_cur_depth it') = Suc (unat (it_cur_depth it))"
        "infos s (nth_parent (infos s) (ndepth i - Suc (unat (it_cur_depth it))) t) = Some j"
      using iter_step [OF s t Suc.prems(1) True] by blast
    have "ndepth i - unat (it_cur_depth it') < n" using j(3) Suc.prems(2) True by linarith
    then obtain js where js: "iter_collect st s n it' = Some (Ok js)" "length js = ndepth i - unat (it_cur_depth it')"
        "\<forall>k < length js. infos s (nth_parent (infos s) (length js - Suc k) t) = Some (js ! k)"
      using Suc.IH [OF j(2)] by blast
    then have "iter_collect st s (Suc n) it = Some (Ok (j # js))" by (simp add: j(1))
    moreover have "\<forall>k < length (j # js). infos s (nth_parent (infos s) (length (j # js) - Suc k) t) = Some ((j # js) ! k)"
      using j(3,4) js(2,3) by (auto simp: less_Suc_eq_0_disj)
    ultimately show ?thesis using js(2) j(3) True by (intro exI [of _ "j # js"]) simp
  qed
qed simp

lemma iterate_range_ok:
  assumes s: "inv_s s" "infos_ok (bo_zero ops) (infos s)" and t: "infos s t = Some i"
    and f: "f = bo_zero ops \<or> infos s f \<noteq> None"
  shows "if \<exists>n. nth_parent (infos s) n t = f then
      \<exists>it js. iterate_range st ops s f t = Some (Ok it) \<and> iter_collect st s (Suc (ndepth i)) it = Some (Ok js) \<and>
        length js \<le> ndepth i \<and> nth_parent (infos s) (length js) t = f \<and>
        (\<forall>k < length js. infos s (nth_parent (infos s) (length js - Suc k) t) = Some (js ! k))
    else iterate_range st ops s f t = Some (Err CannotIterate)"
proof -
  obtain r where r: "is_ancestor st ops s f t = Some (Ok r)"
      "case r of None \<Rightarrow> \<forall>n. nth_parent (infos s) n t \<noteq> f
       | Some n \<Rightarrow> unat n \<le> ndepth i \<and> nth_parent (infos s) (unat n) t = f \<and> (f \<noteq> bo_zero ops \<longrightarrow> unat n < ndepth i)"
    using ancestor_cases [OF s t f] by blast
  show ?thesis
  proof (cases r)
    case None
    then show ?thesis using r by (simp add: iterate_range_def)
  next
    case (Some n)
    let ?it = "\<lparr> it_to_depth = bi_depth i, it_cur_depth = bi_depth i - n, it_pending = [i] \<rparr>"
    have n: "unat n \<le> ndepth i" "nth_parent (infos s) (unat n) t = f" using r(2) Some by simp_all
    have cur: "unat (bi_depth i - n) = ndepth i - unat n" using n(1) by (simp add: unat_sub word_le_nat_alt)
    show ?thesis
    proof (cases "unat n = 0")
      case True
      then have "iter_collect st s (Suc (ndepth i)) ?it = Some (Ok [])" using cur by (simp add: block_iter_next_def word_le_nat_alt)
      moreover have "iterate_range st ops s f t = Some (Ok ?it)"
        using r(1) Some by (simp add: iterate_range_def get_info [OF s(1)] t)
      moreover have "\<exists>n. nth_parent (infos s) n t = f" using n(2) by blast
      ultimately show ?thesis using n True by (auto simp del: iter_collect.simps)
    next
      case False
      then have "iter_inv (infos s) t i ?it" using t cur n(1) by (simp add: iter_inv_def path_ok_def)
      then obtain js where js: "iter_collect st s (Suc (ndepth i)) ?it = Some (Ok js)" "length js = unat n"
          "\<forall>k < length js. infos s (nth_parent (infos s) (length js - Suc k) t) = Some (js ! k)"
        using range_collect_left [OF s t, of ?it "Suc (ndepth i)"] cur n(1) by auto
      have "iterate_range st ops s f t = Some (Ok ?it)"
        using r(1) Some by (simp add: iterate_range_def get_info [OF s(1)] t)
      moreover have "\<exists>n. nth_parent (infos s) n t = f" using n(2) by blast
      ultimately show ?thesis using js n by (auto simp del: iter_collect.simps)
    qed
  qed
qed

end

section \<open>The store in memory keeps the contract\<close>

definition mem_infos :: "('b, 'id) memory_store \<Rightarrow> 'id info_map" where
  "mem_infos s h = map_option snd (mem_blocks s h)"

lemma mem_infos_new: "mem_infos memory_new = Map.empty"
  by (simp add: mem_infos_def [abs_def] memory_new_def)

interpretation mem: block_store "memory_ops ops" ops mem_infos "\<lambda>_. True" for ops :: "('b, 'id) block_ops"
proof
  fix s :: "('b, 'id) memory_store" and h
  show "get_block_info (memory_ops ops) s h = (case mem_infos s h of None \<Rightarrow> Err BlockNotFound | Some i \<Rightarrow> Ok i)"
    by (auto simp: memory_ops_def mem_get_block_info_def mem_infos_def split: option.splits)
next
  fix s :: "('b, 'id) memory_store" and i b
  assume "storable ops b"
  then obtain w where "bo_serialize ops b = Ok w" "bo_deserialize ops w = Ok b" by (auto simp: storable_def)
  then show "\<exists>s'. put_block_internal (memory_ops ops) s b i = Ok s' \<and> True \<and>
      mem_infos s' = (mem_infos s)(bi_hash i \<mapsto> i) \<and> get_block (memory_ops ops) s' (bi_hash i) = Ok (b, i) \<and>
      (\<forall>h. h \<noteq> bi_hash i \<longrightarrow> get_block (memory_ops ops) s' h = get_block (memory_ops ops) s h)"
    by (auto simp: memory_ops_def mem_put_block_internal_def mem_get_block_def mem_infos_def unwrap_def)
qed

text \<open>
  A store that has been filled by \<^verbatim>\<open>put_block\<close> and in which tags have been set.
\<close>

inductive filled :: "('b, 'id) block_ops \<Rightarrow> ('b, 'id) memory_store \<Rightarrow> bool" for ops where
  filled_new: "filled ops memory_new"
| filled_put: "filled ops s \<Longrightarrow> storable ops b \<Longrightarrow> bo_id ops b = Ok h \<Longrightarrow> h \<noteq> bo_zero ops \<Longrightarrow>
    (\<And>i. mem_infos s (bo_parent_id ops b) = Some i \<Longrightarrow> ndepth i + 1 < 2 ^ 64) \<Longrightarrow>
    put_block (memory_ops ops) ops s b = Some (Ok s') \<Longrightarrow> filled ops s'"
| filled_tag: "filled ops s \<Longrightarrow> put_tag (memory_ops ops) s tag h = Ok s' \<Longrightarrow> filled ops s'"

lemma filled_infos_ok: "filled ops s \<Longrightarrow> infos_ok (bo_zero ops) (mem_infos s)"
proof (induction rule: filled.induct)
  case filled_new
  then show ?case by (simp add: infos_ok_def mem_infos_new)
next
  case (filled_put s b h s')
  then show ?case
    using mem.put_block_cases [OF TrueI filled_put.IH filled_put.hyps(2-5)]
    by (auto split: if_splits)
next
  case (filled_tag s tag h s')
  then show ?case
    by (auto simp: memory_ops_def mem_put_tag_def assert_then_def mem_infos_def [abs_def] split: if_splits)
qed

section \<open>Properties\<close>

text \<open>
  C15: writing a block to a store. A block that is already there changes nothing, a block whose parent is
  missing is refused, and otherwise the block becomes readable with its parent and a depth one more than the
  parent (one at the zero hash), all other blocks stay readable as before, and the new links, the far one included,
  lead to the right ancestors.
\<close>

theorem put_block_correct:
  assumes "filled ops s" and "storable ops b" and "bo_id ops b = Ok h" and "h \<noteq> bo_zero ops"
    and "\<And>i. mem_infos s (bo_parent_id ops b) = Some i \<Longrightarrow> ndepth i + 1 < 2 ^ 64"
  shows "if mem_infos s h \<noteq> None then put_block (memory_ops ops) ops s b = Some (Ok s)
    else if bo_parent_id ops b \<noteq> bo_zero ops \<and> mem_infos s (bo_parent_id ops b) = None then
      put_block (memory_ops ops) ops s b = Some (Err BlockNotFound)
    else \<exists>s' i. put_block (memory_ops ops) ops s b = Some (Ok s') \<and> infos_ok (bo_zero ops) (mem_infos s') \<and>
      mem_infos s' = (mem_infos s)(h \<mapsto> i) \<and> info_parent i = bo_parent_id ops b \<and>
      ndepth i = (case mem_infos s (bo_parent_id ops b) of None \<Rightarrow> 1 | Some p \<Rightarrow> Suc (ndepth p)) \<and>
      get_block (memory_ops ops) s' h = Ok (b, i) \<and>
      (\<forall>h'. h' \<noteq> h \<longrightarrow> get_block (memory_ops ops) s' h' = get_block (memory_ops ops) s h')"
  by (rule mem.put_block_cases [OF TrueI filled_infos_ok [OF assms(1)] assms(2-4), unfolded simp_thms])
    (fact assms(5))

text \<open>
  C14: travelling along the far links equals following the parents one by one, and it ends. For a distance below the
  depth of a block the search returns the ancestor at that distance, and the question whether one
  block is an ancestor of another is answered with the distance exactly when it is.
\<close>

theorem ancestor_correct:
  assumes "filled ops s" and "mem_infos s h = Some i" and "a = bo_zero ops \<or> mem_infos s a \<noteq> None"
  shows "(\<forall>d. unat d < ndepth i \<longrightarrow> (\<exists>j. get_nth_ancestor (memory_ops ops) s h d = Some (Ok j) \<and>
        mem_infos s (nth_parent (mem_infos s) (unat d) h) = Some j)) \<and>
    (\<exists>r. is_ancestor (memory_ops ops) ops s a h = Some (Ok r) \<and>
      (case r of
         None \<Rightarrow> \<forall>n. nth_parent (mem_infos s) n h \<noteq> a
       | Some n \<Rightarrow> unat n \<le> ndepth i \<and> nth_parent (mem_infos s) (unat n) h = a))"
proof (intro conjI allI impI)
  note ok = filled_infos_ok [OF assms(1)]
  show "\<exists>j. get_nth_ancestor (memory_ops ops) s h d = Some (Ok j) \<and>
      mem_infos s (nth_parent (mem_infos s) (unat d) h) = Some j" if "unat d < ndepth i" for d
    using mem.nth_ancestor [OF TrueI ok assms(2) that] .
  show "\<exists>r. is_ancestor (memory_ops ops) ops s a h = Some (Ok r) \<and>
      (case r of None \<Rightarrow> \<forall>n. nth_parent (mem_infos s) n h \<noteq> a
       | Some n \<Rightarrow> unat n \<le> ndepth i \<and> nth_parent (mem_infos s) (unat n) h = a)"
    using mem.ancestor_cases [OF TrueI ok assms(2,3)] by (auto split: option.splits)
qed

text \<open>
  C16: iterating over a range. Between a block and an ancestor of it (or the zero hash) the iterator ends after
  as many steps as there are blocks between them and yields exactly these, from the older to the newer; if
  the first is not an ancestor of the second, the range is refused.
\<close>

theorem iterate_range_correct:
  assumes "filled ops s" and "mem_infos s t = Some i" and "f = bo_zero ops \<or> mem_infos s f \<noteq> None"
  shows "if \<exists>n. nth_parent (mem_infos s) n t = f then
      \<exists>it js. iterate_range (memory_ops ops) ops s f t = Some (Ok it) \<and>
        iter_collect (memory_ops ops) s (Suc (ndepth i)) it = Some (Ok js) \<and>
        length js \<le> ndepth i \<and> nth_parent (mem_infos s) (length js) t = f \<and>
        (\<forall>k < length js. mem_infos s (nth_parent (mem_infos s) (length js - Suc k) t) = Some (js ! k))
    else iterate_range (memory_ops ops) ops s f t = Some (Err CannotIterate)"
  using mem.iterate_range_ok [OF TrueI filled_infos_ok [OF assms(1)] assms(2,3)] .

section \<open>Examples\<close>

text \<open>Blocks that are numbers, whose parents are the numbers before them.\<close>

definition demo_ops :: "(nat, nat) block_ops" where
  "demo_ops =
     \<lparr> bo_id = Ok, bo_parent_id = (\<lambda>n. n - 1), bo_zero = 0, bo_serialize = (\<lambda>n. Ok [word_of_nat n]),
       bo_deserialize = (\<lambda>w. case w of [b] \<Rightarrow> Ok (unat b) | _ \<Rightarrow> Err BlockNotFound) \<rparr>"

lemma demo_ops_simps:
  "bo_id demo_ops n = Ok n" "bo_parent_id demo_ops n = n - 1" "bo_zero demo_ops = 0"
  "n < 256 \<Longrightarrow> storable demo_ops n"
  by (simp_all add: demo_ops_def storable_def unat_of_nat)

lemma demo_store:
  assumes "n < 256"
  shows "\<exists>s. filled demo_ops s \<and> (\<forall>k. mem_infos s k \<noteq> None \<longleftrightarrow> 0 < k \<and> k \<le> n) \<and>
    (\<forall>k i. mem_infos s k = Some i \<longrightarrow> ndepth i = k \<and> info_parent i = k - 1)"
  using assms
proof (induction n)
  case 0
  show ?case by (rule exI [of _ memory_new]) (auto simp: filled_new mem_infos_new)
next
  case (Suc n)
  then obtain s where s: "filled demo_ops s" "\<And>k. mem_infos s k \<noteq> None \<longleftrightarrow> 0 < k \<and> k \<le> n"
      "\<And>k i. mem_infos s k = Some i \<Longrightarrow> ndepth i = k \<and> info_parent i = k - 1" by auto
  have new: "mem_infos s (Suc n) = None" using s(2) [of "Suc n"] by simp
  have fits: "mem_infos s (bo_parent_id demo_ops (Suc n)) = Some i \<Longrightarrow> ndepth i + 1 < 2 ^ 64" for i
    using s(3) [of n i] Suc.prems by (simp add: demo_ops_simps)
  have par: "\<not> (n \<noteq> 0 \<and> mem_infos s n = None)" using s(2) [of n] by auto
  have depth: "(case mem_infos s n of None \<Rightarrow> 1 | Some p \<Rightarrow> Suc (ndepth p)) = Suc n"
    using s(3) [of n] par s(2) [of n] by (cases "mem_infos s n") auto
  obtain s' i where s': "put_block (memory_ops demo_ops) demo_ops s (Suc n) = Some (Ok s')"
      "mem_infos s' = (mem_infos s)(Suc n \<mapsto> i)" "info_parent i = n" "ndepth i = Suc n"
    using mem.put_block_cases [OF TrueI filled_infos_ok [OF s(1)], of "Suc n" "Suc n"] fits new par depth Suc.prems
    by (auto simp: demo_ops_simps)
  have "filled demo_ops s'"
    using s(1) s'(1) fits Suc.prems
    by (intro filled_put [OF s(1) _ _ _ fits s'(1), of "Suc n"]) (simp_all add: demo_ops_simps)
  then show ?case using s' s(2,3) by (intro exI [of _ s']) (auto simp: le_Suc_eq)
qed

lemma demo_nth_parent:
  assumes "\<And>k. mem_infos s k \<noteq> None \<longleftrightarrow> 0 < k \<and> k \<le> n" and "\<And>k i. mem_infos s k = Some i \<Longrightarrow> info_parent i = k - 1"
    and "k \<le> n"
  shows "nth_parent (mem_infos s) d k = k - d"
proof (induction d)
  case (Suc d)
  show ?case
  proof (cases "mem_infos s (k - d)")
    case None
    then have "k - d = 0" using assms(1) [of "k - d"] assms(3) by auto
    with None Suc show ?thesis by (simp add: step_back_def)
  next
    case (Some i)
    with Suc assms(2) [OF Some] show ?thesis by (simp add: step_back_def)
  qed
qed simp

theorem put_block_correct_witness:
  "\<exists>s s' i. filled demo_ops s \<and> put_block (memory_ops demo_ops) demo_ops s 40 = Some (Ok s') \<and>
     get_block (memory_ops demo_ops) s' 40 = Ok (40, i) \<and> ndepth i = 40"
proof -
  obtain s where s: "filled demo_ops s" "\<And>k. mem_infos s k \<noteq> None \<longleftrightarrow> 0 < k \<and> k \<le> 39"
      "\<And>k i. mem_infos s k = Some i \<Longrightarrow> ndepth i = k \<and> info_parent i = k - 1" using demo_store [of 39] by auto
  obtain i where i: "mem_infos s 39 = Some i" "ndepth i = 39" using s(2) [of 39] s(3) [of 39] by auto
  have "mem_infos s 40 = None" using s(2) [of 40] by simp
  then show ?thesis
    using put_block_correct [OF s(1), of 40 40] s(1) i by (fastforce simp: demo_ops_simps)
qed

theorem ancestor_correct_witness:
  "\<exists>s j. filled demo_ops s \<and> get_nth_ancestor (memory_ops demo_ops) s 40 33 = Some (Ok j) \<and> bi_hash j = 7 \<and>
     is_ancestor (memory_ops demo_ops) demo_ops s 9 40 = Some (Ok (Some 31))"
proof -
  obtain s where s: "filled demo_ops s" "\<And>k. mem_infos s k \<noteq> None \<longleftrightarrow> 0 < k \<and> k \<le> 40"
      "\<And>k i. mem_infos s k = Some i \<Longrightarrow> ndepth i = k \<and> info_parent i = k - 1" using demo_store [of 40] by auto
  obtain i where i: "mem_infos s 40 = Some i" "ndepth i = 40" using s(2) [of 40] s(3) [of 40] by auto
  have par: "nth_parent (mem_infos s) d 40 = 40 - d" for d using demo_nth_parent [of s 40] s(2,3) by blast
  have nine: "mem_infos s 9 \<noteq> None" using s(2) [of 9] by simp
  note a = ancestor_correct [OF s(1) i(1) disjI2 [OF nine], unfolded par i(2)]
  obtain j where j: "get_nth_ancestor (memory_ops demo_ops) s 40 33 = Some (Ok j)" "mem_infos s 7 = Some j"
    using a [THEN conjunct1, rule_format, of 33] by auto
  have "bi_hash j = 7" using infos_okD [OF filled_infos_ok [OF s(1)] j(2)] by (simp add: info_ok_def)
  moreover obtain r where r: "is_ancestor (memory_ops demo_ops) demo_ops s 9 40 = Some (Ok r)"
      "case r of None \<Rightarrow> \<forall>n. 40 - n \<noteq> (9 :: nat) | Some n \<Rightarrow> unat n \<le> 40 \<and> 40 - unat n = 9"
    using a [THEN conjunct2] by (elim exE conjE) (rule that)
  have "r = Some 31"
  proof (cases r)
    case None
    then show ?thesis using r(2) by (auto dest: spec [of _ 31])
  next
    case (Some n)
    then have "unat n \<le> 40" "40 - unat n = 9" using r(2) by simp_all
    then have "unat n = unat (31 :: u64)" by simp
    with Some show ?thesis by (simp add: word_unat_eq_iff)
  qed
  ultimately have "filled demo_ops s \<and> get_nth_ancestor (memory_ops demo_ops) s 40 33 = Some (Ok j) \<and> bi_hash j = 7 \<and>
      is_ancestor (memory_ops demo_ops) demo_ops s 9 40 = Some (Ok (Some 31))"
    using s(1) j(1) r(1) by simp
  then show ?thesis by - ((rule exI)+, assumption)
qed

theorem iterate_range_correct_witness:
  "\<exists>s it js. filled demo_ops s \<and> iterate_range (memory_ops demo_ops) demo_ops s 37 40 = Some (Ok it) \<and>
     iter_collect (memory_ops demo_ops) s 41 it = Some (Ok js) \<and> map bi_hash js = [38, 39, 40]"
proof -
  obtain s where s: "filled demo_ops s" "\<And>k. mem_infos s k \<noteq> None \<longleftrightarrow> 0 < k \<and> k \<le> 40"
      "\<And>k i. mem_infos s k = Some i \<Longrightarrow> ndepth i = k \<and> info_parent i = k - 1" using demo_store [of 40] by auto
  obtain i where i: "mem_infos s 40 = Some i" "ndepth i = 40" using s(2) [of 40] s(3) [of 40] by auto
  have par: "nth_parent (mem_infos s) d 40 = 40 - d" for d using demo_nth_parent [of s 40] s(2,3) by blast
  have "mem_infos s 37 \<noteq> None" using s(2) [of 37] by simp
  moreover have "\<exists>n. 40 - n = (37 :: nat)" by (rule exI [of _ 3]) simp
  ultimately obtain it js where js: "iterate_range (memory_ops demo_ops) demo_ops s 37 40 = Some (Ok it)"
      "iter_collect (memory_ops demo_ops) s 41 it = Some (Ok js)" "40 - length js = 37"
      "\<forall>k < length js. mem_infos s (40 - (length js - Suc k)) = Some (js ! k)"
    using iterate_range_correct [OF s(1) i(1), of 37, unfolded par i(2)] by auto
  have "map bi_hash js = [38, 39, 40]"
  proof (rule nth_equalityI)
    show "length (map bi_hash js) = length [38, 39, 40 :: nat]" using js(3) by simp
    fix k assume k: "k < length (map bi_hash js)"
    then have "bi_hash (js ! k) = 40 - (length js - Suc k)"
      using infos_okD [OF filled_infos_ok [OF s(1)]] js(4) by (auto simp: info_ok_def)
    moreover have "length js = 3" using js(3) by simp
    ultimately show "map bi_hash js ! k = [38, 39, 40] ! k" using k by (auto simp: less_Suc_eq numeral_3_eq_3)
  qed
  then have "filled demo_ops s \<and> iterate_range (memory_ops demo_ops) demo_ops s 37 40 = Some (Ok it) \<and>
      iter_collect (memory_ops demo_ops) s 41 it = Some (Ok js) \<and> map bi_hash js = [38, 39, 40]"
    using s(1) js(1,2) by simp
  then show ?thesis by - ((rule exI)+, assumption)
qed

end
