(* ===== verification/Sqlite_Store.thy ===== *)
theory Sqlite_Store
  imports Block_Store Key
begin

text \<open>
  The store of blocks in a database, \<^verbatim>\<open>chain-storage-sqlite/src/lib.rs\<close>. The three tables are maps from their primary
  keys to their rows; an insertion with a key that is taken violates the primary key, and the \<^verbatim>\<open>unwrap\<close> on its result
  panics. Identifiers are stored as their serialized bytes, and unsigned numbers as the signed numbers with the same
  bits. Foreign keys are declared in the tables and not enforced, which is what the database does unless it is asked to.
  The locale \<open>id_codec\<close> says what is needed of identifiers; it makes the database a second
  implementation of the contract \<open>block_store\<close>.
\<close>

section \<open>Definitions\<close>

record info_row =
  row_depth :: u64
  row_parent :: bytes
  row_fast_distance :: "u64 option"
  row_fast_hash :: "bytes option"

record sqlite_store =
  table_blocks :: "bytes \<rightharpoonup> bytes"
  table_infos :: "bytes \<rightharpoonup> info_row"
  table_tags :: "string \<rightharpoonup> bytes"

record 'id id_ops =
  id_serialize :: "'id \<Rightarrow> bytes"
  id_deserialize :: "bytes \<Rightarrow> ('id, store_error) outcome"

definition sqlite_new :: sqlite_store where
  "sqlite_new = \<lparr> table_blocks = Map.empty, table_infos = Map.empty, table_tags = Map.empty \<rparr>"

definition blob_to_hash :: "'id id_ops \<Rightarrow> bytes \<Rightarrow> ('id, store_error) outcome" where
  "blob_to_hash ids blob = unwrap (id_deserialize ids blob)"

definition sqlite_put_block_internal ::
  "('b, 'id) block_ops \<Rightarrow> 'id id_ops \<Rightarrow> sqlite_store \<Rightarrow> 'b \<Rightarrow> 'id block_info \<Rightarrow> (sqlite_store, store_error) outcome" where
  "sqlite_put_block_internal ops ids s b i =
     (let key = id_serialize ids (bi_hash i) in
      obind (unwrap (bo_serialize ops b)) (\<lambda>w.
        assert_then (table_blocks s key = None)
          (let s = s\<lparr>table_blocks := (table_blocks s)(key \<mapsto> w)\<rparr> in
           obind (unwrap_opt (find (\<lambda>x. link_distance x = 1) (bi_links i))) (\<lambda>parent.
             let (fast_distance, fast_hash) =
                   (case find (\<lambda>x. link_distance x \<noteq> 1) (bi_links i) of
                      Some fast_link \<Rightarrow> (Some (link_distance fast_link), Some (id_serialize ids (link_hash fast_link)))
                    | None \<Rightarrow> (None, None))
             in assert_then (table_infos s key = None)
                  (Ok (s\<lparr>table_infos := (table_infos s)(key \<mapsto>
                     \<lparr> row_depth = bi_depth i, row_parent = id_serialize ids (link_hash parent),
                       row_fast_distance = fast_distance, row_fast_hash = fast_hash \<rparr>)\<rparr>))))))"

text \<open>Reading a column that is null as bytes panics.\<close>

definition sqlite_get_block_info ::
  "'id id_ops \<Rightarrow> sqlite_store \<Rightarrow> 'id \<Rightarrow> ('id block_info, store_error) outcome" where
  "sqlite_get_block_info ids s h =
     (case table_infos s (id_serialize ids h) of
        None \<Rightarrow> Err BlockNotFound
      | Some row \<Rightarrow>
          obind (blob_to_hash ids (row_parent row)) (\<lambda>parent.
            let back_links = [\<lparr> link_distance = 1, link_hash = parent \<rparr>] in
            obind (case row_fast_distance row of
                     None \<Rightarrow> Ok back_links
                   | Some fast_distance \<Rightarrow>
                       obind (unwrap_opt (row_fast_hash row)) (\<lambda>blob.
                         obind (blob_to_hash ids blob) (\<lambda>fast_hash.
                           Ok (back_links @ [\<lparr> link_distance = fast_distance, link_hash = fast_hash \<rparr>]))))
              (\<lambda>back_links. Ok \<lparr> bi_hash = h, bi_depth = row_depth row, bi_links = back_links \<rparr>)))"

definition sqlite_get_block ::
  "('b, 'id) block_ops \<Rightarrow> 'id id_ops \<Rightarrow> sqlite_store \<Rightarrow> 'id \<Rightarrow> ('b \<times> 'id block_info, store_error) outcome" where
  "sqlite_get_block ops ids s h =
     (case table_blocks s (id_serialize ids h) of
        None \<Rightarrow> Err BlockNotFound
      | Some w \<Rightarrow>
          obind (unwrap (bo_deserialize ops w)) (\<lambda>blk.
            obind (sqlite_get_block_info ids s h) (\<lambda>info. Ok (blk, info))))"

definition sqlite_put_tag :: "'id id_ops \<Rightarrow> sqlite_store \<Rightarrow> string \<Rightarrow> 'id \<Rightarrow> (sqlite_store, store_error) outcome" where
  "sqlite_put_tag ids s tag h = Ok (s\<lparr>table_tags := (table_tags s)(tag \<mapsto> id_serialize ids h)\<rparr>)"

definition sqlite_get_tag :: "'id id_ops \<Rightarrow> sqlite_store \<Rightarrow> string \<Rightarrow> ('id option, store_error) outcome" where
  "sqlite_get_tag ids s tag =
     (case table_tags s tag of
        Some blob \<Rightarrow> obind (blob_to_hash ids blob) (\<lambda>h. Ok (Some h))
      | None \<Rightarrow> Ok None)"

definition sqlite_ops :: "('b, 'id) block_ops \<Rightarrow> 'id id_ops \<Rightarrow> (sqlite_store, 'b, 'id) store_ops" where
  "sqlite_ops ops ids =
     \<lparr> put_block_internal = sqlite_put_block_internal ops ids, get_block = sqlite_get_block ops ids,
       get_block_info = sqlite_get_block_info ids, put_tag = sqlite_put_tag ids, get_tag = sqlite_get_tag ids \<rparr>"

section \<open>The database keeps the contract\<close>

text \<open>Both tables have the same keys, and every row can be read.\<close>

definition sqlite_inv :: "'id id_ops \<Rightarrow> sqlite_store \<Rightarrow> bool" where
  "sqlite_inv ids s \<longleftrightarrow>
     (\<forall>h. table_blocks s (id_serialize ids h) = None \<longleftrightarrow> table_infos s (id_serialize ids h) = None) \<and>
     (\<forall>h. sqlite_get_block_info ids s h \<noteq> Panic)"

definition sqlite_infos :: "'id id_ops \<Rightarrow> sqlite_store \<Rightarrow> 'id info_map" where
  "sqlite_infos ids s h = (case sqlite_get_block_info ids s h of Ok i \<Rightarrow> Some i | _ \<Rightarrow> None)"

locale id_codec =
  fixes ids :: "'id id_ops"
  assumes id_roundtrip: "id_deserialize ids (id_serialize ids h) = Ok h"
begin

lemma id_serialize_inj: "id_serialize ids h = id_serialize ids h' \<longleftrightarrow> h = h'"
  by (metis id_roundtrip outcome.inject(1))

lemma blob_to_hash_ser [simp]: "blob_to_hash ids (id_serialize ids h) = Ok h"
  by (simp add: blob_to_hash_def id_roundtrip unwrap_def)

lemma get_info_Err: "sqlite_get_block_info ids s h = Err e \<longleftrightarrow> table_infos s (id_serialize ids h) = None \<and> e = BlockNotFound"
  by (auto simp: sqlite_get_block_info_def blob_to_hash_def unwrap_def unwrap_opt_def obind_eq_Err Let_def
      split: option.splits outcome.splits)

lemma get_info_eq:
  "sqlite_inv ids s \<Longrightarrow>
     sqlite_get_block_info ids s h = (case sqlite_infos ids s h of None \<Rightarrow> Err BlockNotFound | Some i \<Rightarrow> Ok i)"
  by (auto simp: sqlite_infos_def sqlite_inv_def get_info_Err split: outcome.splits)

lemma standard_links_cases:
  assumes "standard_links links"
  obtains (One) p where "links = [\<lparr> link_distance = 1, link_hash = p \<rparr>]"
  | (Two) p f where "links = [\<lparr> link_distance = 1, link_hash = p \<rparr>, f]" "link_distance f \<noteq> 1"
proof -
  obtain l fast where l: "links = l # fast" "link_distance l = 1" "length fast \<le> 1" "\<forall>f \<in> set fast. link_distance f \<noteq> 1"
    using assms by (auto simp: standard_links_def)
  have eq: "l = \<lparr> link_distance = 1, link_hash = link_hash l \<rparr>" using l(2) by simp
  show thesis
  proof (cases fast)
    case Nil
    with l(1) eq show ?thesis by (intro One [of "link_hash l"]) simp
  next
    case (Cons f fs)
    with l eq show ?thesis by (intro Two [of "link_hash l" f]) simp_all
  qed
qed

lemma sqlite_put_get:
  assumes inv: "sqlite_inv ids s" and new: "sqlite_infos ids s (bi_hash i) = None" and b: "storable ops b"
    and links: "standard_links (bi_links i)"
  shows "\<exists>s'. put_block_internal (sqlite_ops ops ids) s b i = Ok s' \<and>
    (\<forall>h. sqlite_get_block_info ids s' h = (if h = bi_hash i then Ok i else sqlite_get_block_info ids s h)) \<and>
    (\<forall>h. (table_blocks s' (id_serialize ids h) = None) = (h \<noteq> bi_hash i \<and> table_blocks s (id_serialize ids h) = None)) \<and>
    (\<forall>h. get_block (sqlite_ops ops ids) s' h =
      (if h = bi_hash i then Ok (b, i) else get_block (sqlite_ops ops ids) s h))"
proof -
  let ?key = "id_serialize ids (bi_hash i)"
  obtain w where w: "bo_serialize ops b = Ok w" "bo_deserialize ops w = Ok b" using b by (auto simp: storable_def)
  have "sqlite_get_block_info ids s (bi_hash i) = Err BlockNotFound" using get_info_eq [OF inv] new by simp
  then have none: "table_infos s ?key = None" "table_blocks s ?key = None"
    using inv by (simp_all add: get_info_Err sqlite_inv_def)
  from links show ?thesis
  proof (cases rule: standard_links_cases)
    case (One p)
    then have "i = \<lparr> bi_hash = bi_hash i, bi_depth = bi_depth i, bi_links = [\<lparr> link_distance = 1, link_hash = p \<rparr>] \<rparr>" by simp
    with One w none show ?thesis
      by (auto simp: sqlite_ops_def sqlite_put_block_internal_def sqlite_get_block_def sqlite_get_block_info_def
          unwrap_def unwrap_opt_def assert_then_def Let_def id_serialize_inj split: option.split)
  next
    case (Two p f)
    then have "i = \<lparr> bi_hash = bi_hash i, bi_depth = bi_depth i, bi_links = [\<lparr> link_distance = 1, link_hash = p \<rparr>, f] \<rparr>" by simp
    with Two w none show ?thesis
      by (auto simp: sqlite_ops_def sqlite_put_block_internal_def sqlite_get_block_def sqlite_get_block_info_def
          unwrap_def unwrap_opt_def assert_then_def Let_def id_serialize_inj split: option.split)
  qed
qed

end

sublocale id_codec \<subseteq> sql: block_store "sqlite_ops ops ids" ops "sqlite_infos ids" "sqlite_inv ids" for ops
proof
  fix s h
  show "get_block_info (sqlite_ops ops ids) s h = (case sqlite_infos ids s h of None \<Rightarrow> Err BlockNotFound | Some i \<Rightarrow> Ok i)"
    if "sqlite_inv ids s" using get_info_eq [OF that] by (simp add: sqlite_ops_def)
next
  fix s b and i :: "_ block_info"
  assume a: "sqlite_inv ids s" "sqlite_infos ids s (bi_hash i) = None" "storable ops b" "standard_links (bi_links i)"
  obtain s' where s': "put_block_internal (sqlite_ops ops ids) s b i = Ok s'"
      "\<And>h. sqlite_get_block_info ids s' h = (if h = bi_hash i then Ok i else sqlite_get_block_info ids s h)"
      "\<And>h. (table_blocks s' (id_serialize ids h) = None) = (h \<noteq> bi_hash i \<and> table_blocks s (id_serialize ids h) = None)"
      "\<And>h. get_block (sqlite_ops ops ids) s' h = (if h = bi_hash i then Ok (b, i) else get_block (sqlite_ops ops ids) s h)"
    using sqlite_put_get [OF a] by blast
  have "sqlite_infos ids s' = (sqlite_infos ids s)(bi_hash i \<mapsto> i)"
    by (rule ext) (simp add: sqlite_infos_def s'(2))
  moreover have "(table_infos s' (id_serialize ids h) = None) = (h \<noteq> bi_hash i \<and> table_infos s (id_serialize ids h) = None)" for h
    using get_info_Err [of s' h] get_info_Err [of s h] s'(2) [of h] by (metis outcome.distinct(1))
  then have "sqlite_inv ids s'" using a(1) by (simp add: sqlite_inv_def s'(2,3))
  ultimately show "\<exists>s'. put_block_internal (sqlite_ops ops ids) s b i = Ok s' \<and> sqlite_inv ids s' \<and>
      sqlite_infos ids s' = (sqlite_infos ids s)(bi_hash i \<mapsto> i) \<and>
      get_block (sqlite_ops ops ids) s' (bi_hash i) = Ok (b, i) \<and>
      (\<forall>h. h \<noteq> bi_hash i \<longrightarrow> get_block (sqlite_ops ops ids) s' h = get_block (sqlite_ops ops ids) s h)"
    using s'(1,4) by auto
qed

text \<open>The identifiers of the chain are hashes.\<close>

definition hash_ids :: "hash id_ops" where
  "hash_ids =
     \<lparr> id_serialize = hash_serialize,
       id_deserialize = (\<lambda>w. case hash_deserialize w of Ok (h, _) \<Rightarrow> Ok h | _ \<Rightarrow> Err BlockNotFound) \<rparr>"

interpretation hashes: id_codec hash_ids
  by unfold_locales (simp add: hash_ids_def stream_hash.stream_read_ser [of _ "[]", simplified])

section \<open>Properties\<close>

text \<open>The provided methods depend on a store only through what it says of its blocks.\<close>

lemma same_infos_same_answers:
  assumes "get_block_info st s = get_block_info st' s'"
  shows "get_nth_ancestor st s = get_nth_ancestor st' s'" and "is_ancestor st ops s = is_ancestor st' ops s'"
    and "iterate_range st ops s = iterate_range st' ops s'" and "block_iter_next st s = block_iter_next st' s'"
    and "compute_links st ops s = compute_links st' ops s'" and "block_exists st s = block_exists st' s'"
proof -
  show anc: "get_nth_ancestor st s = get_nth_ancestor st' s'"
    by (intro ext) (simp only: get_nth_ancestor_def get_path_to_nth_ancestor_def assms)
  show isa: "is_ancestor st ops s = is_ancestor st' ops s'"
    by (intro ext) (simp only: is_ancestor_def assms anc)
  show "iterate_range st ops s = iterate_range st' ops s'"
    by (intro ext) (simp only: iterate_range_def assms isa)
  show "block_iter_next st s = block_iter_next st' s'"
    by (intro ext) (simp only: block_iter_next_def get_path_to_nth_ancestor_def assms)
  show "compute_links st ops s = compute_links st' ops s'"
    by (intro ext) (simp only: compute_links_def assms anc)
  show "block_exists st s = block_exists st' s'"
    by (intro ext) (simp only: block_exists_def assms)
qed


definition demo_hash_ops :: "(u8, hash) block_ops" where
  "demo_hash_ops =
     \<lparr> bo_id = (\<lambda>b. Ok (Hash (ucast b))), bo_parent_id = (\<lambda>b. Hash (ucast b - 1)), bo_zero = Hash 0,
       bo_serialize = (\<lambda>b. Ok [b]), bo_deserialize = (\<lambda>w. case w of [b] \<Rightarrow> Ok b | _ \<Rightarrow> Err BlockNotFound) \<rparr>"


end
