(* ===== verification/Chain_Time.thy ===== *)
theory Chain_Time
  imports Prelude
begin

text \<open>
  Time frames and eras, \<^verbatim>\<open>chain-time/src/\<close>. A system time is its number of nanoseconds, a duration a number of
  nanoseconds; the numbers of slots and seconds are 64 bit words, and dividing by zero panics.
\<close>

type_synonym system_time = int
type_synonym duration = nat

definition nanos_per_sec :: nat where
  "nanos_per_sec = 10 ^ 9"

definition duration_from_secs :: "u64 \<Rightarrow> duration" where
  "duration_from_secs s = unat s * nanos_per_sec"

definition as_secs :: "duration \<Rightarrow> u64" where
  "as_secs d = word_of_nat (d div nanos_per_sec)"

definition checked_div :: "'a::len word \<Rightarrow> 'a word \<Rightarrow> ('a word, 'e) outcome" where
  "checked_div x y = (if y = 0 then Panic else Ok (x div y))"

definition checked_mod :: "'a::len word \<Rightarrow> 'a word \<Rightarrow> ('a word, 'e) outcome" where
  "checked_mod x y = (if y = 0 then Panic else Ok (x mod y))"

section \<open>Timelines\<close>

datatype timeline = Timeline (start_time: system_time)

datatype time_offset = TimeOffset (offset_duration: duration)

definition timeline_new :: "system_time \<Rightarrow> timeline" where
  "timeline_new t = Timeline t"

definition differential :: "timeline \<Rightarrow> system_time \<Rightarrow> time_offset option" where
  "differential line t =
     (if start_time line \<le> t then Some (TimeOffset (nat (t - start_time line))) else None)"

definition advance :: "timeline \<Rightarrow> duration \<Rightarrow> timeline" where
  "advance line d = Timeline (start_time line + int d)"

section \<open>Time frames\<close>

datatype slot = Slot (slot_u64: u64)

record slot_and_duration =
  sd_slot :: slot
  sd_offset :: duration

datatype slot_duration = SlotDuration (slot_secs: u64)

definition slot_duration_from_secs :: "u32 \<Rightarrow> (slot_duration, 'e) outcome" where
  "slot_duration_from_secs seconds = assert_then (seconds < 600) (Ok (SlotDuration (ucast seconds)))"

definition slot_duration_to_duration :: "slot_duration \<Rightarrow> duration" where
  "slot_duration_to_duration sd = duration_from_secs (slot_secs sd)"

record time_frame =
  tf_timeline :: timeline
  tf_slot_offset :: slot
  tf_slot_duration :: slot_duration

definition time_frame_new :: "timeline \<Rightarrow> slot_duration \<Rightarrow> time_frame" where
  "time_frame_new line per_slot =
     \<lparr> tf_timeline = line, tf_slot_offset = Slot 0, tf_slot_duration = per_slot \<rparr>"

definition change_frame :: "time_frame \<Rightarrow> slot \<Rightarrow> slot_duration \<Rightarrow> time_frame" where
  "change_frame tf s duration_per_slot =
     (let d = duration_from_secs (slot_u64 s * slot_secs (tf_slot_duration tf));
          new_timeline = advance (tf_timeline tf) d
      in \<lparr> tf_timeline = new_timeline,
           tf_slot_offset = Slot (slot_u64 (tf_slot_offset tf) + slot_u64 s),
           tf_slot_duration = duration_per_slot \<rparr>)"

definition slot_at_precise :: "time_frame \<Rightarrow> system_time \<Rightarrow> (slot_and_duration option, 'e) outcome" where
  "slot_at_precise tf at =
     (case differential (tf_timeline tf) at of
        None \<Rightarrow> Ok None
      | Some t \<Rightarrow>
          obind (checked_div (as_secs (offset_duration t)) (slot_secs (tf_slot_duration tf))) (\<lambda>slot_nb.
            let e = slot_nb * slot_secs (tf_slot_duration tf);
                d = offset_duration t - duration_from_secs e
            in Ok (Some \<lparr> sd_slot = Slot (slot_u64 (tf_slot_offset tf) + slot_nb), sd_offset = d \<rparr>)))"

definition slot_at :: "time_frame \<Rightarrow> system_time \<Rightarrow> (slot option, 'e) outcome" where
  "slot_at tf at =
     (case differential (tf_timeline tf) at of
        None \<Rightarrow> Ok None
      | Some t \<Rightarrow>
          obind (checked_div (as_secs (offset_duration t)) (slot_secs (tf_slot_duration tf))) (\<lambda>slot_nb.
            Ok (Some (Slot (slot_u64 (tf_slot_offset tf) + slot_nb)))))"

definition slot_to_systemtime :: "time_frame \<Rightarrow> slot \<Rightarrow> system_time option" where
  "slot_to_systemtime tf s =
     (case checked_sub (slot_u64 s) (slot_u64 (tf_slot_offset tf)) of
        None \<Rightarrow> None
      | Some sd \<Rightarrow>
          Some (start_time (tf_timeline tf) +
            int (duration_from_secs (sd * slot_secs (tf_slot_duration tf)))))"

section \<open>Eras\<close>

datatype time_epoch = Epoch (epoch_u32: u32)

datatype epoch_slot_offset = EpochSlotOffset (epoch_slot_u32: u32)

record epoch_position =
  pos_epoch :: time_epoch
  pos_slot :: epoch_slot_offset

record time_era =
  epoch_start :: time_epoch
  slot_start :: slot
  slots_per_epoch :: u32

definition new_era :: "slot \<Rightarrow> time_epoch \<Rightarrow> u32 \<Rightarrow> time_era" where
  "new_era s e n = \<lparr> epoch_start = e, slot_start = s, slots_per_epoch = n \<rparr>"

definition from_slot_to_era :: "time_era \<Rightarrow> slot \<Rightarrow> (epoch_position option, 'e) outcome" where
  "from_slot_to_era era s =
     (if slot_u64 s < slot_u64 (slot_start era) then Ok None
      else
        let slot_era_offset = slot_u64 s - slot_u64 (slot_start era);
            spe = ucast (slots_per_epoch era) :: u64
        in obind (checked_div slot_era_offset spe) (\<lambda>q.
             obind (checked_mod slot_era_offset spe) (\<lambda>r.
               Ok (Some \<lparr> pos_epoch = Epoch (epoch_u32 (epoch_start era) + ucast q),
                          pos_slot = EpochSlotOffset (ucast r) \<rparr>))))"

definition from_era_to_slot :: "time_era \<Rightarrow> epoch_position \<Rightarrow> (slot, 'e) outcome" where
  "from_era_to_slot era pos =
     assert_then (epoch_u32 (pos_epoch pos) \<ge> epoch_u32 (epoch_start era))
       (assert_then (epoch_slot_u32 (pos_slot pos) < slots_per_epoch era)
         (let slot_offset = ucast (epoch_u32 (pos_epoch pos)) * ucast (slots_per_epoch era) +
                ucast (epoch_slot_u32 (pos_slot pos))
          in Ok (Slot (slot_u64 (slot_start era) + slot_offset))))"

section \<open>Slots partition time\<close>

definition frame_ok :: "time_frame \<Rightarrow> system_time \<Rightarrow> bool" where
  "frame_ok tf t \<longleftrightarrow>
     slot_secs (tf_slot_duration tf) \<noteq> 0 \<and> start_time (tf_timeline tf) \<le> t \<and>
     unat (slot_u64 (tf_slot_offset tf)) + nat (t - start_time (tf_timeline tf)) div nanos_per_sec < 2 ^ 64"

lemma unat_as_secs: "d div nanos_per_sec < 2 ^ 64 \<Longrightarrow> unat (as_secs d) = d div nanos_per_sec"
  unfolding as_secs_def by (rule unat_word_of_nat_small) simp

lemma slot_time_split:
  fixes k :: nat
  assumes "0 < k"
  shows "d div n div k * k * n \<le> d" and "0 < n \<Longrightarrow> d < (d div n div k + 1) * k * n"
proof -
  have "d div n div k * k * n \<le> d div n * n" by (intro mult_right_mono) simp_all
  also have "\<dots> \<le> d" by simp
  finally show "d div n div k * k * n \<le> d" .
  assume n: "0 < n"
  have "d div n < (d div n div k + 1) * k"
    using dividend_less_div_times [OF assms, of "d div n"] by simp
  then have "(d div n + 1) * n \<le> (d div n div k + 1) * k * n"
    by (intro mult_right_mono) simp_all
  moreover have "d < (d div n + 1) * n"
    using dividend_less_div_times [OF n, of d] by simp
  ultimately show "d < (d div n div k + 1) * k * n" by simp
qed

lemma slot_at_eqs:
  assumes "frame_ok tf t"
  defines "k \<equiv> slot_secs (tf_slot_duration tf)" and "d \<equiv> nat (t - start_time (tf_timeline tf))"
  obtains q where "slot_at tf t = Ok (Some (Slot (slot_u64 (tf_slot_offset tf) + q)))"
    "slot_at_precise tf t =
       Ok (Some \<lparr> sd_slot = Slot (slot_u64 (tf_slot_offset tf) + q), sd_offset = d - unat q * unat k * nanos_per_sec \<rparr>)"
    "slot_to_systemtime tf (Slot (slot_u64 (tf_slot_offset tf) + q)) =
       Some (start_time (tf_timeline tf) + int (unat q * unat k * nanos_per_sec))"
    "unat q = d div nanos_per_sec div unat k" "0 < unat k"
proof -
  have k: "k \<noteq> 0" "0 < unat k" using assms by (simp_all add: frame_ok_def unat_gt_0)
  have sum: "unat (slot_u64 (tf_slot_offset tf)) + d div nanos_per_sec < 2 ^ 64" and le: "start_time (tf_timeline tf) \<le> t"
    using assms by (simp_all add: frame_ok_def)
  define q where "q = as_secs d div k"
  have secs: "unat (as_secs d) = d div nanos_per_sec" using sum by (intro unat_as_secs) simp
  have q: "unat q = d div nanos_per_sec div unat k" by (simp add: q_def unat_div_distrib secs)
  have "unat q * unat k \<le> d div nanos_per_sec" by (simp add: q)
  then have qk: "unat (q * k) = unat q * unat k" using sum by (intro unat_mult_no_overflow) simp
  have "unat q \<le> d div nanos_per_sec" by (simp add: q)
  then have "unat (slot_u64 (tf_slot_offset tf) + q) = unat (slot_u64 (tf_slot_offset tf)) + unat q"
    using sum by (intro unat_add_no_overflow) simp
  then have sub: "checked_sub (slot_u64 (tf_slot_offset tf) + q) (slot_u64 (tf_slot_offset tf)) = Some q"
    by (simp add: checked_sub_def)
  show ?thesis
  proof (rule that [of q])
    show "slot_at tf t = Ok (Some (Slot (slot_u64 (tf_slot_offset tf) + q)))"
      using k le by (simp add: slot_at_def differential_def checked_div_def q_def k_def d_def)
    show "slot_at_precise tf t =
       Ok (Some \<lparr> sd_slot = Slot (slot_u64 (tf_slot_offset tf) + q), sd_offset = d - unat q * unat k * nanos_per_sec \<rparr>)"
      using k le qk
      by (simp add: slot_at_precise_def differential_def checked_div_def Let_def duration_from_secs_def
          flip: k_def d_def q_def)
    show "slot_to_systemtime tf (Slot (slot_u64 (tf_slot_offset tf) + q)) =
       Some (start_time (tf_timeline tf) + int (unat q * unat k * nanos_per_sec))"
      using sub qk by (simp add: slot_to_systemtime_def duration_from_secs_def flip: k_def)
  qed (use q k in simp_all)
qed

text \<open>
  The slot of a time is the one that contains it: the time lies at or after the start of the slot and less
  than one slot duration later, and the precise query returns the same slot and the time elapsed in it.
\<close>

theorem slot_at_correct:
  assumes "frame_ok tf t"
  shows "\<exists>s t0. slot_at tf t = (Ok (Some s) :: (slot option, 'e) outcome) \<and>
    slot_to_systemtime tf s = Some t0 \<and>
    t0 \<le> t \<and> t < t0 + int (slot_duration_to_duration (tf_slot_duration tf)) \<and>
    slot_at_precise tf t =
      (Ok (Some \<lparr> sd_slot = s, sd_offset = nat (t - t0) \<rparr>) :: (slot_and_duration option, 'e) outcome)"
proof -
  let ?k = "slot_secs (tf_slot_duration tf)" and ?d = "nat (t - start_time (tf_timeline tf))"
  obtain q where q: "slot_at tf t = (Ok (Some (Slot (slot_u64 (tf_slot_offset tf) + q))) :: (slot option, 'e) outcome)"
    "slot_at_precise tf t =
       (Ok (Some \<lparr> sd_slot = Slot (slot_u64 (tf_slot_offset tf) + q),
         sd_offset = ?d - unat q * unat ?k * nanos_per_sec \<rparr>) :: (slot_and_duration option, 'e) outcome)"
    "slot_to_systemtime tf (Slot (slot_u64 (tf_slot_offset tf) + q)) =
       Some (start_time (tf_timeline tf) + int (unat q * unat ?k * nanos_per_sec))"
    "unat q = ?d div nanos_per_sec div unat ?k" "0 < unat ?k"
    using slot_at_eqs [OF assms, where 'a = 'e and 'b = 'e] by blast
  let ?t0 = "start_time (tf_timeline tf) + int (unat q * unat ?k * nanos_per_sec)"
  have d: "start_time (tf_timeline tf) + int ?d = t" using assms by (simp add: frame_ok_def)
  have lo: "unat q * unat ?k * nanos_per_sec \<le> ?d"
    using slot_time_split(1) [OF q(5), of ?d nanos_per_sec] q(4) by simp
  have hi: "?d < (unat q + 1) * unat ?k * nanos_per_sec"
    using slot_time_split(2) [OF q(5), of nanos_per_sec ?d] q(4) by (simp add: nanos_per_sec_def)
  have "?t0 \<le> t" using lo d by linarith
  moreover have "t < ?t0 + int (unat ?k * nanos_per_sec)"
  proof -
    have "?d < unat q * unat ?k * nanos_per_sec + unat ?k * nanos_per_sec" using hi by (simp add: algebra_simps)
    with d show ?thesis by linarith
  qed
  moreover have "?d - unat q * unat ?k * nanos_per_sec = nat (t - ?t0)" using lo d by linarith
  ultimately show ?thesis
    using q(1,2,3) by (auto simp: slot_duration_to_duration_def duration_from_secs_def)
qed

definition demo_frame :: time_frame where
  "demo_frame =
     \<lparr> tf_timeline = Timeline 0, tf_slot_offset = Slot 2, tf_slot_duration = SlotDuration 5 \<rparr>"

theorem slot_at_correct_witness:
  "frame_ok demo_frame (17 * 10 ^ 9) \<and>
   (\<exists>s. slot_at demo_frame (17 * 10 ^ 9) = (Ok (Some s) :: (slot option, unit) outcome) \<and>
     slot_to_systemtime demo_frame s \<noteq> None)"
proof -
  have ok: "frame_ok demo_frame (17 * 10 ^ 9)"
    by (simp add: frame_ok_def demo_frame_def nanos_per_sec_def)
  from slot_at_correct [OF this, where 'e = unit] show ?thesis using ok by auto
qed

text \<open>
  Changing the frame at a slot gives a frame in which that slot starts at the same time only if the old frame
  counts its slots from zero; in every other frame the slot is not even part of the new frame.
\<close>

theorem change_frame_continuity:
  assumes "unat (slot_u64 s) * unat (slot_secs (tf_slot_duration tf)) < 2 ^ 64"
    and "unat (slot_u64 (tf_slot_offset tf)) + unat (slot_u64 s) < 2 ^ 64"
    and "slot_u64 (tf_slot_offset tf) \<le> slot_u64 s"
  shows "slot_to_systemtime (change_frame tf s d) s = slot_to_systemtime tf s \<longleftrightarrow>
    slot_u64 (tf_slot_offset tf) = 0"
proof -
  let ?off = "slot_u64 (tf_slot_offset tf)" and ?s = "slot_u64 s"
  have sum: "unat (?off + ?s) = unat ?off + unat ?s" using assms(2) by (intro unat_add_no_overflow) simp
  have tf: "slot_to_systemtime tf s \<noteq> None"
    using assms(3) by (simp add: slot_to_systemtime_def checked_sub_def word_le_nat_alt)
  show ?thesis
  proof (cases "?off = 0")
    case True
    then show ?thesis
      by (simp add: slot_to_systemtime_def change_frame_def advance_def Let_def checked_sub_def
          duration_from_secs_def)
  next
    case False
    then have "0 < unat ?off" by (simp add: unat_gt_0)
    then have "checked_sub ?s (?off + ?s) = None" using sum by (simp add: checked_sub_def)
    then have "slot_to_systemtime (change_frame tf s d) s = None"
      by (simp add: slot_to_systemtime_def change_frame_def Let_def)
    with False tf show ?thesis by auto
  qed
qed

theorem change_frame_continuity_witness:
  "slot_to_systemtime (change_frame demo_frame (Slot 4) (SlotDuration 2)) (Slot 4) \<noteq>
   slot_to_systemtime demo_frame (Slot 4)"
  using change_frame_continuity [of "Slot 4" demo_frame "SlotDuration 2"] by (simp add: demo_frame_def)

lemma unat_ucast_32_64 [simp]:
  "unat (ucast (x :: u32) :: u64) = unat x"
  "unat (y :: u64) < 2 ^ 32 \<Longrightarrow> unat (ucast y :: u32) = unat y"
  using unat_bound [of x] by (simp_all add: unsigned_ucast_eq take_bit_nat_eq_self)

lemma era_position:
  assumes "slots_per_epoch era \<noteq> 0" and "slot_u64 (slot_start era) \<le> slot_u64 s"
    and "unat (epoch_u32 (epoch_start era)) +
      (unat (slot_u64 s) - unat (slot_u64 (slot_start era))) div unat (slots_per_epoch era) < 2 ^ 32"
  defines "x \<equiv> slot_u64 s - slot_u64 (slot_start era)" and "n \<equiv> ucast (slots_per_epoch era) :: u64"
  shows "n \<noteq> 0" and "unat (ucast (x div n) :: u32) = unat (x div n)" and "unat (ucast (x mod n) :: u32) = unat (x mod n)"
    and "x mod n < n"
    and "unat (epoch_u32 (epoch_start era) + ucast (x div n)) =
      unat (epoch_u32 (epoch_start era)) + unat (x div n)"
proof -
  have n: "unat n = unat (slots_per_epoch era)" by (simp add: n_def)
  have x: "unat x = unat (slot_u64 s) - unat (slot_u64 (slot_start era))"
    using assms(2) by (simp add: x_def unat_sub)
  show n0: "n \<noteq> 0" using assms(1) n by (metis unat_eq_zero)
  then have "0 < unat n" by (simp add: unat_gt_0)
  then show mod: "x mod n < n" by (simp add: word_less_nat_alt unat_mod_distrib)
  have "unat (slots_per_epoch era) < 2 ^ 32" using unat_bound [of "slots_per_epoch era"] by simp
  then show "unat (ucast (x mod n) :: u32) = unat (x mod n)"
    using mod n by (intro unat_ucast_32_64(2)) (simp add: word_less_nat_alt)
  have "unat (x div n) < 2 ^ 32" using assms(3) n x by (simp add: unat_div_distrib)
  then show q: "unat (ucast (x div n) :: u32) = unat (x div n)" by (rule unat_ucast_32_64(2))
  have "unat (epoch_u32 (epoch_start era)) + unat (x div n) < 2 ^ 32"
    using assms(3) n x by (simp add: unat_div_distrib)
  then show "unat (epoch_u32 (epoch_start era) + ucast (x div n)) =
      unat (epoch_u32 (epoch_start era)) + unat (x div n)"
    using q by (subst unat_add_no_overflow) simp_all
qed

text \<open>
  converting a slot to its position in an era and back gives a slot that is late by the length of all epochs before
  the era: the conversions are inverse to each other only for an era that starts with epoch zero.
\<close>

theorem era_roundtrip:
  assumes "slots_per_epoch era \<noteq> 0" and "slot_u64 (slot_start era) \<le> slot_u64 s"
    and "unat (epoch_u32 (epoch_start era)) +
      (unat (slot_u64 s) - unat (slot_u64 (slot_start era))) div unat (slots_per_epoch era) < 2 ^ 32"
  shows "\<exists>pos. from_slot_to_era era s = (Ok (Some pos) :: (epoch_position option, 'e) outcome) \<and>
    from_era_to_slot era pos =
      (Ok (Slot (slot_u64 s + ucast (epoch_u32 (epoch_start era)) * ucast (slots_per_epoch era)))
        :: (slot, 'e) outcome)"
proof -
  let ?x = "slot_u64 s - slot_u64 (slot_start era)" and ?n = "ucast (slots_per_epoch era) :: u64"
  let ?e = "epoch_u32 (epoch_start era)"
  note pos = era_position [OF assms]
  have r: "ucast (ucast (?x mod ?n) :: u32) = ?x mod ?n" "ucast (ucast (?x div ?n) :: u32) = ?x div ?n"
    using pos(2,3) by (simp_all add: word_unat_eq_iff)
  have e: "ucast (?e + ucast (?x div ?n)) = (ucast ?e + ?x div ?n :: u64)"
    using pos(5) unat_bound [of "?e + ucast (?x div ?n)"]
    by (simp add: word_unat_eq_iff) (subst unat_add_no_overflow, simp_all)
  have lt: "(ucast (?x mod ?n) :: u32) < slots_per_epoch era"
    using pos(3,4) by (simp add: word_less_nat_alt)
  have ge: "?e \<le> ?e + ucast (?x div ?n)" using pos(5) by (simp add: word_le_nat_alt)
  have "(ucast ?e + ?x div ?n) * ?n + ?x mod ?n = ucast ?e * ?n + ?x"
    using div_mult_mod_eq [of ?x ?n] by (simp add: distrib_right add.assoc)
  then have "slot_u64 (slot_start era) + ((ucast ?e + ?x div ?n) * ?n + ?x mod ?n) = slot_u64 s + ucast ?e * ?n"
    by simp
  then show ?thesis
    using assms(2) pos(1) lt ge
    by (simp add: from_slot_to_era_def from_era_to_slot_def Let_def checked_div_def checked_mod_def e r not_less)
qed

definition demo_era :: time_era where
  "demo_era = \<lparr> epoch_start = Epoch 2, slot_start = Slot 2, slots_per_epoch = 4 \<rparr>"

theorem era_roundtrip_witness:
  "\<exists>pos. from_slot_to_era demo_era (Slot 20) = (Ok (Some pos) :: (epoch_position option, unit) outcome) \<and>
    from_era_to_slot demo_era pos = (Ok (Slot 28) :: (slot, unit) outcome)"
  using era_roundtrip [of demo_era "Slot 20", where 'e = unit] by (simp add: demo_era_def)

end
