(* ===== verification/Spec2Isabelle.thy ===== *)
theory Spec2Isabelle
  imports Leadership Sqlite_Store Chain_Time
begin

text \<open>
  A verification library for the Rust workspace rust-cardano. The first part is the persistent
  hash array mapped trie of \<^verbatim>\<open>imhamt\<close>, on which the ledgers are built.
\<close>

end
